(* ===== verification/Prelude.thy ===== *)
theory Prelude
  imports Main "HOL-Library.Word" "HOL-Library.Signed_Division"
begin

text \<open>
  Shared ground of the development: names for the C integer types, the C truncating division
  (\<open>sdiv\<close> and \<open>smod\<close> of the library's Signed\_Division on \<open>int\<close>), and the generic
  lemmas on lists, words and modular indices that several components use.

  A C integer of a fixed width that is stored or that wraps is a word of that width; a signed one
  is read with \<open>sint\<close>. An intermediate value that C computes in \<open>int\<close> is an \<open>int\<close> of HOL, and a
  cast back to a stored type is \<open>word_of_int\<close>. On the firmware target \<open>int\<close>, \<open>long\<close> and
  \<open>size_t\<close> have 32 bits.
\<close>

type_synonym u8 = "8 word"
type_synonym u16 = "16 word"
type_synonym u32 = "32 word"
type_synonym u64 = "64 word"
type_synonym i16 = "16 word"
type_synonym i32 = "32 word"

named_theorems c_arith \<open>rewrites that move C arithmetic on words to nat and int\<close>

lemma map_sum_id_comp [simp]: "map_sum id f (map_sum id g x) = map_sum id (\<lambda>a. f (g a)) x"
  by (cases x) simp_all

subsection \<open>Truncating division\<close>

lemma sdiv_nonneg [c_arith]: "0 \<le> a \<Longrightarrow> 0 < b \<Longrightarrow> a sdiv b = a div b" for a b :: int
  by (cases "a = 0") (simp_all add: signed_divide_int_def)

lemma smod_nonneg [c_arith]: "0 \<le> a \<Longrightarrow> 0 < b \<Longrightarrow> a smod b = a mod b" for a b :: int
  by (cases "a = 0") (simp_all add: signed_modulo_int_def)

lemma sdiv_neg [c_arith]: "a < 0 \<Longrightarrow> 0 < b \<Longrightarrow> a sdiv b = - ((- a) div b)" for a b :: int
  by (simp add: signed_divide_int_def)

lemma smod_neg [c_arith]: "a < 0 \<Longrightarrow> 0 < b \<Longrightarrow> a smod b = - ((- a) mod b)" for a b :: int
  by (simp add: signed_modulo_int_def)

subsection \<open>Indices of a ring\<close>

lemma ring_index_inject:
  assumes "(h + i) mod n = (h + j) mod n" and "i < n" and "j < n"
  shows "i = (j :: nat)"
proof -
  have "(int h + int i) mod int n = (int h + int j) mod int n"
    using assms(1) by (metis of_nat_add of_nat_mod)
  then have "int n dvd int i - int j"
    by (metis add_diff_cancel_left mod_eq_dvd_iff)
  moreover have "\<bar>int i - int j\<bar> < int n"
    using assms(2,3) by linarith
  ultimately have "int i - int j = 0"
    by (metis abs_of_nat dvd_imp_le_int linorder_not_le)
  then show ?thesis by simp
qed

lemma ring_index_Suc: "(Suc (h mod n) + k) mod n = (h + Suc k) mod n" for n :: nat
  by (metis add_Suc add_Suc_right mod_add_left_eq mod_Suc_eq)

subsection \<open>Slices of a byte array\<close>

definition slice :: "nat \<Rightarrow> nat \<Rightarrow> 'a list \<Rightarrow> 'a list" where
  "slice off n xs = take n (drop off xs)"

definition write_slice :: "nat \<Rightarrow> 'a list \<Rightarrow> 'a list \<Rightarrow> 'a list" where
  "write_slice off ys xs = take off xs @ ys @ drop (off + length ys) xs"

lemma length_write_slice [simp]:
  "off + length ys \<le> length xs \<Longrightarrow> length (write_slice off ys xs) = length xs"
  by (simp add: write_slice_def)

lemma slice_write_same:
  "off + length ys \<le> length xs \<Longrightarrow> slice off (length ys) (write_slice off ys xs) = ys"
  by (simp add: slice_def write_slice_def)

lemma slice_write_before:
  assumes "i + n \<le> off" and "off + length ys \<le> length xs"
  shows "slice i n (write_slice off ys xs) = slice i n xs"
proof -
  have "take n (drop i (take off xs)) = take n (drop i xs)"
    using assms by (simp add: drop_take min_absorb1)
  then show ?thesis
    using assms by (simp add: slice_def write_slice_def)
qed

lemma slice_write_after:
  assumes "off + length ys \<le> i" and "off + length ys \<le> length xs"
  shows "slice i n (write_slice off ys xs) = slice i n xs"
  using assms by (simp add: slice_def write_slice_def min_absorb2)

text \<open>Slots of one size: writing slot \<open>j\<close> changes slot \<open>j\<close> and no other.\<close>

definition slot :: "nat \<Rightarrow> nat \<Rightarrow> 'a list \<Rightarrow> 'a list" where
  "slot sz i xs = slice (i * sz) sz xs"

lemma slot_fits: "i < n \<Longrightarrow> i * sz + sz \<le> n * sz" for i n sz :: nat
  by (metis Suc_leI add.commute mult_Suc mult_le_mono1)

lemma slot_write:
  assumes "length ys = sz" and "j < n" and "i < n" and "length xs = n * sz"
  shows "slot sz i (write_slice (j * sz) ys xs) = (if i = j then ys else slot sz i xs)"
proof (cases i j rule: linorder_cases)
  case less
  then have "i * sz + sz \<le> j * sz" by (rule slot_fits)
  then show ?thesis
    using assms less slot_fits [of j n sz] by (simp add: slot_def slice_write_before)
next
  case equal
  then show ?thesis
    using assms slot_fits [of j n sz] slice_write_same [of "j * sz" ys xs] by (simp add: slot_def)
next
  case greater
  then have "j * sz + sz \<le> i * sz" by (rule slot_fits)
  then show ?thesis
    using assms greater slot_fits [of j n sz] by (simp add: slot_def slice_write_after)
qed

lemma length_slot: "i < n \<Longrightarrow> length xs = n * sz \<Longrightarrow> length (slot sz i xs) = sz"
  using slot_fits [of i n sz] by (simp add: slot_def slice_def)

subsection \<open>Words without wrap-around\<close>

lemma unat_plus_nowrap:
  "unat a + unat b < 2 ^ LENGTH('a) \<Longrightarrow> unat (a + b) = unat a + unat b" for a b :: "'a::len word"
  by (simp add: unat_word_ariths)

lemma unat_times_nowrap:
  "unat a * unat b < 2 ^ LENGTH('a) \<Longrightarrow> unat (a * b) = unat a * unat b" for a b :: "'a::len word"
  by (simp add: unat_word_ariths)

lemma unat_div_numeral: "unat (a div b) = unat a div unat b" for a b :: "'a::len word"
  by (rule unat_div)

lemma unat_mod_numeral: "unat (a mod b) = unat a mod unat b" for a b :: "'a::len word"
  by (rule unat_mod)

lemma uint_ucast_16: "uint (ucast w :: u16) = uint (w :: u32) mod 65536"
  by (simp add: unsigned_ucast_eq take_bit_eq_mod)

lemma sint16_range: "- 32768 \<le> sint (x :: i16) \<and> sint x < 32768"
  using sint_ge [of x] sint_lt [of x] by simp

lemma sint_word_of_int_16: "- 32768 \<le> k \<Longrightarrow> k < 32768 \<Longrightarrow> sint (word_of_int k :: i16) = k"
  by (simp add: signed_of_int signed_take_bit_int_eq_self)

text \<open>Reading a signed word that is not negative, and negating one that is.\<close>

lemma unat_of_nonneg: "0 \<le> sint v \<Longrightarrow> unat v = nat (sint v)" for v :: "'a::len word"
proof -
  assume "0 \<le> sint v"
  moreover have "sint v < 2 ^ LENGTH('a)"
  proof -
    have "sint v < 2 ^ (LENGTH('a) - 1)" by (rule sint_lt)
    also have "(2 :: int) ^ (LENGTH('a) - 1) \<le> 2 ^ LENGTH('a)"
      by (rule power_increasing) simp_all
    finally show ?thesis .
  qed
  moreover have "uint v = sint v mod 2 ^ LENGTH('a)"
    using uint_word_of_int [of "sint v", where 'a = 'a] by simp
  ultimately have "uint v = sint v" by simp
  then show ?thesis by (metis unat_eq_nat_uint)
qed

lemma unat_of_neg: "sint v < 0 \<Longrightarrow> unat (- v) = nat (- sint v)" for v :: "'a::len word"
proof -
  assume "sint v < 0"
  moreover have "- sint v < 2 ^ LENGTH('a)"
  proof -
    have "- sint v \<le> 2 ^ (LENGTH('a) - 1)" using sint_ge [of v] by simp
    also have "(2 :: int) ^ (LENGTH('a) - 1) < 2 ^ LENGTH('a)"
      by (rule power_strict_increasing) simp_all
    finally show ?thesis .
  qed
  moreover have "uint (- v) = (- sint v) mod 2 ^ LENGTH('a)"
    using uint_word_of_int [of "- sint v", where 'a = 'a] by simp
  ultimately have "uint (- v) = - sint v" by simp
  then show ?thesis by (metis unat_eq_nat_uint)
qed

lemma of_nat_Suc_word [simp]: "of_nat (Suc n) = of_nat n + (1 :: 'a::len word)"
  by (simp add: add.commute)

end
