(* ===== verification/Fifo.thy ===== *)
theory Fifo
  imports Prelude
begin

text \<open>
  The contract of a bounded first-in first-out queue, the one interface that both builds of the
  simulator rely on: the host build through \<open>src/src/queue.c\<close>, the firmware through the queues of
  the RTOS kernel. The reference is a list: \<open>spec_push\<close> appends unless the list has reached its
  capacity, \<open>spec_pop\<close> takes the head. The locale \<open>bounded_fifo\<close> says that an implementation's
  operations commute with an abstraction function \<open>items\<close> on the states that satisfy \<open>ok\<close>;
  its lemmas lift that from one operation to any run of operations.
\<close>

subsection \<open>The reference queue\<close>

definition spec_push :: "nat \<Rightarrow> 'a list \<Rightarrow> 'a \<Rightarrow> bool \<times> 'a list" where
  "spec_push cap xs x = (if length xs < cap then (True, xs @ [x]) else (False, xs))"

fun spec_pop :: "'a list \<Rightarrow> ('a \<times> 'a list) option" where
  "spec_pop [] = None"
| "spec_pop (x # xs) = Some (x, xs)"

datatype 'a fifo_op = Push 'a | Pop | Clear

datatype 'a fifo_out = Pushed bool | Popped "'a option" | Cleared

text \<open>A run of operations over any implementation, with what each call returned.\<close>

fun fifo_run :: "('q \<Rightarrow> 'a \<Rightarrow> bool \<times> 'q) \<Rightarrow> ('q \<Rightarrow> ('a \<times> 'q) option) \<Rightarrow> ('q \<Rightarrow> 'q) \<Rightarrow>
    'q \<Rightarrow> 'a fifo_op list \<Rightarrow> 'a fifo_out list \<times> 'q" where
  "fifo_run psh pp clr q [] = ([], q)"
| "fifo_run psh pp clr q (Push x # ops) =
     (let (b, q') = psh q x; (outs, r) = fifo_run psh pp clr q' ops in (Pushed b # outs, r))"
| "fifo_run psh pp clr q (Pop # ops) =
     (case pp q of
        None \<Rightarrow> let (outs, r) = fifo_run psh pp clr q ops in (Popped None # outs, r)
      | Some (x, q') \<Rightarrow>
          let (outs, r) = fifo_run psh pp clr q' ops in (Popped (Some x) # outs, r))"
| "fifo_run psh pp clr q (Clear # ops) =
     (let (outs, r) = fifo_run psh pp clr (clr q) ops in (Cleared # outs, r))"

definition spec_run :: "nat \<Rightarrow> 'a list \<Rightarrow> 'a fifo_op list \<Rightarrow> 'a fifo_out list \<times> 'a list" where
  "spec_run cap = fifo_run (spec_push cap) spec_pop (\<lambda>_. [])"

fun pushes_of :: "'a fifo_op list \<Rightarrow> 'a list" where
  "pushes_of [] = []"
| "pushes_of (Push x # ops) = x # pushes_of ops"
| "pushes_of (_ # ops) = pushes_of ops"

lemma length_spec_push: "length xs \<le> cap \<Longrightarrow> length (snd (spec_push cap xs x)) \<le> cap"
  by (simp add: spec_push_def)

subsection \<open>The contract\<close>

locale bounded_fifo =
  fixes push :: "'q \<Rightarrow> 'a \<Rightarrow> bool \<times> 'q"
    and pop :: "'q \<Rightarrow> ('a \<times> 'q) option"
    and clear :: "'q \<Rightarrow> 'q"
    and depth :: "'q \<Rightarrow> nat"
    and ok :: "'q \<Rightarrow> bool"
    and items :: "'q \<Rightarrow> 'a list"
    and valid :: "'a \<Rightarrow> bool"
    and cap :: nat
  assumes push_ok: "ok q \<Longrightarrow> valid x \<Longrightarrow> ok (snd (push q x))"
    and push_items: "ok q \<Longrightarrow> valid x \<Longrightarrow>
          (fst (push q x), items (snd (push q x))) = spec_push cap (items q) x"
    and pop_ok: "ok q \<Longrightarrow> pop q = Some (x, q') \<Longrightarrow> ok q'"
    and pop_items: "ok q \<Longrightarrow> map_option (apsnd items) (pop q) = spec_pop (items q)"
    and clear_ok: "ok q \<Longrightarrow> ok (clear q)"
    and clear_items: "ok q \<Longrightarrow> items (clear q) = []"
    and depth_items: "ok q \<Longrightarrow> depth q = length (items q)"
    and items_bound: "ok q \<Longrightarrow> length (items q) \<le> cap"
begin

lemma push_accepts:
  assumes "ok q" and "valid x" and "push q x = (True, q')"
  shows "length (items q) < cap" and "items q' = items q @ [x]" and "ok q'"
  using push_items [OF assms(1,2)] push_ok [OF assms(1,2)] assms(3)
  by (auto simp: spec_push_def split: if_splits)

lemma push_refuses:
  assumes "ok q" and "valid x" and "push q x = (False, q')"
  shows "length (items q) = cap" and "items q' = items q" and "ok q'"
  using push_items [OF assms(1,2)] push_ok [OF assms(1,2)] items_bound [OF assms(1)] assms(3)
  by (auto simp: spec_push_def split: if_splits)

lemma pop_takes_head:
  assumes "ok q" and "pop q = Some (x, q')"
  shows "items q = x # items q'" and "ok q'"
  using pop_items [OF assms(1)] pop_ok [OF assms] assms(2)
  by (cases "items q"; simp)+

lemma pop_empty_iff: "ok q \<Longrightarrow> pop q = None \<longleftrightarrow> items q = []"
  using pop_items [of q] by (cases "items q") auto

lemma depth_bound: "ok q \<Longrightarrow> depth q \<le> cap"
  by (simp add: depth_items items_bound)

text \<open>Every run of operations returns what the reference list returns, and ends in its image.\<close>

lemma run_refines:
  assumes "ok q" and "list_all valid (pushes_of ops)"
  shows "apsnd items (fifo_run push pop clear q ops) = spec_run cap (items q) ops
    \<and> ok (snd (fifo_run push pop clear q ops))"
  using assms
proof (induction ops arbitrary: q)
  case Nil
  then show ?case by (simp add: spec_run_def)
next
  case (Cons a ops)
  show ?case
  proof (cases a)
    case (Push x)
    obtain b q' where p: "push q x = (b, q')" by (cases "push q x")
    have v: "valid x" and vs: "list_all valid (pushes_of ops)"
      using Cons.prems(2) Push by simp_all
    have ok': "ok q'" using push_ok [OF Cons.prems(1) v] p by simp
    have sp: "spec_push cap (items q) x = (b, items q')"
      using push_items [OF Cons.prems(1) v] p by simp
    show ?thesis
      using Cons.IH [OF ok' vs] Push p sp by (auto simp: spec_run_def split: prod.splits)
  next
    case Pop
    have vs: "list_all valid (pushes_of ops)"
      using Cons.prems(2) Pop by simp
    show ?thesis
    proof (cases "pop q")
      case None
      then have "items q = []" using pop_empty_iff [OF Cons.prems(1)] by simp
      with None show ?thesis
        using Cons.IH [OF Cons.prems(1) vs] Pop by (auto simp: spec_run_def split: prod.splits)
    next
      case (Some r)
      obtain x q' where r: "r = (x, q')" by (cases r)
      have "items q = x # items q'" and ok': "ok q'"
        using pop_takes_head [OF Cons.prems(1)] Some r by auto
      with Some r show ?thesis
        using Cons.IH [OF ok' vs] Pop by (auto simp: spec_run_def split: prod.splits)
    qed
  next
    case Clear
    have "list_all valid (pushes_of ops)"
      using Cons.prems(2) Clear by simp
    with Clear show ?thesis
      using Cons.IH [OF clear_ok [OF Cons.prems(1)]] clear_items [OF Cons.prems(1)]
      by (auto simp: spec_run_def split: prod.splits)
  qed
qed

end

end
