(* ===== verification/MsgQueue.thy ===== *)
theory MsgQueue
  imports Fifo
begin

text \<open>
  The message queue of the host build, \<open>src/src/queue.c\<close>: a ring of \<open>capacity\<close> slots of
  \<open>item_size\<close> bytes in one heap block. The storage is kept as bytes and the slots are addressed by
  \<open>head * item_size\<close> and \<open>tail * item_size\<close>, as the code does. A pointer that may be NULL is an
  option. Every operation locks the queue's mutex for its whole body, so one call is one atomic
  step; the only point where the lock is given up is the wait inside \<open>queue_pop\<close>, whose outcomes
  (woken or timed out, with the time at which the wait began and the queue the waiter finds when it
  holds the lock again) are an argument of the model. The condition variables' signals are
  returned, since who is woken is part of what the code does.
\<close>

subsection \<open>State\<close>

record timespec =
  tv_sec :: int
  tv_nsec :: int

record MsgQueue =
  q_name :: string
  item_size :: nat
  capacity :: nat
  head :: nat
  tail :: nat
  q_count :: nat
  storage :: "u8 list"

datatype cond_event = Signal_not_empty | Signal_not_full | Broadcast_not_full

definition deadline_from_now_ms :: "timespec \<Rightarrow> int \<Rightarrow> timespec" where
  "deadline_from_now_ms now timeout_ms =
     (let now = now\<lparr>tv_sec := tv_sec now + timeout_ms sdiv 1000\<rparr>;
          now = now\<lparr>tv_nsec := tv_nsec now + (timeout_ms smod 1000) * 1000000\<rparr>
      in if tv_nsec now \<ge> 1000000000
         then now\<lparr>tv_sec := tv_sec now + 1, tv_nsec := tv_nsec now - 1000000000\<rparr>
         else now)"

text \<open>What the allocator and the pthread initialisers answer in \<open>queue_create\<close>.\<close>

record create_env =
  calloc_queue :: bool
  calloc_storage :: bool
  mutex_init :: int
  not_empty_init :: int
  not_full_init :: int

text \<open>What \<open>queue_destroy\<close> gives back, in its order.\<close>

datatype release = Destroy_not_empty | Destroy_not_full | Destroy_mutex | Free_storage | Free_queue

definition queue_destroy :: "MsgQueue option \<Rightarrow> release list" where
  "queue_destroy queue =
     (case queue of
        None \<Rightarrow> []
      | Some q \<Rightarrow> [Destroy_not_empty, Destroy_not_full, Destroy_mutex, Free_storage, Free_queue])"

text \<open>
  \<open>queue_create\<close> returns the queue and what it released on the way out.
  \<open>snprintf(queue->name, 32, ...)\<close> keeps at most 31 characters; \<open>calloc\<close> zeroes.
\<close>

definition queue_create :: "create_env \<Rightarrow> string option \<Rightarrow> nat \<Rightarrow> nat \<Rightarrow>
    MsgQueue option \<times> release list" where
  "queue_create env name isz cap =
     (if isz = 0 \<or> cap = 0 then (None, [])
      else if \<not> calloc_queue env then (None, [])
      else if \<not> calloc_storage env then (None, [Free_queue])
      else
        let q = \<lparr>q_name = take 31 (case name of None \<Rightarrow> ''queue'' | Some n \<Rightarrow> n),
                 item_size = isz, capacity = cap, head = 0, tail = 0, q_count = 0,
                 storage = replicate (cap * isz) 0\<rparr>
        in if mutex_init env \<noteq> 0 \<or> not_empty_init env \<noteq> 0 \<or> not_full_init env \<noteq> 0
           then (None, queue_destroy (Some q))
           else (Some q, []))"

subsection \<open>Operations\<close>

definition queue_push ::
    "MsgQueue option \<Rightarrow> u8 list option \<Rightarrow> bool \<times> MsgQueue option \<times> cond_event list" where
  "queue_push queue item =
     (case (queue, item) of
        (Some q, Some x) \<Rightarrow>
          (if q_count q < capacity q then
             let q = q\<lparr>storage := write_slice (tail q * item_size q) (take (item_size q) x) (storage q)\<rparr>;
                 q = q\<lparr>tail := (tail q + 1) mod capacity q\<rparr>;
                 q = q\<lparr>q_count := q_count q + 1\<rparr>
             in (True, Some q, [Signal_not_empty])
           else (False, Some q, []))
      | _ \<Rightarrow> (False, queue, []))"

text \<open>The tail of \<open>queue_pop\<close>, reached with the lock held and a message in the ring.\<close>

definition pop_head :: "MsgQueue \<Rightarrow> u8 list \<times> MsgQueue" where
  "pop_head q =
     (let x = slice (head q * item_size q) (item_size q) (storage q);
          q = q\<lparr>head := (head q + 1) mod capacity q\<rparr>;
          q = q\<lparr>q_count := q_count q - 1\<rparr>
      in (x, q))"

text \<open>
  One wait on \<open>not_empty\<close>: when it began, and the queue found when the waiter holds the lock
  again, woken (by a signal or spuriously) or with ETIMEDOUT. Running out of outcomes means that
  the caller is still asleep.
\<close>

datatype wait_event = Woken timespec MsgQueue | TimedOut timespec MsgQueue

datatype pop_result = Blocked | Failed MsgQueue | Got "u8 list" MsgQueue

text \<open>The wait loop. It also returns the absolute deadlines it passed to the timed waits.\<close>

fun pop_wait :: "int \<Rightarrow> MsgQueue \<Rightarrow> wait_event list \<Rightarrow> pop_result \<times> timespec list" where
  "pop_wait timeout_ms q evs =
     (if q_count q \<noteq> 0 then (let (x, q') = pop_head q in (Got x q', []))
      else
        case evs of
          [] \<Rightarrow> (Blocked, [])
        | Woken now q' # evs' \<Rightarrow>
            if timeout_ms < 0 then pop_wait timeout_ms q' evs'
            else apsnd ((#) (deadline_from_now_ms now timeout_ms)) (pop_wait timeout_ms q' evs')
        | TimedOut now q' # evs' \<Rightarrow>
            if timeout_ms < 0 then pop_wait timeout_ms q' evs'
            else (Failed q', [deadline_from_now_ms now timeout_ms]))"

text \<open>
  \<open>queue_pop\<close>, where a NULL queue or buffer is refused before anything is locked; the result
  \<open>None\<close> is a caller that has not returned. A timed-out call fails without looking at the count
  again, and \<open>pthread_cond_wait\<close> (a negative timeout) never times out, so an outcome \<open>TimedOut\<close>
  is then a wake-up like any other.
\<close>

definition queue_pop :: "MsgQueue option \<Rightarrow> bool \<Rightarrow> int \<Rightarrow> wait_event list \<Rightarrow>
    (bool \<times> u8 list option \<times> MsgQueue option \<times> cond_event list) option" where
  "queue_pop queue item_given timeout_ms evs =
     (case queue of
        Some q \<Rightarrow>
          (if \<not> item_given then Some (False, None, queue, [])
           else case fst (pop_wait timeout_ms q evs) of
                  Got x q' \<Rightarrow> Some (True, Some x, Some q', [Signal_not_full])
                | Failed q' \<Rightarrow> Some (False, None, Some q', [])
                | Blocked \<Rightarrow> None)
      | None \<Rightarrow> Some (False, None, None, []))"

definition queue_count :: "MsgQueue option \<Rightarrow> nat" where
  "queue_count queue = (case queue of None \<Rightarrow> 0 | Some q \<Rightarrow> q_count q)"

definition queue_capacity :: "MsgQueue option \<Rightarrow> nat" where
  "queue_capacity queue = (case queue of None \<Rightarrow> 0 | Some q \<Rightarrow> capacity q)"

definition queue_name :: "MsgQueue option \<Rightarrow> string" where
  "queue_name queue = (case queue of None \<Rightarrow> [] | Some q \<Rightarrow> q_name q)"

definition queue_clear :: "MsgQueue option \<Rightarrow> MsgQueue option \<times> cond_event list" where
  "queue_clear queue =
     (case queue of
        None \<Rightarrow> (None, [])
      | Some q \<Rightarrow> (Some (q\<lparr>head := 0, tail := 0, q_count := 0\<rparr>), [Broadcast_not_full]))"

subsection \<open>The ring as a list of messages\<close>

text \<open>
  \<open>mq_items\<close> reads the messages from the head, \<open>mq_ok isz cap\<close> is the invariant: the tail is where
  the head and the count say, and the storage holds \<open>cap\<close> slots of \<open>isz\<close> bytes.
\<close>

definition mq_items :: "MsgQueue \<Rightarrow> u8 list list" where
  "mq_items q =
     map (\<lambda>k. slot (item_size q) ((head q + k) mod capacity q) (storage q)) [0..<q_count q]"

definition mq_ok :: "nat \<Rightarrow> nat \<Rightarrow> MsgQueue \<Rightarrow> bool" where
  "mq_ok isz cap q \<longleftrightarrow> item_size q = isz \<and> capacity q = cap \<and> 0 < isz \<and> 0 < cap \<and>
     head q < cap \<and> q_count q \<le> cap \<and> tail q = (head q + q_count q) mod cap \<and>
     length (storage q) = cap * isz"

lemma mq_okD:
  assumes "mq_ok isz cap q"
  shows "item_size q = isz" and "capacity q = cap" and "0 < isz" and "0 < cap"
    and "head q < cap" and "q_count q \<le> cap" and "tail q = (head q + q_count q) mod cap"
    and "length (storage q) = cap * isz"
  using assms by (simp_all add: mq_ok_def)

lemma length_mq_items [simp]: "length (mq_items q) = q_count q"
  by (simp add: mq_items_def)

text \<open>The operations on a queue that exists, as the code runs them after the NULL checks.\<close>

definition mq_push :: "MsgQueue \<Rightarrow> u8 list \<Rightarrow> bool \<times> MsgQueue" where
  "mq_push q x = (case queue_push (Some q) (Some x) of
                    (b, Some q', _) \<Rightarrow> (b, q') | (b, None, _) \<Rightarrow> (b, q))"

definition mq_pop :: "MsgQueue \<Rightarrow> (u8 list \<times> MsgQueue) option" where
  "mq_pop q = (case queue_pop (Some q) True 0 [] of
                 Some (True, Some x, Some q', _) \<Rightarrow> Some (x, q') | _ \<Rightarrow> None)"

definition mq_clear :: "MsgQueue \<Rightarrow> MsgQueue" where
  "mq_clear q = (case fst (queue_clear (Some q)) of Some q' \<Rightarrow> q' | None \<Rightarrow> q)"

lemma mq_pop_eq: "mq_pop q = (if q_count q = 0 then None else Some (pop_head q))"
  by (simp add: mq_pop_def queue_pop_def pop_head_def Let_def)

lemma mq_items_write:
  assumes ok: "mq_ok isz cap q" and room: "q_count q < cap" and len: "length x = isz"
  shows "map (\<lambda>k. slot isz ((head q + k) mod cap) (write_slice (tail q * isz) x (storage q)))
      [0..<q_count q] = mq_items q"
proof -
  note d = mq_okD [OF ok]
  have "slot isz ((head q + k) mod cap) (write_slice (tail q * isz) x (storage q))
      = slot isz ((head q + k) mod cap) (storage q)" if "k < q_count q" for k
  proof -
    have "(head q + k) mod cap \<noteq> tail q"
      using ring_index_inject [of "head q" k cap "q_count q"] that room d(7) by auto
    then show ?thesis
      using slot_write [OF len, of "tail q" cap "(head q + k) mod cap" "storage q"] d by simp
  qed
  then show ?thesis by (simp add: mq_items_def d(1,2))
qed

lemma mq_push_full: "\<not> q_count q < capacity q \<Longrightarrow> mq_push q x = (False, q)"
  by (simp add: mq_push_def queue_push_def)

lemma mq_push_room:
  assumes ok: "mq_ok isz cap q" and room: "q_count q < cap" and len: "length x = isz"
  shows "fst (mq_push q x)" and "mq_items (snd (mq_push q x)) = mq_items q @ [x]"
    and "mq_ok isz cap (snd (mq_push q x))"
proof -
  note d = mq_okD [OF ok]
  have tail_lt: "tail q < cap" using d by simp
  have fits: "tail q * isz + length x \<le> length (storage q)"
    using slot_fits [OF tail_lt, of isz] len d by simp
  have eq: "mq_push q x = (True, q\<lparr>storage := write_slice (tail q * isz) x (storage q),
      tail := (tail q + 1) mod cap, q_count := q_count q + 1\<rparr>)"
    using room len d by (simp add: mq_push_def queue_push_def Let_def)
  show "fst (mq_push q x)" by (simp add: eq)
  have "slot isz ((head q + q_count q) mod cap) (write_slice (tail q * isz) x (storage q)) = x"
    using slot_write [OF len tail_lt, of "tail q" "storage q"] tail_lt d by simp
  then show "mq_items (snd (mq_push q x)) = mq_items q @ [x]"
    using mq_items_write [OF assms] by (simp add: eq mq_items_def d(1,2))
  have "(tail q + 1) mod cap = (head q + (q_count q + 1)) mod cap"
    by (simp add: d(7) mod_Suc_eq)
  then show "mq_ok isz cap (snd (mq_push q x))"
    using d room fits by (simp add: eq mq_ok_def)
qed

lemma mq_pop_head:
  assumes ok: "mq_ok isz cap q" and some: "0 < q_count q"
  shows "mq_items q = fst (pop_head q) # mq_items (snd (pop_head q))"
    and "mq_ok isz cap (snd (pop_head q))"
proof -
  note d = mq_okD [OF ok]
  obtain n where n: "q_count q = Suc n" using some by (cases "q_count q") auto
  have "map (\<lambda>k. slot isz ((head q + k) mod cap) (storage q)) [1..<Suc n]
      = map (\<lambda>k. slot isz ((head q + Suc k) mod cap) (storage q)) [0..<n]"
    by (simp add: map_Suc_upt [symmetric] del: upt_Suc map_Suc_upt)
  then show "mq_items q = fst (pop_head q) # mq_items (snd (pop_head q))"
    using d n by (simp add: mq_items_def pop_head_def Let_def upt_conv_Cons slot_def mod_add_left_eq
        del: upt_Suc)
  have "(head q + 1) mod cap < cap" using d by simp
  then show "mq_ok isz cap (snd (pop_head q))"
    using d n by (simp add: mq_ok_def pop_head_def Let_def mod_add_left_eq)
qed

interpretation mq: bounded_fifo mq_push mq_pop mq_clear q_count "mq_ok isz cap" mq_items
  "\<lambda>x. length x = isz" cap for isz cap :: nat
proof unfold_locales
  fix q and x :: "u8 list"
  assume ok: "mq_ok isz cap q" and len: "length x = isz"
  note d = mq_okD [OF ok]
  show "mq_ok isz cap (snd (mq_push q x))"
    using mq_push_room [OF ok _ len] mq_push_full [of q x] ok d by (cases "q_count q < cap") auto
  show "(fst (mq_push q x), mq_items (snd (mq_push q x))) = spec_push cap (mq_items q) x"
    using mq_push_room [OF ok _ len] mq_push_full [of q x] d
    by (cases "q_count q < cap") (auto simp: spec_push_def)
next
  fix q x q'
  assume ok: "mq_ok isz cap q"
  show "mq_pop q = Some (x, q') \<Longrightarrow> mq_ok isz cap q'"
    using mq_pop_head [OF ok] by (auto simp: mq_pop_eq split: if_splits)
  show "map_option (apsnd mq_items) (mq_pop q) = spec_pop (mq_items q)"
  proof (cases "q_count q = 0")
    case True
    then show ?thesis by (simp add: mq_pop_eq mq_items_def)
  next
    case False
    then show ?thesis
      using mq_pop_head(1) [OF ok] by (cases "pop_head q") (simp add: mq_pop_eq)
  qed
  show "mq_ok isz cap (mq_clear q)"
    using mq_okD [OF ok] by (simp add: mq_ok_def mq_clear_def queue_clear_def)
  show "mq_items (mq_clear q) = []"
    by (simp add: mq_clear_def queue_clear_def mq_items_def)
  show "q_count q = length (mq_items q)" by simp
  show "length (mq_items q) \<le> cap" using mq_okD [OF ok] by simp
qed

subsection \<open>Waiting\<close>

fun event_queue :: "wait_event \<Rightarrow> MsgQueue" where
  "event_queue (Woken now q) = q"
| "event_queue (TimedOut now q) = q"

fun event_time :: "wait_event \<Rightarrow> timespec" where
  "event_time (Woken now q) = now"
| "event_time (TimedOut now q) = now"

fun is_timeout :: "wait_event \<Rightarrow> bool" where
  "is_timeout (Woken now q) = False"
| "is_timeout (TimedOut now q) = True"

lemma pop_wait_message:
  "q_count q \<noteq> 0 \<Longrightarrow> pop_wait t q evs = (Got (fst (pop_head q)) (snd (pop_head q)), [])"
  by (simp add: pop_head_def Let_def)

text \<open>Wake-ups that find no message only put the caller back to sleep, with a fresh deadline.\<close>

lemma pop_wait_spurious:
  assumes "q_count q = 0" and "\<forall>e \<in> set ws. q_count (event_queue e) = 0 \<and> (is_timeout e \<longrightarrow> t < 0)"
  shows "pop_wait t q (ws @ evs) =
    apsnd ((@) (if t < 0 then [] else map (\<lambda>e. deadline_from_now_ms (event_time e) t) ws))
      (pop_wait t (last (q # map event_queue ws)) evs)"
  using assms
proof (induction ws arbitrary: q)
  case Nil
  then show ?case by (simp add: apsnd_def map_prod_def split: prod.splits)
next
  case (Cons e ws)
  have e: "q_count (event_queue e) = 0" using Cons.prems(2) by simp
  have rest: "\<forall>e \<in> set ws. q_count (event_queue e) = 0 \<and> (is_timeout e \<longrightarrow> t < 0)"
    using Cons.prems(2) by simp
  note IH = Cons.IH [OF e rest]
  show ?case
    using IH Cons.prems
    by (cases e; cases "t < 0"; cases "pop_wait t (last (event_queue e # map event_queue ws)) evs")
      (simp_all del: last.simps add: last_ConsR)
qed

lemma pop_wait_returns:
  "fst (pop_wait t q evs) \<noteq> Blocked \<longleftrightarrow>
     q_count q \<noteq> 0 \<or> (\<exists>e \<in> set evs. q_count (event_queue e) \<noteq> 0 \<or> (is_timeout e \<and> 0 \<le> t))"
proof (induction evs arbitrary: q)
  case Nil
  then show ?case by (simp add: pop_head_def Let_def)
next
  case (Cons e evs)
  show ?case
  proof (cases "q_count q = 0")
    case True
    then show ?thesis
      using Cons.IH [of "event_queue e"] by (cases e; cases "t < 0") auto
  next
    case False
    then show ?thesis by (simp add: pop_head_def Let_def)
  qed
qed

lemma queue_create_ok:
  assumes "queue_create env nm isz cap = (Some q, r)"
  shows "mq_ok isz cap q" and "mq_items q = []" and "length (q_name q) \<le> 31" and "r = []"
  using assms by (auto simp: queue_create_def mq_ok_def mq_items_def Let_def split: if_splits)

subsection \<open>Properties\<close>

text \<open>C9: A created queue is a bounded FIFO: whatever sequence of pushes, non-blocking pops and clears
  is run on it, every call returns what a list of at most \<open>cap\<close> messages would return, byte for
  byte, the messages left are the list's, and no access leaves the storage block, whose size never
  changes.\<close>

theorem queue_run_refines:
  assumes "queue_create env nm isz cap = (Some q, r)"
    and "list_all (\<lambda>x. length x = isz) (pushes_of ops)"
  shows "fst (fifo_run mq_push mq_pop mq_clear q ops) = fst (spec_run cap [] ops)
    \<and> mq_items (snd (fifo_run mq_push mq_pop mq_clear q ops)) = snd (spec_run cap [] ops)
    \<and> mq_ok isz cap (snd (fifo_run mq_push mq_pop mq_clear q ops))"
  using mq.run_refines [OF queue_create_ok(1) [OF assms(1)] assms(2)] queue_create_ok(2) [OF assms(1)]
  by (cases "fifo_run mq_push mq_pop mq_clear q ops"; cases "spec_run cap [] ops") simp

definition env_ok :: create_env where
  "env_ok = \<lparr>calloc_queue = True, calloc_storage = True, mutex_init = 0, not_empty_init = 0,
     not_full_init = 0\<rparr>"

definition example_queue :: MsgQueue where
  "example_queue = \<lparr>q_name = ''q'', item_size = 1, capacity = 2, head = 0, tail = 0, q_count = 0,
     storage = [0, 0]\<rparr>"

lemma create_example: "queue_create env_ok (Some ''q'') 1 2 = (Some example_queue, [])"
  by (simp add: queue_create_def env_ok_def example_queue_def numeral_2_eq_2)

theorem queue_run_refines_witness:
  "fst (fifo_run mq_push mq_pop mq_clear example_queue [Push [7], Push [8], Push [9], Pop, Push [9], Pop, Pop, Pop])
    = [Pushed True, Pushed True, Pushed False, Popped (Some [7]), Pushed True, Popped (Some [8]),
       Popped (Some [9]), Popped None]"
  using queue_run_refines [OF create_example,
      of "[Push [7], Push [8], Push [9], Pop, Push [9], Pop, Pop, Pop]"]
  by (simp add: spec_run_def spec_push_def)

text \<open>C17: When a pop returns. With a negative timeout it comes back exactly when, at the call or at one
  of its wake-ups, the queue holds a message, so it sleeps for ever on a queue that stays empty;
  with a timeout of zero or more it also comes back at the first wait that times out.\<close>

theorem queue_pop_returns:
  "queue_pop (Some q) True t evs \<noteq> None \<longleftrightarrow>
     0 < q_count q \<or> (\<exists>e \<in> set evs. 0 < q_count (event_queue e) \<or> (is_timeout e \<and> 0 \<le> t))"
  using pop_wait_returns [of t q evs]
  by (auto simp: queue_pop_def simp del: pop_wait.simps split: pop_result.splits)

text \<open>A pop that waits takes the head of the first queue in which it finds a message, however often it
  was woken before, and signals that there is room.\<close>

theorem queue_pop_first_message:
  assumes "q_count q = 0" and "\<forall>e \<in> set ws. q_count (event_queue e) = 0 \<and> \<not> is_timeout e"
    and "mq_ok isz cap q'" and "mq_items q' = x # xs"
  shows "\<exists>q''. queue_pop (Some q) True t (ws @ Woken now q' # evs) =
      Some (True, Some x, Some q'', [Signal_not_full]) \<and> mq_items q'' = xs \<and> mq_ok isz cap q''"
proof -
  have n: "0 < q_count q'" using arg_cong [OF assms(4), of length] by simp
  note h = mq_pop_head [OF assms(3) n]
  have emp: "q_count (last (q # map event_queue ws)) = 0"
    using assms(1,2) by (cases ws rule: rev_cases) auto
  have "fst (pop_wait t q (ws @ Woken now q' # evs)) = Got (fst (pop_head q')) (snd (pop_head q'))"
    using pop_wait_spurious [OF assms(1), of ws t "Woken now q' # evs"] assms(2) emp
      pop_wait_message [of q' t evs] n
    by (simp del: last.simps add: pop_wait.simps [of t "last (q # map event_queue ws)"]
        del: pop_wait.simps)
  moreover have "fst (pop_head q') = x" and "mq_items (snd (pop_head q')) = xs"
    using h(1) assms(4) by simp_all
  ultimately show ?thesis using h(2) by (simp add: queue_pop_def del: pop_wait.simps)
qed

theorem queue_pop_first_message_witness:
  "\<exists>q''. queue_pop (Some example_queue) True (- 1)
       [Woken \<lparr>tv_sec = 0, tv_nsec = 0\<rparr> example_queue,
        Woken \<lparr>tv_sec = 1, tv_nsec = 0\<rparr> (example_queue\<lparr>storage := [5, 0], tail := 1, q_count := 1\<rparr>)] =
      Some (True, Some [5], Some q'', [Signal_not_full])"
  using queue_pop_first_message [of example_queue "[Woken \<lparr>tv_sec = 0, tv_nsec = 0\<rparr> example_queue]" 1 2
      "example_queue\<lparr>storage := [5, 0], tail := 1, q_count := 1\<rparr>" "[5]" "[]" "- 1"
      "\<lparr>tv_sec = 1, tv_nsec = 0\<rparr>" "[]"]
  by (auto simp: example_queue_def mq_ok_def mq_items_def slot_def slice_def)

text \<open>C18: The timeout bounds one wait, not the call: a pop that is woken without finding a message waits
  again for the full timeout counted from that moment, so a call with \<open>n\<close> such wake-ups fails only
  at a deadline counted from the last of them.\<close>

theorem pop_timeout_restarts:
  assumes "q_count q = 0" and "0 \<le> t" and "\<forall>e \<in> set ws. q_count (event_queue e) = 0 \<and> \<not> is_timeout e"
  shows "pop_wait t q (ws @ TimedOut now q' # evs) =
    (Failed q', map (\<lambda>e. deadline_from_now_ms (event_time e) t) ws @ [deadline_from_now_ms now t])"
proof -
  have emp: "q_count (last (q # map event_queue ws)) = 0"
    using assms(1,3) by (cases ws rule: rev_cases) auto
  show ?thesis
    using pop_wait_spurious [OF assms(1), of ws t "TimedOut now q' # evs"] assms(2,3) emp
    by (simp del: last.simps)
qed

theorem pop_timeout_restarts_witness:
  "snd (pop_wait 500 example_queue
      [Woken \<lparr>tv_sec = 10, tv_nsec = 0\<rparr> example_queue, TimedOut \<lparr>tv_sec = 10, tv_nsec = 400000000\<rparr> example_queue])
    = [\<lparr>tv_sec = 10, tv_nsec = 500000000\<rparr>, \<lparr>tv_sec = 10, tv_nsec = 900000000\<rparr>]"
  using pop_timeout_restarts [of example_queue 500 "[Woken \<lparr>tv_sec = 10, tv_nsec = 0\<rparr> example_queue]"
      "\<lparr>tv_sec = 10, tv_nsec = 400000000\<rparr>" example_queue "[]"]
  by (simp add: example_queue_def deadline_from_now_ms_def sdiv_nonneg smod_nonneg del: pop_wait.simps)

text \<open>The absolute deadline of a timed wait is the current time plus the timeout, to the nanosecond,
  and is normalised, as \<open>pthread_cond_timedwait\<close> demands.\<close>

theorem deadline_exact:
  assumes "0 \<le> tv_nsec now" and "tv_nsec now < 1000000000" and "0 \<le> t"
  shows "let d = deadline_from_now_ms now t in 0 \<le> tv_nsec d \<and> tv_nsec d < 1000000000
    \<and> tv_sec d * 1000000000 + tv_nsec d = tv_sec now * 1000000000 + tv_nsec now + t * 1000000"
proof -
  have "t mod 1000 * 1000000 \<le> 999000000"
    using pos_mod_bound [of 1000 t] by linarith
  moreover have "t div 1000 * 1000000000 + t mod 1000 * 1000000 = t * 1000000"
    using div_mult_mod_eq [of t 1000] by linarith
  ultimately show ?thesis
    using assms by (simp add: deadline_from_now_ms_def Let_def sdiv_nonneg smod_nonneg)
qed

theorem deadline_exact_witness:
  "deadline_from_now_ms \<lparr>tv_sec = 4, tv_nsec = 900000000\<rparr> 1250 = \<lparr>tv_sec = 6, tv_nsec = 150000000\<rparr>"
  using deadline_exact [of "\<lparr>tv_sec = 4, tv_nsec = 900000000\<rparr>" 1250]
  by (simp add: deadline_from_now_ms_def Let_def sdiv_nonneg smod_nonneg)

text \<open>C19: Creation gives either a valid empty queue with a name of at most 31 characters, or no queue and
  no memory kept: every block that was allocated is freed, each once. When an initialiser fails, all
  three synchronisation objects are destroyed, also those whose initialiser was never reached.\<close>

theorem queue_create_all_or_nothing:
  "case queue_create env nm isz cap of
     (Some q, rel) \<Rightarrow> mq_ok isz cap q \<and> mq_items q = [] \<and> length (q_name q) \<le> 31 \<and> rel = []
   | (None, rel) \<Rightarrow>
       filter (\<lambda>r. r = Free_queue \<or> r = Free_storage) rel =
         (if isz = 0 \<or> cap = 0 \<or> \<not> calloc_queue env then []
          else if \<not> calloc_storage env then [Free_queue] else [Free_storage, Free_queue])
       \<and> (0 < isz \<and> 0 < cap \<and> calloc_queue env \<and> calloc_storage env \<and> mutex_init env \<noteq> 0
           \<longrightarrow> {Destroy_not_empty, Destroy_not_full, Destroy_mutex} \<subseteq> set rel)"
proof (cases "queue_create env nm isz cap")
  case (Pair o' rel)
  then show ?thesis
    using queue_create_ok [of env nm isz cap]
    by (cases o') (auto simp: queue_create_def queue_destroy_def Let_def split: if_splits)
qed

theorem queue_create_all_or_nothing_witness:
  "{Destroy_not_empty, Destroy_not_full} \<subseteq>
     set (snd (queue_create (env_ok\<lparr>mutex_init := 12\<rparr>) None 4 8))"
  using queue_create_all_or_nothing [of 4 8 "env_ok\<lparr>mutex_init := 12\<rparr>" None]
  by (simp add: queue_create_def env_ok_def queue_destroy_def)

text \<open>Who is woken: a push wakes a reader exactly when it stored the message, a pop that took one
  wakes a writer, and a clear wakes only waiters for room: a reader that sleeps in a pop is never
  woken by it, so a stop that only clears the queues leaves such a reader to its timeout.\<close>

theorem queue_wakes:
  "snd (snd (queue_push (Some q) (Some x))) =
     (if fst (queue_push (Some q) (Some x)) then [Signal_not_empty] else [])
   \<and> (queue_pop (Some q) True t evs = Some (True, y, r, sig) \<longrightarrow> sig = [Signal_not_full])
   \<and> Signal_not_empty \<notin> set (snd (queue_clear o'))"
  by (auto simp: queue_push_def queue_pop_def queue_clear_def Let_def
      simp del: pop_wait.simps split: option.splits pop_result.splits)

theorem queue_wakes_witness:
  "snd (snd (snd (the (queue_pop (Some (example_queue\<lparr>tail := 1, q_count := 1\<rparr>)) True 0 [])))) = [Signal_not_full]"
  using queue_wakes [of "example_queue\<lparr>tail := 1, q_count := 1\<rparr>" "[]" 0 "[]"]
  by (simp add: queue_pop_def example_queue_def pop_head_def)

end
