(* ===== verification/LibcShim.thy ===== *)
theory LibcShim
  imports Prelude
begin

text \<open>
  The C library functions the firmware links instead of a libc, \<open>firmware/src/libc_shim.c\<close>. Memory
  is a map from addresses to bytes and a pointer is an address, so that the copy loops run on
  overlapping regions the way the code's do. A C string is the list of its characters before the
  terminating NUL: \<open>peek\<close> is the character a \<open>char *\<close> points at, which is the NUL once the list is
  used up, and advancing the pointer is \<open>tl\<close>.
\<close>

type_synonym mem = "nat \<Rightarrow> u8"

abbreviation NUL :: char where "NUL \<equiv> CHR 0x00"

definition nul_free :: "string \<Rightarrow> bool" where
  "nul_free s \<longleftrightarrow> NUL \<notin> set s"

subsection \<open>Memory\<close>

function memcpy_loop :: "mem \<Rightarrow> nat \<Rightarrow> nat \<Rightarrow> nat \<Rightarrow> nat \<Rightarrow> mem" where
  "memcpy_loop m d s n i =
     (if i < n then memcpy_loop (m(d + i := m (s + i))) d s n (Suc i) else m)"
  by pat_completeness auto
termination
  by (relation "measure (\<lambda>(m, d, s, n, i). n - i)") auto

declare memcpy_loop.simps [simp del]

definition memcpy :: "mem \<Rightarrow> nat \<Rightarrow> nat \<Rightarrow> nat \<Rightarrow> mem \<times> nat" where
  "memcpy m dest src n = (memcpy_loop m dest src n 0, dest)"

function memset_loop :: "mem \<Rightarrow> nat \<Rightarrow> int \<Rightarrow> nat \<Rightarrow> nat \<Rightarrow> mem" where
  "memset_loop m d c n i =
     (if i < n then memset_loop (m(d + i := word_of_int c)) d c n (Suc i) else m)"
  by pat_completeness auto
termination
  by (relation "measure (\<lambda>(m, d, c, n, i). n - i)") auto

declare memset_loop.simps [simp del]

definition memset :: "mem \<Rightarrow> nat \<Rightarrow> int \<Rightarrow> nat \<Rightarrow> mem \<times> nat" where
  "memset m dest c n = (memset_loop m dest c n 0, dest)"

function memcmp_loop :: "mem \<Rightarrow> nat \<Rightarrow> nat \<Rightarrow> nat \<Rightarrow> nat \<Rightarrow> int" where
  "memcmp_loop m a b n i =
     (if i < n
      then if m (a + i) \<noteq> m (b + i) then uint (m (a + i)) - uint (m (b + i))
           else memcmp_loop m a b n (Suc i)
      else 0)"
  by pat_completeness auto
termination
  by (relation "measure (\<lambda>(m, a, b, n, i). n - i)") auto

declare memcmp_loop.simps [simp del]

definition memcmp :: "mem \<Rightarrow> nat \<Rightarrow> nat \<Rightarrow> nat \<Rightarrow> int" where
  "memcmp m s1 s2 n = memcmp_loop m s1 s2 n 0"

text \<open>The copy is exact unless the destination starts inside the source region.\<close>

lemma memcpy_loop_spec:
  assumes "i \<le> n" and "d \<le> s \<or> s + n \<le> d"
  shows "memcpy_loop m d s n i a =
    (if d + i \<le> a \<and> a < d + n then m (s + (a - d)) else m a)"
  using assms
proof (induction m d s n i rule: memcpy_loop.induct)
  case (1 m d s n i)
  show ?case
  proof (cases "i < n")
    case True
    let ?m = "m(d + i := m (s + i))"
    have "memcpy_loop m d s n i a = memcpy_loop ?m d s n (Suc i) a"
      using True by (simp add: memcpy_loop.simps [of m d s n i])
    also have "\<dots> = (if d + Suc i \<le> a \<and> a < d + n then ?m (s + (a - d)) else ?m a)"
      by (rule "1.IH") (use True "1.prems"(2) in auto)
    also have "\<dots> = (if d + i \<le> a \<and> a < d + n then m (s + (a - d)) else m a)"
      using True "1.prems"(2) by auto
    finally show ?thesis .
  next
    case False
    then show ?thesis by (auto simp: memcpy_loop.simps [of m d s n i])
  qed
qed

lemma memset_loop_spec:
  assumes "i \<le> n"
  shows "memset_loop m d c n i a = (if d + i \<le> a \<and> a < d + n then word_of_int c else m a)"
  using assms
proof (induction m d c n i rule: memset_loop.induct)
  case (1 m d c n i)
  show ?case
  proof (cases "i < n")
    case True
    let ?m = "m(d + i := word_of_int c)"
    have "memset_loop ?m d c n (Suc i) a =
        (if d + Suc i \<le> a \<and> a < d + n then word_of_int c else ?m a)"
      by (rule "1.IH") (use True in auto)
    with True show ?thesis
      by (auto simp: memset_loop.simps [of m d c n i] simp del: fun_upd_apply)
        (auto simp: fun_upd_apply)
  next
    case False
    then show ?thesis by (auto simp: memset_loop.simps [of m d c n i])
  qed
qed

text \<open>
  What a routine that copies memory promises: where the positions of source and destination allow it,
  the destination holds the source's old bytes and nothing else has changed.
\<close>

locale byte_copy =
  fixes copy :: "mem \<Rightarrow> nat \<Rightarrow> nat \<Rightarrow> nat \<Rightarrow> mem" and allowed :: "nat \<Rightarrow> nat \<Rightarrow> nat \<Rightarrow> bool"
  assumes copies: "allowed d s n \<Longrightarrow>
    copy m d s n a = (if d \<le> a \<and> a < d + n then m (s + (a - d)) else m a)"
begin

lemma copied: "allowed d s n \<Longrightarrow> k < n \<Longrightarrow> copy m d s n (d + k) = m (s + k)"
  by (simp add: copies)

lemma elsewhere: "allowed d s n \<Longrightarrow> a \<notin> {d..<d + n} \<Longrightarrow> copy m d s n a = m a"
  by (auto simp: copies)

lemma copy_back:
  assumes "allowed d s n" and "allowed s d n" and "s + n \<le> d \<or> d + n \<le> s"
  shows "copy (copy m d s n) s d n = copy m d s n"
  using assms by (auto simp: copies fun_eq_iff)

end

interpretation shim_copy: byte_copy "\<lambda>m d s n. fst (memcpy m d s n)" "\<lambda>d s n. d \<le> s \<or> s + n \<le> d"
  by unfold_locales (use memcpy_loop_spec [of 0] in \<open>simp add: memcpy_def\<close>)

definition region :: "mem \<Rightarrow> nat \<Rightarrow> nat \<Rightarrow> u8 list" where
  "region m a n = map m [a..<a + n]"

lemma memcmp_loop_spec:
  assumes "i \<le> n"
  shows "memcmp_loop m a b n i = 0 \<longleftrightarrow> (\<forall>k. i \<le> k \<and> k < n \<longrightarrow> m (a + k) = m (b + k))"
  using assms
proof (induction m a b n i rule: memcmp_loop.induct)
  case (1 m a b n i)
  show ?case
  proof (cases "i < n \<and> m (a + i) = m (b + i)")
    case True
    then have "memcmp_loop m a b n i = memcmp_loop m a b n (Suc i)"
      by (simp add: memcmp_loop.simps [of m a b n i])
    also have "\<dots> = 0 \<longleftrightarrow> (\<forall>k. Suc i \<le> k \<and> k < n \<longrightarrow> m (a + k) = m (b + k))"
      by (rule "1.IH") (use True in auto)
    also have "\<dots> \<longleftrightarrow> (\<forall>k. i \<le> k \<and> k < n \<longrightarrow> m (a + k) = m (b + k))"
      using True by (metis Suc_leI Suc_leD le_neq_implies_less)
    finally show ?thesis .
  next
    case False
    then show ?thesis
      by (auto simp: memcmp_loop.simps [of m a b n i] dest: unsigned_word_eqI)
  qed
qed

lemma region_eq_iff:
  "region m a n = region m' b n \<longleftrightarrow> (\<forall>k < n. m (a + k) = m' (b + k))"
  by (auto simp: region_def list_eq_iff_nth_eq)

subsection \<open>Strings\<close>

fun peek :: "string \<Rightarrow> char" where
  "peek [] = NUL"
| "peek (c # cs) = c"

lemma peek_advances [termination_simp]: "peek s \<noteq> NUL \<Longrightarrow> length s - Suc 0 < length s"
  by (cases s) auto

text \<open>\<open>strlen\<close> accepts a NULL pointer, which has length 0.\<close>

fun strlen_loop :: "string \<Rightarrow> nat \<Rightarrow> nat" where
  "strlen_loop s len = (if peek s \<noteq> NUL then strlen_loop (tl s) (Suc len) else len)"

declare strlen_loop.simps [simp del]

definition strlen :: "string option \<Rightarrow> nat" where
  "strlen s = (case s of None \<Rightarrow> 0 | Some t \<Rightarrow> strlen_loop t 0)"

fun strcmp :: "string \<Rightarrow> string \<Rightarrow> int" where
  "strcmp a b =
     (if peek a \<noteq> NUL \<and> peek a = peek b then strcmp (tl a) (tl b)
      else of_char (peek a) - of_char (peek b))"

declare strcmp.simps [simp del]

fun in_reject :: "char \<Rightarrow> string \<Rightarrow> bool" where
  "in_reject c r =
     (if peek r \<noteq> NUL then (if c = peek r then True else in_reject c (tl r)) else False)"

declare in_reject.simps [simp del]

fun strcspn_loop :: "string \<Rightarrow> string \<Rightarrow> nat \<Rightarrow> nat" where
  "strcspn_loop s reject count =
     (if peek s \<noteq> NUL
      then if in_reject (peek s) reject then count else strcspn_loop (tl s) reject (Suc count)
      else count)"

declare strcspn_loop.simps [simp del]

definition strcspn :: "string \<Rightarrow> string \<Rightarrow> nat" where
  "strcspn s reject = strcspn_loop s reject 0"

lemma peek_eq_NUL: "nul_free s \<Longrightarrow> peek s = NUL \<longleftrightarrow> s = []"
  by (cases s) (auto simp: nul_free_def)

lemma nul_free_simps [simp]: "nul_free []" "nul_free (c # s) \<longleftrightarrow> c \<noteq> NUL \<and> nul_free s"
  "nul_free (s @ t) \<longleftrightarrow> nul_free s \<and> nul_free t"
  by (auto simp: nul_free_def)

lemma nul_free_tl: "nul_free s \<Longrightarrow> nul_free (tl s)"
  by (cases s) auto

lemma strlen_loop_spec: "nul_free s \<Longrightarrow> strlen_loop s n = n + length s"
proof (induction s arbitrary: n)
  case Nil
  then show ?case by (simp add: strlen_loop.simps)
next
  case (Cons c s)
  then show ?case by (simp add: strlen_loop.simps [of "c # s"])
qed

lemma of_char_int: "(of_char c :: int) = int (of_char c)"
  by (simp add: of_nat_of_char)

lemma of_char_pos: "c \<noteq> NUL \<Longrightarrow> 0 < (of_char c :: nat)"
  using of_char_eq_iff [of c NUL, where 'a = nat] by auto

lemma of_char_less_iff: "(of_char c :: int) < of_char d \<longleftrightarrow> (of_char c :: nat) < of_char d"
  by (simp add: of_char_int)

lemma strcmp_Cons:
  "strcmp (c # a) (d # b) =
     (if c \<noteq> NUL \<and> c = d then strcmp a b else of_char c - of_char d)"
  by (simp add: strcmp.simps [of "c # a"])

lemma strcmp_Nil: "strcmp [] b = - of_char (peek b)"
  by (simp add: strcmp.simps)

lemma strcmp_Nil2: "strcmp (c # a) [] = of_char c"
  by (simp add: strcmp.simps)

lemma of_char_cases:
  obtains "c = d" | "(of_char c :: nat) < of_char d" "c \<noteq> d" | "(of_char d :: nat) < of_char c" "c \<noteq> d"
  by (metis linorder_neqE_nat of_char_eqI)

lemma in_reject_spec: "nul_free r \<Longrightarrow> in_reject c r \<longleftrightarrow> c \<in> set r"
proof (induction r)
  case Nil
  then show ?case by (simp add: in_reject.simps)
next
  case (Cons d r)
  then show ?case by (auto simp: in_reject.simps [of c "d # r"])
qed

lemma strcspn_loop_spec:
  assumes "nul_free s" and "nul_free r"
  shows "strcspn_loop s r n = n + length (takeWhile (\<lambda>c. c \<notin> set r) s)"
  using assms(1)
proof (induction s arbitrary: n)
  case Nil
  then show ?case by (simp add: strcspn_loop.simps)
next
  case (Cons c s)
  then show ?case
    using in_reject_spec [OF assms(2)] by (simp add: strcspn_loop.simps [of "c # s"])
qed

lemma strcmp_spec:
  assumes "nul_free a" and "nul_free b"
  shows "(strcmp a b = 0 \<longleftrightarrow> a = b)
    \<and> (strcmp a b < 0 \<longleftrightarrow> ord_class.lexordp (map of_char a) (map of_char b :: nat list))
    \<and> strcmp b a = - strcmp a b"
  using assms
proof (induction a arbitrary: b)
  case Nil
  then show ?case
    by (cases b) (use of_char_pos in \<open>auto simp: strcmp_Nil strcmp_Nil2 of_char_int\<close>)
next
  case (Cons c a)
  show ?case
  proof (cases b)
    case Nil
    with Cons.prems show ?thesis
      using of_char_pos [of c] by (simp add: strcmp_Nil strcmp_Nil2 of_char_int)
  next
    case (Cons d b')
    with Cons.prems Cons.IH [of b'] show ?thesis
      by (cases c d rule: of_char_cases) (auto simp: strcmp_Cons of_char_int)
  qed
qed

lemma strcmp_zero: "nul_free a \<Longrightarrow> nul_free b \<Longrightarrow> strcmp a b = 0 \<longleftrightarrow> a = b"
  using strcmp_spec [of a b] by blast


subsection \<open>Properties\<close>

text \<open>\<open>memcpy\<close> returns its destination, moves the source region there byte by byte and
  leaves every other byte alone, whenever the destination does not start inside the source region
  (disjoint regions, or a destination below the source).\<close>

theorem memcpy_copies:
  assumes "d \<le> s \<or> s + n \<le> d"
  shows "snd (memcpy m d s n) = d \<and> region (fst (memcpy m d s n)) d n = region m s n
    \<and> (\<forall>a. a \<notin> {d..<d + n} \<longrightarrow> fst (memcpy m d s n) a = m a)"
proof -
  show ?thesis
    using shim_copy.copied [OF assms] shim_copy.elsewhere [OF assms]
    by (auto simp: region_eq_iff) (simp add: memcpy_def)
qed

theorem memcpy_copies_witness:
  "region (fst (memcpy (\<lambda>a. of_nat a) 4 6 3)) 4 3 = [6, 7, 8]"
  using memcpy_copies [of 4 6 3 "\<lambda>a. of_nat a"] by (simp add: region_def upt_rec)

text \<open>\<open>strcmp\<close> decides the lexicographic order of the strings' bytes read as unsigned: it is
  zero exactly on equal strings, negative exactly when the first string precedes the second, and
  swapping the arguments flips the sign.\<close>

theorem strcmp_order:
  assumes "nul_free a" and "nul_free b"
  shows "(strcmp a b = 0 \<longleftrightarrow> a = b)
    \<and> (strcmp a b < 0 \<longleftrightarrow> ord_class.lexordp (map of_char a) (map of_char b :: nat list))
    \<and> strcmp b a = - strcmp a b"
  using strcmp_spec [OF assms] .

theorem strcmp_order_witness: "strcmp ''fault none'' ''fault sensor'' < 0"
  using strcmp_order [of "''fault none''" "''fault sensor''"] by simp

end
