(* ===== verification/Sink.thy ===== *)
theory Sink
  imports LibcShim
begin

text \<open>
  The contract of a bounded character sink. Both formatters of the repository
  (\<open>firmware/src/console.c\<close> and \<open>src/src/printf.c\<close>) write through one routine that drops what does not fit
  (\<open>prvAppendChar\<close>, \<open>buf_putc\<close>); everything above that routine is a sequence of its calls. The locale
  \<open>bounded_sink\<close> states what the routine promises, and its lemmas are about such sequences.
  The theory also holds the text the number printers are meant to produce: \<open>udigits\<close> (most
  significant digit first, no leading zero) and \<open>pad_left\<close>, with the inverse of \<open>udigits\<close>.
\<close>

locale bounded_sink =
  fixes putc :: "'s \<Rightarrow> char \<Rightarrow> 's"
    and text_of :: "'s \<Rightarrow> string"
    and ok :: "'s \<Rightarrow> bool"
    and room :: nat
  assumes putc_ok: "ok s \<Longrightarrow> ok (putc s c)"
    and putc_text: "ok s \<Longrightarrow> text_of (putc s c) = take room (text_of s @ [c])"
    and text_bound: "ok s \<Longrightarrow> length (text_of s) \<le> room"
begin

lemma puts_ok: "ok s \<Longrightarrow> ok (foldl putc s cs)"
  by (induction cs arbitrary: s) (auto simp: putc_ok)

lemma puts_text: "ok s \<Longrightarrow> text_of (foldl putc s cs) = take room (text_of s @ cs)"
proof (induction cs arbitrary: s)
  case Nil
  then show ?case using text_bound [of s] by simp
next
  case (Cons c cs)
  have "text_of (foldl putc s (c # cs)) = take room (take room (text_of s @ [c]) @ cs)"
    using Cons.IH [OF putc_ok [OF Cons.prems]] putc_text [OF Cons.prems] by simp
  also have "\<dots> = take room (text_of s @ c # cs)"
    using text_bound [OF Cons.prems] by (auto simp: take_Cons')
  finally show ?case .
qed

text \<open>Text that fits is kept whole; text that does not is cut at the room, never beyond it.\<close>

lemma puts_fits:
  "ok s \<Longrightarrow> length (text_of s) + length cs \<le> room \<Longrightarrow> text_of (foldl putc s cs) = text_of s @ cs"
  by (simp add: puts_text)

lemma puts_bound: "ok s \<Longrightarrow> length (text_of (foldl putc s cs)) \<le> room"
  by (simp add: puts_text)

end

subsection \<open>Numbers as text\<close>

definition digit_char :: "nat \<Rightarrow> char" where
  "digit_char d = (if d < 10 then char_of (48 + d) else char_of (97 + (d - 10)))"

fun udigits :: "nat \<Rightarrow> nat \<Rightarrow> string" where
  "udigits base n =
     (if n < base \<or> base < 2 then [digit_char n]
      else udigits base (n div base) @ [digit_char (n mod base)])"

declare udigits.simps [simp del]

definition pad_left :: "nat \<Rightarrow> char \<Rightarrow> string \<Rightarrow> string" where
  "pad_left width c s = replicate (width - length s) c @ s"

lemma length_pad_left [simp]: "length (pad_left w c s) = max w (length s)"
  by (simp add: pad_left_def)

definition digit_value :: "char \<Rightarrow> nat" where
  "digit_value c = (let v = of_char c in if v < 58 then v - 48 else v - 87)"

definition value_of :: "nat \<Rightarrow> string \<Rightarrow> nat" where
  "value_of base s = foldl (\<lambda>v c. v * base + digit_value c) 0 s"

lemma digit_value_char: "d < 36 \<Longrightarrow> digit_value (digit_char d) = d"
  by (auto simp: digit_value_def digit_char_def Let_def)

lemma value_of_udigits: "2 \<le> base \<Longrightarrow> base \<le> 36 \<Longrightarrow> value_of base (udigits base n) = n"
proof (induction base n rule: udigits.induct)
  case (1 base n)
  show ?case
  proof (cases "n < base")
    case True
    then show ?thesis
      using "1.prems" by (simp add: udigits.simps [of base n] value_of_def digit_value_char)
  next
    case False
    then have "value_of base (udigits base (n div base)) = n div base"
      using "1.IH" "1.prems" by simp
    moreover have "n mod base < 36"
      using "1.prems" mod_less_divisor [of base n] by linarith
    ultimately show ?thesis
      using False "1.prems"
      by (simp add: udigits.simps [of base n] value_of_def digit_value_char)
  qed
qed

lemma udigits_nonempty: "udigits base n \<noteq> []"
  by (subst udigits.simps) simp

text \<open>No superfluous leading zero.\<close>

lemma hd_udigits:
  "2 \<le> base \<Longrightarrow> base \<le> 36 \<Longrightarrow> hd (udigits base n) = CHR ''0'' \<Longrightarrow> udigits base n = ''0''"
proof (induction base n rule: udigits.induct)
  case (1 base n)
  show ?case
  proof (cases "n < base \<or> base < 2")
    case True
    with 1(4) show ?thesis by (simp add: udigits.simps [of base n])
  next
    case False
    let ?d = "udigits base (n div base)"
    from False have e: "udigits base n = ?d @ [digit_char (n mod base)]" by (simp add: udigits.simps [of base n])
    with 1(4) have "hd ?d = CHR ''0''" by (simp add: udigits_nonempty)
    with 1(1-3) False have "?d = ''0''" by simp
    then have "value_of base ?d = 0" by (simp add: value_of_def digit_value_def)
    with value_of_udigits [OF 1(2,3), of "n div base"] False 1(2) show ?thesis by (auto simp: div_eq_0_iff)
  qed
qed

lemma length_udigits: "2 \<le> base \<Longrightarrow> n < base ^ Suc k \<Longrightarrow> length (udigits base n) \<le> Suc k"
proof (induction k arbitrary: n)
  case 0
  then show ?case by (simp add: udigits.simps [of base n])
next
  case (Suc k)
  then have "n div base < base ^ Suc k"
    by (metis less_mult_imp_div_less mult.commute power_Suc)
  then show ?case
    using Suc by (subst udigits.simps) auto
qed

lemma digit_char_not_NUL: "d < 36 \<Longrightarrow> digit_char d \<noteq> NUL"
  using digit_value_char [of d] of_char_eq_iff [of "digit_char d" NUL, where 'a = nat]
  by (auto simp: digit_char_def dest: arg_cong [where f = "of_char :: char \<Rightarrow> nat"])

lemma nul_free_udigits: "2 \<le> base \<Longrightarrow> base \<le> 36 \<Longrightarrow> nul_free (udigits base n)"
proof (induction base n rule: udigits.induct)
  case (1 base n)
  then have "n mod base < 36"
    using mod_less_divisor [of base n] by linarith
  with 1 show ?case
    by (subst udigits.simps) (auto simp: digit_char_not_NUL)
qed

lemma nul_free_udigits_10 [simp]: "nul_free (udigits 10 n)"
  by (rule nul_free_udigits) simp_all

lemma value_of_udigits_10: "value_of 10 (udigits 10 n) = n"
  by (rule value_of_udigits) simp_all

lemma udigits_inject: "udigits 10 m = udigits 10 n \<Longrightarrow> m = n"
  by (metis value_of_udigits_10)

end
