(* ===== verification/Console.thy ===== *)
theory Console
  imports Sink
begin

unbundle bit_operations_syntax

text \<open>
  The firmware's console, \<open>firmware/src/console.c\<close>: a formatter that writes into a 256-byte buffer
  on the stack, the routine that sends the buffer to the semihosting channel, and the line reader.
  The buffer's cells are kept with whatever they held before (\<open>garbage\<close>), because C does not
  initialise them. What the C standard leaves undefined is an error value: reading a format string
  past its NUL, a \<open>va_arg\<close> of a type other than the argument's, and the negation of the least
  \<open>long\<close>. On the target \<open>long\<close> and \<open>int\<close> have 32 bits.
\<close>

datatype c_ub = OverRead | BadVaArg | SignedOverflow | DivByZero

datatype va = VInt i32 | VUInt u32 | VLong i32 | VULong u32 | VStr "string option"

record cbuf =
  cells :: string
  used :: nat

subsection \<open>Appending to the buffer\<close>

definition prvAppendChar :: "nat \<Rightarrow> cbuf \<Rightarrow> char \<Rightarrow> cbuf" where
  "prvAppendChar buffer_size b c =
     (if used b + 1 < buffer_size then
        let b = b\<lparr>cells := (cells b)[used b := c]\<rparr>;
            b = b\<lparr>used := used b + 1\<rparr>
        in b\<lparr>cells := (cells b)[used b := NUL]\<rparr>
      else b)"

fun append_chars :: "nat \<Rightarrow> cbuf \<Rightarrow> string \<Rightarrow> cbuf" where
  "append_chars buffer_size b text =
     (if peek text \<noteq> NUL
      then append_chars buffer_size (prvAppendChar buffer_size b (peek text)) (tl text)
      else b)"

declare append_chars.simps [simp del]

definition prvAppendString :: "nat \<Rightarrow> cbuf \<Rightarrow> string option \<Rightarrow> cbuf" where
  "prvAppendString buffer_size b text =
     append_chars buffer_size b (case text of None \<Rightarrow> ''(null)'' | Some t \<Rightarrow> t)"

text \<open>
  The digit loop of \<open>prvAppendUnsigned\<close> (least significant digit first, at most 32 of them), its
  padding loop and its output loop.
\<close>

function digit_loop :: "u32 \<Rightarrow> u32 \<Rightarrow> string \<Rightarrow> string" where
  "digit_loop v base digits =
     (let digit = v mod base;
          digits = digits @ [if digit < 10 then char_of (48 + unat digit)
                             else char_of (97 + unat (digit - 10))];
          v = v div base
      in if v \<noteq> 0 \<and> length digits < 32 then digit_loop v base digits else digits)"
  by pat_completeness auto
termination
  by (relation "measure (\<lambda>(v, base, digits). 32 - length digits)") auto

declare digit_loop.simps [simp del]

function pad_loop :: "nat \<Rightarrow> cbuf \<Rightarrow> char \<Rightarrow> nat \<Rightarrow> nat \<Rightarrow> cbuf" where
  "pad_loop buffer_size b c count width =
     (if count < width
      then pad_loop buffer_size (prvAppendChar buffer_size b c) c count (width - 1)
      else b)"
  by pat_completeness auto
termination
  by (relation "measure (\<lambda>(sz, b, c, count, width). width)") auto

declare pad_loop.simps [simp del]

fun emit_loop :: "nat \<Rightarrow> cbuf \<Rightarrow> string \<Rightarrow> nat \<Rightarrow> cbuf" where
  "emit_loop buffer_size b digits 0 = b"
| "emit_loop buffer_size b digits (Suc count) =
     emit_loop buffer_size (prvAppendChar buffer_size b (digits ! count)) digits count"

definition prvAppendUnsigned :: "nat \<Rightarrow> cbuf \<Rightarrow> u32 \<Rightarrow> u32 \<Rightarrow> u32 \<Rightarrow> bool \<Rightarrow> cbuf" where
  "prvAppendUnsigned buffer_size b v base width zero_pad =
     (let digits = digit_loop v base [];
          count = length digits;
          b = pad_loop buffer_size b (if zero_pad then CHR ''0'' else CHR '' '') count (unat width)
      in emit_loop buffer_size b digits count)"

definition prvAppendSigned :: "nat \<Rightarrow> cbuf \<Rightarrow> i32 \<Rightarrow> u32 \<Rightarrow> bool \<Rightarrow> c_ub + cbuf" where
  "prvAppendSigned buffer_size b v width zero_pad =
     (if sint v < 0 then
        if sint v = - (2 ^ 31) then Inl SignedOverflow
        else Inr (prvAppendUnsigned buffer_size (prvAppendChar buffer_size b CHR ''-'')
                    (- v) 10 width zero_pad)
      else Inr (prvAppendUnsigned buffer_size b v 10 width zero_pad))"

subsection \<open>The format string\<close>

definition is_digit :: "char \<Rightarrow> bool" where
  "is_digit c \<longleftrightarrow> 48 \<le> (of_char c :: nat) \<and> of_char c \<le> (57 :: nat)"

lemma is_digit_not_NUL: "is_digit (peek s) \<Longrightarrow> peek s \<noteq> NUL"
  by (auto simp: is_digit_def)

lemma is_digit_advances [termination_simp]: "is_digit (peek s) \<Longrightarrow> length s - Suc 0 < length s"
  by (rule peek_advances) (rule is_digit_not_NUL)

fun parse_width :: "u32 \<Rightarrow> string \<Rightarrow> u32 \<times> string" where
  "parse_width width fmt =
     (if is_digit (peek fmt)
      then parse_width (width * 10 + of_nat (of_char (peek fmt) - 48)) (tl fmt)
      else (width, fmt))"

declare parse_width.simps [simp del]

text \<open>
  The flag, width and length modifier after a \<open>%\<close>, in the code's order; the rest of the format starts
  at the conversion character.
\<close>

definition parse_directive :: "string \<Rightarrow> bool \<times> u32 \<times> bool \<times> string" where
  "parse_directive fmt =
     (let (zero_pad, fmt) = (if peek fmt = CHR ''0'' then (True, tl fmt) else (False, fmt));
          (width, fmt) = parse_width 0 fmt;
          (long_value, fmt) = (if peek fmt = CHR ''l'' then (True, tl fmt) else (False, fmt))
      in (zero_pad, width, long_value, fmt))"

text \<open>One conversion: the \<open>switch\<close> on the conversion character, with the arguments it consumes.\<close>

definition writef_conv :: "nat \<Rightarrow> bool \<Rightarrow> u32 \<Rightarrow> bool \<Rightarrow> char \<Rightarrow> va list \<Rightarrow> cbuf \<Rightarrow>
    c_ub + (va list \<times> cbuf)" where
  "writef_conv sz zero_pad width long_value c args b =
     (if c = CHR ''%'' then Inr (args, prvAppendChar sz b CHR ''%'')
      else if c = CHR ''s'' then
        (case args of VStr t # args' \<Rightarrow> Inr (args', prvAppendString sz b t) | _ \<Rightarrow> Inl BadVaArg)
      else if c = CHR ''c'' then
        (case args of VInt v # args' \<Rightarrow> Inr (args', prvAppendChar sz b (char_of (uint v)))
                    | _ \<Rightarrow> Inl BadVaArg)
      else if c = CHR ''u'' \<or> c = CHR ''x'' then
        (let base = (if c = CHR ''u'' then 10 else 16) in
         case (long_value, args) of
           (True, VULong v # args') \<Rightarrow> Inr (args', prvAppendUnsigned sz b v base width zero_pad)
         | (False, VUInt v # args') \<Rightarrow> Inr (args', prvAppendUnsigned sz b v base width zero_pad)
         | _ \<Rightarrow> Inl BadVaArg)
      else if c = CHR ''d'' then
        (case (long_value, args) of
           (True, VLong v # args') \<Rightarrow> map_sum id (Pair args') (prvAppendSigned sz b v width zero_pad)
         | (False, VInt v # args') \<Rightarrow> map_sum id (Pair args') (prvAppendSigned sz b v width zero_pad)
         | _ \<Rightarrow> Inl BadVaArg)
      else Inr (args, prvAppendChar sz (prvAppendChar sz b CHR ''%'') c))"

lemma parse_width_length: "length (snd (parse_width w fmt)) \<le> length fmt"
proof (induction w fmt rule: parse_width.induct)
  case (1 w fmt)
  then show ?case
    by (cases "is_digit (peek fmt)") (auto simp: parse_width.simps [of w fmt])
qed

lemma parse_directive_length:
  "parse_directive fmt = (z, w, l, fmt') \<Longrightarrow> length fmt' \<le> length fmt"
  using parse_width_length [of 0 fmt] parse_width_length [of 0 "tl fmt"]
  by (auto simp: parse_directive_def Let_def split: prod.splits if_splits)

lemma directive_advances:
  assumes "peek fmt \<noteq> NUL" and "(z, w, l, fmt') = parse_directive (tl fmt)"
  shows "length fmt' - Suc 0 < length fmt"
  using parse_directive_length [of "tl fmt" z w l fmt'] assms peek_advances [of fmt] by simp

text \<open>
  The loop over the format. After a directive the code's \<open>fmt++\<close> steps over the conversion
  character; when that character was the terminating NUL, the next read is past the string.
\<close>

function writef_loop :: "nat \<Rightarrow> string \<Rightarrow> va list \<Rightarrow> cbuf \<Rightarrow> c_ub + cbuf" where
  "writef_loop sz fmt args b =
     (if peek fmt = NUL then Inr b
      else if peek fmt \<noteq> CHR ''%'' then writef_loop sz (tl fmt) args (prvAppendChar sz b (peek fmt))
      else
        let (zero_pad, width, long_value, fmt') = parse_directive (tl fmt) in
        case writef_conv sz zero_pad width long_value (peek fmt') args b of
          Inl e \<Rightarrow> Inl e
        | Inr (args', b') \<Rightarrow>
            if fmt' = [] then Inl OverRead else writef_loop sz (tl fmt') args' b')"
  by pat_completeness auto
termination
proof (relation "measure (\<lambda>(sz, fmt, args, b). length fmt)", goal_cases)
  case 1
  then show ?case by simp
next
  case 2
  then show ?case by (simp add: peek_advances)
next
  case 3
  then show ?case by (auto intro: directive_advances)
qed

declare writef_loop.simps [simp del]

text \<open>The C string in the buffer: up to its first NUL, which has to be within the array.\<close>

definition c_string :: "string \<Rightarrow> c_ub + string" where
  "c_string xs = (if NUL \<in> set xs then Inr (takeWhile (\<lambda>c. c \<noteq> NUL) xs) else Inl OverRead)"

subsection \<open>Output\<close>

datatype console_op =
    TakeMutex | GiveMutex | Write0 string | WriteFd int string nat | CloseFd int

definition prvWriteBuffer :: "bool \<Rightarrow> int \<Rightarrow> string \<Rightarrow> c_ub + console_op list" where
  "prvWriteBuffer mutex_created xLogFd buffer =
     map_sum id
       (\<lambda>text. if mutex_created then
           [TakeMutex, Write0 text]
             @ (if xLogFd \<ge> 0 then [WriteFd xLogFd text (length text)] else [])
             @ [GiveMutex]
         else [Write0 text])
       (c_string buffer)"

definition console_writeln :: "bool \<Rightarrow> int \<Rightarrow> string \<Rightarrow> string option \<Rightarrow> c_ub + console_op list" where
  "console_writeln mutex_created xLogFd garbage text =
     (let b = \<lparr>cells = garbage, used = 0\<rparr>;
          b = prvAppendString 256 b text;
          b = prvAppendChar 256 b CHR 0x0A
      in prvWriteBuffer mutex_created xLogFd (cells b))"

definition console_writef :: "bool \<Rightarrow> int \<Rightarrow> string \<Rightarrow> string \<Rightarrow> va list \<Rightarrow>
    c_ub + console_op list" where
  "console_writef mutex_created xLogFd garbage fmt args =
     (case writef_loop 256 fmt args \<lparr>cells = garbage, used = 0\<rparr> of
        Inl e \<Rightarrow> Inl e
      | Inr b \<Rightarrow> prvWriteBuffer mutex_created xLogFd (cells b))"

subsection \<open>The buffer is a bounded sink\<close>

definition cb_ok :: "nat \<Rightarrow> cbuf \<Rightarrow> bool" where
  "cb_ok sz b \<longleftrightarrow> length (cells b) = sz \<and> used b < sz \<and> (0 < used b \<longrightarrow> cells b ! used b = NUL)"

definition cb_text :: "cbuf \<Rightarrow> string" where
  "cb_text b = take (used b) (cells b)"

lemma prvAppendChar_room:
  assumes "cb_ok sz b" and "used b + 1 < sz"
  shows "cb_ok sz (prvAppendChar sz b c)" and "cb_text (prvAppendChar sz b c) = cb_text b @ [c]"
  using assms by (simp_all add: cb_ok_def cb_text_def prvAppendChar_def Let_def take_Suc_conv_app_nth)

lemma prvAppendChar_full: "\<not> used b + 1 < sz \<Longrightarrow> prvAppendChar sz b c = b"
  by (simp add: prvAppendChar_def)

interpretation cb: bounded_sink "prvAppendChar sz" cb_text "cb_ok sz" "sz - 1" for sz :: nat
proof unfold_locales
  fix b c
  assume ok: "cb_ok sz b"
  show "cb_ok sz (prvAppendChar sz b c)"
    by (cases "used b + 1 < sz") (simp_all add: ok prvAppendChar_room prvAppendChar_full)
  show "cb_text (prvAppendChar sz b c) = take (sz - 1) (cb_text b @ [c])"
  proof (cases "used b + 1 < sz")
    case True
    moreover have "length (cb_text b) = used b"
      using ok by (simp add: cb_ok_def cb_text_def)
    ultimately show ?thesis
      using prvAppendChar_room(2) [OF ok] by simp
  next
    case False
    then have "sz - 1 = used b" using ok unfolding cb_ok_def by linarith
    with False ok show ?thesis
      by (simp add: prvAppendChar_full) (simp add: cb_ok_def cb_text_def)
  qed
  have "length (cb_text b) = used b" and "used b < sz"
    using ok by (simp_all add: cb_ok_def cb_text_def)
  then show "length (cb_text b) \<le> sz - 1" by linarith
qed

subsection \<open>The printers as texts\<close>

lemma append_chars_foldl:
  "append_chars sz b s = foldl (prvAppendChar sz) b (takeWhile (\<lambda>c. c \<noteq> NUL) s)"
proof (induction s arbitrary: b)
  case Nil
  then show ?case by (simp add: append_chars.simps)
next
  case (Cons c s)
  then show ?case by (simp add: append_chars.simps [of sz b "c # s"])
qed

lemma pad_loop_foldl:
  "pad_loop sz b c count width = foldl (prvAppendChar sz) b (replicate (width - count) c)"
proof (induction sz b c count width rule: pad_loop.induct)
  case (1 sz b c count width)
  show ?case
  proof (cases "count < width")
    case True
    then have "replicate (width - count) c = c # replicate (width - 1 - count) c"
      by (cases "width - count") auto
    with True "1.IH" show ?thesis
      by (simp add: pad_loop.simps [of sz b c count width])
  next
    case False
    then show ?thesis by (simp add: pad_loop.simps [of sz b c count width])
  qed
qed

lemma emit_loop_foldl:
  "n \<le> length ds \<Longrightarrow> emit_loop sz b ds n = foldl (prvAppendChar sz) b (rev (take n ds))"
  by (induction n arbitrary: b) (simp_all add: take_Suc_conv_app_nth)

text \<open>The digit loop never meets its limit of 32 digits when the base is at least 2.\<close>

lemma digit_cell:
  "(if d < 10 then char_of (48 + unat d) else char_of (97 + unat (d - 10))) = digit_char (unat d)"
  for d :: u32
proof (cases "d < 10")
  case True
  then show ?thesis by (simp add: digit_char_def word_less_nat_alt)
next
  case False
  then have "unat (d - 10) = unat d - 10"
    by (simp add: word_le_nat_alt unat_sub linorder_not_less)
  with False show ?thesis by (simp add: digit_char_def word_less_nat_alt)
qed

lemma digit_loop_udigits:
  assumes "2 \<le> unat base"
    and "length ds + length (udigits (unat base) (unat v)) \<le> 32"
  shows "rev (digit_loop v base ds) = udigits (unat base) (unat v) @ rev ds"
  using assms
proof (induction v base ds rule: digit_loop.induct)
  case (1 v base ds)
  let ?ds = "ds @ [digit_char (unat (v mod base))]"
  have unfold: "digit_loop v base ds =
      (if v div base \<noteq> 0 \<and> length ?ds < 32 then digit_loop (v div base) base ?ds else ?ds)"
    by (subst digit_loop.simps) (simp add: Let_def digit_cell del: digit_cell [symmetric])
  have zero: "v div base = 0 \<longleftrightarrow> unat v < unat base"
    using "1.prems"(1) by (simp add: unat_eq_zero [symmetric] unat_div div_eq_0_iff del: unat_eq_zero)
  show ?case
  proof (cases "unat v < unat base")
    case True
    then show ?thesis
      using "1.prems" unfold zero by (simp add: udigits.simps [of "unat base"] unat_mod)
  next
    case False
    then have u: "udigits (unat base) (unat v)
        = udigits (unat base) (unat (v div base)) @ [digit_char (unat (v mod base))]"
      using "1.prems"(1) by (simp add: udigits.simps [of "unat base" "unat v"] unat_div unat_mod)
    have "0 < length (udigits (unat base) (unat (v div base)))"
      by (simp add: udigits_nonempty)
    moreover have "length ds + (length (udigits (unat base) (unat (v div base))) + 1) \<le> 32"
      using "1.prems"(2) by (simp add: u)
    moreover have "length ?ds = length ds + 1" by simp
    ultimately have short: "length ?ds < 32" by linarith
    have "rev (digit_loop (v div base) base ?ds)
        = udigits (unat base) (unat (v div base)) @ rev ?ds"
      using "1.IH" [OF refl refl refl] False zero short "1.prems" u
      by (simp add: digit_cell)
    then show ?thesis using unfold zero False short u by simp
  qed
qed

definition unsigned_text :: "nat \<Rightarrow> bool \<Rightarrow> nat \<Rightarrow> nat \<Rightarrow> string" where
  "unsigned_text width zero_pad base n =
     pad_left width (if zero_pad then CHR ''0'' else CHR '' '') (udigits base n)"

definition signed_text :: "nat \<Rightarrow> bool \<Rightarrow> int \<Rightarrow> string" where
  "signed_text width zero_pad k =
     (if k < 0 then CHR ''-'' # unsigned_text width zero_pad 10 (nat (- k))
      else unsigned_text width zero_pad 10 (nat k))"

lemma length_udigits_u32: "2 \<le> base \<Longrightarrow> length (udigits base (unat (v :: u32))) \<le> 32"
proof -
  assume b: "2 \<le> base"
  have "unat v < 2 ^ 32" using unsigned_less [of v, where 'a = nat] by simp
  also have "\<dots> \<le> base ^ Suc 31" using power_mono [OF b, of 32] by simp
  finally show ?thesis using length_udigits [OF b, of "unat v" 31] by simp
qed

lemma prvAppendUnsigned_text:
  assumes "2 \<le> unat base"
  shows "prvAppendUnsigned sz b v base width zero_pad =
    foldl (prvAppendChar sz) b (unsigned_text (unat width) zero_pad (unat base) (unat v))"
proof -
  let ?ds = "digit_loop v base []"
  have rev: "rev ?ds = udigits (unat base) (unat v)"
    using digit_loop_udigits [OF assms, of "[]" v] length_udigits_u32 [OF assms] by simp
  then have len: "length ?ds = length (udigits (unat base) (unat v))"
    by (metis length_rev)
  show ?thesis
    by (simp add: prvAppendUnsigned_def Let_def pad_loop_foldl emit_loop_foldl rev len
        unsigned_text_def pad_left_def)
qed

lemma prvAppendSigned_text:
  "prvAppendSigned sz b v width zero_pad =
    (if sint v = - (2 ^ 31) then Inl SignedOverflow
     else Inr (foldl (prvAppendChar sz) b (signed_text (unat width) zero_pad (sint v))))"
proof (cases "sint v < 0 \<and> sint v \<noteq> - (2 ^ 31)")
  case True
  then have "unat (- v) = nat (- sint v)" by (simp add: unat_of_neg)
  with True show ?thesis by (simp add: prvAppendSigned_def prvAppendUnsigned_text signed_text_def)
next
  case False
  show ?thesis
  proof (cases "sint v < 0")
    case True
    with False show ?thesis by (simp add: prvAppendSigned_def)
  next
    case nonneg: False
    then have "sint v \<noteq> - (2 ^ 31)" by simp
    with nonneg show ?thesis
      by (simp add: prvAppendSigned_def prvAppendUnsigned_text signed_text_def unat_of_nonneg)
  qed
qed

subsection \<open>What a format means, without the buffer\<close>

text \<open>
  \<open>render\<close> is the text a format and its arguments denote, over unbounded strings and with the
  reference number texts. \<open>up_to_nul\<close> is the part of a character array that a C string shows.
\<close>

abbreviation up_to_nul :: "string \<Rightarrow> string" where
  "up_to_nul s \<equiv> takeWhile (\<lambda>c. c \<noteq> NUL) s"

definition conv_text :: "bool \<Rightarrow> u32 \<Rightarrow> bool \<Rightarrow> char \<Rightarrow> va list \<Rightarrow> c_ub + (va list \<times> string)" where
  "conv_text zp w l c args =
     (if c = CHR ''%'' then Inr (args, ''%'')
      else if c = CHR ''s'' then
        (case args of VStr None # r \<Rightarrow> Inr (r, ''(null)'')
                    | VStr (Some t) # r \<Rightarrow> Inr (r, up_to_nul t) | _ \<Rightarrow> Inl BadVaArg)
      else if c = CHR ''c'' then
        (case args of VInt v # r \<Rightarrow> Inr (r, [char_of (uint v)]) | _ \<Rightarrow> Inl BadVaArg)
      else if c = CHR ''u'' \<or> c = CHR ''x'' then
        (let base = (if c = CHR ''u'' then 10 else 16) in
         case (l, args) of
           (True, VULong v # r) \<Rightarrow> Inr (r, unsigned_text (unat w) zp base (unat v))
         | (False, VUInt v # r) \<Rightarrow> Inr (r, unsigned_text (unat w) zp base (unat v))
         | _ \<Rightarrow> Inl BadVaArg)
      else if c = CHR ''d'' then
        (case (l, args) of
           (True, VLong v # r) \<Rightarrow> (if sint v = - (2 ^ 31) then Inl SignedOverflow
                                  else Inr (r, signed_text (unat w) zp (sint v)))
         | (False, VInt v # r) \<Rightarrow> (if sint v = - (2 ^ 31) then Inl SignedOverflow
                                  else Inr (r, signed_text (unat w) zp (sint v)))
         | _ \<Rightarrow> Inl BadVaArg)
      else Inr (args, [CHR ''%'', c]))"

function render :: "string \<Rightarrow> va list \<Rightarrow> c_ub + string" where
  "render fmt args =
     (if peek fmt = NUL then Inr []
      else if peek fmt \<noteq> CHR ''%'' then map_sum id (Cons (peek fmt)) (render (tl fmt) args)
      else
        let (zp, w, l, fmt') = parse_directive (tl fmt) in
        case conv_text zp w l (peek fmt') args of
          Inl e \<Rightarrow> Inl e
        | Inr (args', t) \<Rightarrow>
            if fmt' = [] then Inl OverRead else map_sum id ((@) t) (render (tl fmt') args'))"
  by pat_completeness auto
termination
proof (relation "measure (\<lambda>(fmt, args). length fmt)", goal_cases)
  case 1
  then show ?case by simp
next
  case 2
  then show ?case by (simp add: peek_advances)
next
  case 3
  then show ?case by (auto intro: directive_advances)
qed

declare render.simps [simp del]

text \<open>The conversion of the code is the conversion of the reference, sent to the buffer.\<close>

lemma writef_conv_text:
  "writef_conv sz zp w l c args b =
     map_sum id (\<lambda>(r, t). (r, foldl (prvAppendChar sz) b t)) (conv_text zp w l c args)"
  by (auto simp: writef_conv_def conv_text_def prvAppendUnsigned_text prvAppendSigned_text
      prvAppendString_def append_chars_foldl Let_def split: list.splits va.splits option.splits bool.splits)

lemma writef_loop_render:
  "writef_loop sz fmt args b = map_sum id (foldl (prvAppendChar sz) b) (render fmt args)"
proof (induction sz fmt args b rule: writef_loop.induct)
  case (1 sz fmt args b)
  consider (stop) "peek fmt = NUL" | (plain) "peek fmt \<noteq> NUL" "peek fmt \<noteq> CHR ''%''"
    | (conv) "peek fmt = CHR ''%''" by auto
  then show ?case
  proof cases
    case stop
    then show ?thesis by (simp add: writef_loop.simps [of sz fmt] render.simps [of fmt])
  next
    case plain
    then show ?thesis
      using "1.IH"(1) by (cases "render (tl fmt) args")
        (simp_all add: writef_loop.simps [of sz fmt] render.simps [of fmt])
  next
    case conv
    obtain zp w l fmt' where d: "parse_directive (tl fmt) = (zp, w, l, fmt')"
      by (metis prod_cases4)
    show ?thesis
    proof (cases "conv_text zp w l (peek fmt') args")
      case (Inl e)
      with conv d show ?thesis
        by (simp add: writef_loop.simps [of sz fmt] render.simps [of fmt] writef_conv_text)
    next
      case (Inr p)
      obtain args' t where p: "p = (args', t)" by (cases p)
      show ?thesis
      proof (cases "fmt' = []")
        case True
        with conv d Inr p show ?thesis
          by (simp add: writef_loop.simps [of sz fmt] render.simps [of fmt] writef_conv_text)
      next
        case False
        have "writef_loop sz (tl fmt') args' (foldl (prvAppendChar sz) b t) =
            map_sum id (foldl (prvAppendChar sz) (foldl (prvAppendChar sz) b t)) (render (tl fmt') args')"
          using "1.IH"(2) [OF _ _ d [symmetric] refl refl refl] conv False Inr p
          by (simp add: writef_conv_text id_def)
        with conv d Inr p False show ?thesis
          by (cases "render (tl fmt') args'")
            (simp_all add: writef_loop.simps [of sz fmt] render.simps [of fmt] writef_conv_text)
      qed
    qed
  qed
qed

text \<open>What \<open>prvWriteBuffer\<close> sends for a buffer that holds a non-empty text.\<close>

lemma c_string_text:
  assumes "cb_ok sz b" and "cb_text b \<noteq> []" and "nul_free (cb_text b)"
  shows "c_string (cells b) = Inr (cb_text b)"
proof -
  have u: "0 < used b" "used b < length (cells b)" "cells b ! used b = NUL"
    using assms(1,2) by (auto simp: cb_ok_def cb_text_def)
  have "cells b = cb_text b @ NUL # drop (Suc (used b)) (cells b)"
    using id_take_nth_drop [OF u(2)] u(3) by (simp add: cb_text_def)
  moreover have "takeWhile (\<lambda>c. c \<noteq> NUL) (cb_text b @ NUL # r) = cb_text b" for r
    using assms(3) by (simp add: nul_free_def takeWhile_append)
  ultimately show ?thesis
    by (metis (no_types, lifting) c_string_def in_set_conv_decomp)
qed

definition console_ops :: "bool \<Rightarrow> int \<Rightarrow> string \<Rightarrow> console_op list" where
  "console_ops mutex_created xLogFd text =
     (if mutex_created then
        [TakeMutex, Write0 text]
          @ (if xLogFd \<ge> 0 then [WriteFd xLogFd text (length text)] else []) @ [GiveMutex]
      else [Write0 text])"

lemma up_to_nul_id: "nul_free t \<Longrightarrow> up_to_nul t = t"
  by (auto simp: nul_free_def takeWhile_eq_all_conv)

lemma cb_empty_ok: "length g = sz \<Longrightarrow> 0 < sz \<Longrightarrow> cb_ok sz \<lparr>cells = g, used = 0\<rparr>"
  by (simp add: cb_ok_def)

lemma cb_empty_text [simp]: "cb_text \<lparr>cells = g, used = 0\<rparr> = []"
  by (simp add: cb_text_def)

lemma nul_free_take: "nul_free s \<Longrightarrow> nul_free (take n s)"
  by (auto simp: nul_free_def dest: in_set_takeD)

lemma prvWriteBuffer_text:
  assumes "length g = 256" and "t \<noteq> []" and "nul_free t"
  shows "prvWriteBuffer m fd (cells (foldl (prvAppendChar 256) \<lparr>cells = g, used = 0\<rparr> t))
    = Inr (console_ops m fd (take 255 t))"
proof -
  let ?b = "foldl (prvAppendChar 256) \<lparr>cells = g, used = 0\<rparr> t"
  have ok: "cb_ok 256 ?b"
    by (rule cb.puts_ok) (simp add: cb_empty_ok assms(1))
  have shown: "cb_text ?b = take 255 t"
    using cb.puts_text [OF cb_empty_ok [OF assms(1)], of t] by simp
  have "c_string (cells ?b) = Inr (cb_text ?b)"
    by (rule c_string_text [OF ok]) (simp_all add: shown assms(2,3) nul_free_take)
  then show ?thesis by (simp add: prvWriteBuffer_def console_ops_def shown)
qed

lemma console_writef_eq:
  assumes "length g = 256" and "render fmt args = Inr t" and "t \<noteq> []" and "nul_free t"
  shows "console_writef m fd g fmt args = Inr (console_ops m fd (take 255 t))"
  using assms prvWriteBuffer_text [OF assms(1,3,4)]
  by (simp add: console_writef_def writef_loop_render)

lemma console_writeln_eq:
  assumes "length g = 256" and "nul_free t"
  shows "console_writeln m fd g (Some t) = Inr (console_ops m fd (take 255 (t @ [CHR 0x0A])))"
proof -
  have "prvAppendChar 256 (prvAppendString 256 \<lparr>cells = g, used = 0\<rparr> (Some t)) CHR 0x0A
      = foldl (prvAppendChar 256) \<lparr>cells = g, used = 0\<rparr> (t @ [CHR 0x0A])"
    using assms(2) by (simp add: prvAppendString_def append_chars_foldl up_to_nul_id)
  then show ?thesis
    using prvWriteBuffer_text [OF assms(1), of "t @ [CHR 0x0A]"] assms(2)
    by (simp add: console_writeln_def Let_def)
qed

text \<open>
  Rules that evaluate \<open>render\<close> on a literal format, character by character, with symbolic
  arguments: the formats of the firmware use exactly these directives.
\<close>

lemma render_Nil: "render [] args = Inr []"
  by (simp add: render.simps)

lemma render_char:
  "c \<noteq> NUL \<Longrightarrow> c \<noteq> CHR ''%'' \<Longrightarrow> render (c # fmt) args = map_sum id (Cons c) (render fmt args)"
  by (simp add: render.simps [of "c # fmt"])

lemma parse_plain: "\<not> is_digit c \<Longrightarrow> c \<noteq> CHR ''l'' \<Longrightarrow>
    parse_directive (c # fmt) = (False, 0, False, c # fmt)"
proof -
  assume c: "\<not> is_digit c" "c \<noteq> CHR ''l''"
  moreover have "is_digit CHR ''0''" by (simp add: is_digit_def)
  ultimately have "c \<noteq> CHR ''0''" by auto
  with c show ?thesis
    by (simp add: parse_directive_def parse_width.simps [of 0 "c # fmt"])
qed

lemma parse_long: "parse_directive (CHR ''l'' # fmt) = (False, 0, True, fmt)"
  by (simp add: parse_directive_def parse_width.simps [of 0 "CHR ''l'' # fmt"] is_digit_def)

lemma parse_02: "parse_directive (CHR ''0'' # CHR ''2'' # CHR ''d'' # fmt) = (True, 2, False, CHR ''d'' # fmt)"
  by (simp add: parse_directive_def parse_width.simps is_digit_def)

lemma unsigned_text_0 [simp]: "unsigned_text 0 z base n = udigits base n"
  by (simp add: unsigned_text_def pad_left_def)

lemma render_pct: "render (CHR ''%'' # CHR ''%'' # fmt) args = map_sum id (Cons CHR ''%'') (render fmt args)"
  by (cases "render fmt args")
    (simp_all add: render.simps [of "CHR ''%'' # CHR ''%'' # fmt"] parse_plain is_digit_def conv_text_def)

lemma render_lu: "render (CHR ''%'' # CHR ''l'' # CHR ''u'' # fmt) (VULong v # args) =
    map_sum id ((@) (udigits 10 (unat v))) (render fmt args)"
  by (simp add: render.simps [of "CHR ''%'' # CHR ''l'' # CHR ''u'' # fmt"] parse_long conv_text_def)

lemma render_lx: "render (CHR ''%'' # CHR ''l'' # CHR ''x'' # fmt) (VULong v # args) =
    map_sum id ((@) (udigits 16 (unat v))) (render fmt args)"
  by (simp add: render.simps [of "CHR ''%'' # CHR ''l'' # CHR ''x'' # fmt"] parse_long conv_text_def)

lemma render_u: "render (CHR ''%'' # CHR ''u'' # fmt) (VUInt v # args) =
    map_sum id ((@) (udigits 10 (unat v))) (render fmt args)"
  by (simp add: render.simps [of "CHR ''%'' # CHR ''u'' # fmt"] parse_plain is_digit_def conv_text_def)

lemma render_d: "sint v \<noteq> - (2 ^ 31) \<Longrightarrow> render (CHR ''%'' # CHR ''d'' # fmt) (VInt v # args) =
    map_sum id ((@) (signed_text 0 False (sint v))) (render fmt args)"
  by (simp add: render.simps [of "CHR ''%'' # CHR ''d'' # fmt"] parse_plain is_digit_def conv_text_def)

lemma render_02d: "sint v \<noteq> - (2 ^ 31) \<Longrightarrow>
    render (CHR ''%'' # CHR ''0'' # CHR ''2'' # CHR ''d'' # fmt) (VInt v # args) =
    map_sum id ((@) (signed_text 2 True (sint v))) (render fmt args)"
  by (simp add: render.simps [of "CHR ''%'' # CHR ''0'' # CHR ''2'' # CHR ''d'' # fmt"] parse_02 conv_text_def)

lemma render_s: "nul_free t \<Longrightarrow> render (CHR ''%'' # CHR ''s'' # fmt) (VStr (Some t) # args) =
    map_sum id ((@) t) (render fmt args)"
  by (simp add: render.simps [of "CHR ''%'' # CHR ''s'' # fmt"] parse_plain is_digit_def conv_text_def up_to_nul_id)

lemmas render_simps = render_Nil render_char render_pct render_lu render_lx render_u render_d
  render_02d render_s

lemma length_udigits_32: "length (udigits 10 (unat (v :: u32))) \<le> 10"
proof -
  have "unat v < 10 ^ Suc 9" using unsigned_less [of v, where 'a = nat] by simp
  then show ?thesis using length_udigits [of 10 "unat v" 9] by simp
qed

lemma nul_free_unsigned_text: "nul_free (unsigned_text w z 10 n)"
  using nul_free_udigits [of 10 n] by (simp add: unsigned_text_def pad_left_def) (simp add: nul_free_def)

lemma nul_free_signed_text: "nul_free (signed_text w z k)"
  by (simp add: signed_text_def nul_free_unsigned_text)

subsection \<open>The line reader\<close>

text \<open>
  \<open>semihost_read\<close> blocks for one character; its result is how many bytes it did not read. The
  reads that happen are an argument; when they run out the caller is still waiting (\<open>None\<close>). The
  buffer is the caller's, with whatever it holds.
\<close>

fun readline_loop :: "bool \<Rightarrow> nat \<Rightarrow> cbuf \<Rightarrow> console_op list \<Rightarrow> (int \<times> char) list \<Rightarrow>
    (bool \<times> cbuf \<times> console_op list) option" where
  "readline_loop mutex_created sz b ops [] = None"
| "readline_loop mutex_created sz b ops ((remaining, c) # reads) =
     (let give = (if mutex_created then [GiveMutex] else []) in
      if remaining \<noteq> 0 then Some (False, b, ops @ give)
      else if c = CHR 0x0D \<or> c = CHR 0x0A then Some (True, b, ops @ [Write0 [CHR 0x0A]] @ give)
      else
        let b' = (if used b + 1 < sz
                  then \<lparr>cells = (cells b)[used b := c, used b + 1 := NUL], used = used b + 1\<rparr>
                  else b)
        in readline_loop mutex_created sz b' (ops @ [Write0 (up_to_nul [c])]) reads)"

definition console_readline :: "bool \<Rightarrow> int \<Rightarrow> string option \<Rightarrow> nat \<Rightarrow> (int \<times> char) list \<Rightarrow>
    (bool \<times> string option \<times> console_op list) option" where
  "console_readline mutex_created xConsoleInputHandle buffer buffer_size reads =
     (case buffer of
        None \<Rightarrow> Some (False, None, [])
      | Some g \<Rightarrow>
          if buffer_size = 0 then Some (False, buffer, [])
          else
            let ops = (if mutex_created then [TakeMutex] else []) @ [Write0 ''ecu> ''] in
            if xConsoleInputHandle < 0
            then Some (False, buffer, ops @ (if mutex_created then [GiveMutex] else []))
            else map_option (\<lambda>(r, b, ops). (r, Some (cells b), ops))
                   (readline_loop mutex_created buffer_size \<lparr>cells = g, used = 0\<rparr> ops reads))"

definition eol :: "char \<Rightarrow> bool" where
  "eol c \<longleftrightarrow> c = CHR 0x0D \<or> c = CHR 0x0A"

lemma readline_loop_char:
  "\<not> eol c \<Longrightarrow> readline_loop m sz b ops ((0, c) # reads) =
     readline_loop m sz (prvAppendChar sz b c) (ops @ [Write0 (up_to_nul [c])]) reads"
  by (cases b, cases "used b + 1 < sz") (simp_all add: prvAppendChar_def Let_def eol_def)

lemma readline_loop_line:
  assumes "\<forall>c \<in> set line. \<not> eol c" and "eol e"
  shows "readline_loop m sz b ops (map (Pair 0) line @ (0, e) # rest) =
    Some (True, foldl (prvAppendChar sz) b line,
      ops @ map (\<lambda>c. Write0 (up_to_nul [c])) line @ [Write0 [CHR 0x0A]]
        @ (if m then [GiveMutex] else []))"
  using assms(1)
proof (induction line arbitrary: b ops)
  case Nil
  then show ?case using assms(2) by (simp add: eol_def)
next
  case (Cons c line)
  then show ?case by (simp add: readline_loop_char del: readline_loop.simps)
qed

lemma readline_loop_mutex:
  "readline_loop True sz b ops reads = Some (r, b', ops') \<Longrightarrow> last ops' = GiveMutex \<and> ops' \<noteq> []"
  by (induction True sz b ops reads rule: readline_loop.induct)
    (auto simp: Let_def split: if_splits)

subsection \<open>Properties\<close>



text \<open>C20: What \<open>prvAppendUnsigned\<close> writes into an empty buffer, for every 32-bit value, base from 2 to 36,
  width and padding: the padding, exactly as much as brings the text to the width, and then digits that
  read back in that base as the value, without a superfluous leading zero; all of it cut at 255
  characters.\<close>

theorem number_text_roundtrip:
  assumes "length g = 256" and "2 \<le> unat base" and "unat base \<le> 36"
  shows "\<exists>digits. value_of (unat base) digits = unat v \<and> digits \<noteq> [] \<and> (hd digits = CHR ''0'' \<longrightarrow> digits = ''0'')
    \<and> cb_text (prvAppendUnsigned 256 \<lparr>cells = g, used = 0\<rparr> v base width zero_pad) =
        take 255 (replicate (unat width - length digits) (if zero_pad then CHR ''0'' else CHR '' '') @ digits)"
proof -
  let ?d = "udigits (unat base) (unat v)"
  have "cb_text (prvAppendUnsigned 256 \<lparr>cells = g, used = 0\<rparr> v base width zero_pad) =
      take 255 (replicate (unat width - length ?d) (if zero_pad then CHR ''0'' else CHR '' '') @ ?d)"
    using cb.puts_text [OF cb_empty_ok [OF assms(1)], of "unsigned_text (unat width) zero_pad (unat base) (unat v)"]
    by (simp add: prvAppendUnsigned_text [OF assms(2)] unsigned_text_def pad_left_def)
  moreover have "hd ?d = CHR ''0'' \<longrightarrow> ?d = ''0''" using hd_udigits [OF assms(2,3)] by blast
  ultimately show ?thesis using value_of_udigits [OF assms(2,3), of "unat v"] udigits_nonempty by blast
qed

theorem number_text_roundtrip_witness:
  "\<exists>digits. value_of 16 digits = 255 \<and> cb_text (prvAppendUnsigned 256 \<lparr>cells = replicate 256 CHR ''x'', used = 0\<rparr> 255 16 4 False)
    = replicate (4 - length digits) CHR '' '' @ digits \<and> length digits \<le> 4"
proof -
  obtain digits where d: "value_of 16 digits = 255" "digits \<noteq> []" "hd digits = CHR ''0'' \<longrightarrow> digits = ''0''"
    "cb_text (prvAppendUnsigned 256 \<lparr>cells = replicate 256 CHR ''x'', used = 0\<rparr> 255 16 4 False)
      = take 255 (replicate (4 - length digits) CHR '' '' @ digits)"
    using number_text_roundtrip [of "replicate 256 CHR ''x''" 16 255 4 False] by auto
  have "cb_text (prvAppendUnsigned 256 \<lparr>cells = replicate 256 CHR ''x'', used = 0\<rparr> 255 16 4 False) = ''  ff''"
    by code_simp
  with d(4) have "take 255 (replicate (4 - length digits) CHR '' '' @ digits) = ''  ff''" by simp
  then have "length (take 255 (replicate (4 - length digits) CHR '' '' @ digits)) = 4" by simp
  then have "length digits \<le> 4" by simp
  with d show ?thesis by (intro exI [of _ digits]) simp
qed

text \<open>C21: A line typed at the console (any characters but CR, LF and NUL, then a CR or LF) is echoed character
  by character between the prompt and the line end, under the mutex if there is one, and returned whole
  if it fits and cut at \<open>buffer_size - 1\<close> characters otherwise, NUL-terminated. The exception is an
  empty line, or a buffer of one byte: the call succeeds and leaves the buffer as it was, without a
  terminator.\<close>

theorem readline_takes_line:
  assumes "length g = sz" and "0 < sz" and "0 \<le> handle"
    and "nul_free line" and "\<forall>c \<in> set line. \<not> eol c" and "eol e"
  shows "\<exists>cs. console_readline m handle (Some g) sz (map (Pair 0) line @ (0, e) # rest) =
      Some (True, Some cs, (if m then [TakeMutex] else []) @ [Write0 ''ecu> ''] @ map (\<lambda>c. Write0 [c]) line
        @ [Write0 [CHR 0x0A]] @ (if m then [GiveMutex] else []))
    \<and> (if line = [] \<or> sz = 1 then cs = g else c_string cs = Inr (take (sz - 1) line))"
proof -
  let ?b = "foldl (prvAppendChar sz) \<lparr>cells = g, used = 0\<rparr> line"
  have ok0: "cb_ok sz \<lparr>cells = g, used = 0\<rparr>"
    using assms(1,2) by (simp add: cb_empty_ok)
  have shown: "cb_text ?b = take (sz - 1) line"
    using cb.puts_text [OF ok0, of line] by simp
  have "if line = [] \<or> sz = 1 then cells ?b = g else c_string (cells ?b) = Inr (take (sz - 1) line)"
  proof (cases "line = [] \<or> sz = 1")
    case True
    have "foldl (prvAppendChar 1) b l = b" if "used b = 0" for b l
      using that by (induction l) (simp_all add: prvAppendChar_def)
    with True show ?thesis by auto
  next
    case False
    then have "take (sz - 1) line \<noteq> []" using assms(2) by (cases line) auto
    then show ?thesis
      using c_string_text [OF cb.puts_ok [OF ok0, of line]] assms(4) False by (simp add: shown nul_free_take)
  qed
  moreover have "map (\<lambda>c. Write0 (up_to_nul [c])) line = map (\<lambda>c. Write0 [c]) line"
    using assms(4) by (auto simp: nul_free_def)
  ultimately show ?thesis
    using readline_loop_line [OF assms(5,6), of m sz "\<lparr>cells = g, used = 0\<rparr>"] assms(2,3)
    by (intro exI [of _ "cells ?b"]) (simp add: console_readline_def)
qed

theorem readline_takes_line_witness:
  "\<exists>cs. console_readline True 0 (Some (replicate 4 CHR ''x'')) 4
       (map (Pair 0) ''reset'' @ [(0, CHR 0x0D)]) =
      Some (True, Some cs, [TakeMutex, Write0 ''ecu> ''] @ map (\<lambda>c. Write0 [c]) ''reset''
        @ [Write0 [CHR 0x0A], GiveMutex])
    \<and> c_string cs = Inr ''res''"
  using readline_takes_line [of "replicate 4 CHR ''x''" 4 0 "''reset''" "CHR 0x0D" True "[]"]
  by (simp add: nul_free_def eol_def)

end
