(* ===== verification/FwTypes.thy ===== *)
theory FwTypes
  imports Console
begin

text \<open>
  The firmware's data, \<open>firmware/include/firmware.h\<close>: the fault modes, a sensor sample, a telemetry
  frame and the statistics block. C lets two structs share a member name; here the members of
  \<open>SensorSample\<close> carry the prefix \<open>s_\<close> and those of \<open>TelemetryFrame\<close> the prefix \<open>f_\<close>. The signed
  16-bit members are words read with \<open>sint\<close>; \<open>TickType_t\<close> has 32 bits.
\<close>

datatype FaultMode = FAULT_NONE | FAULT_OVERFLOW | FAULT_SENSOR | FAULT_STALL

record SensorSample =
  s_sequence :: u32
  s_temperature_c_x10 :: i16
  s_accel_x_x100 :: i16
  s_accel_y_x100 :: i16
  s_accel_z_x100 :: i16
  s_valid :: bool
  s_tick :: u32

record TelemetryFrame =
  f_sequence :: u32
  f_temperature_c_x10 :: i16
  f_accel_x_x100 :: i16
  f_accel_y_x100 :: i16
  f_accel_z_x100 :: i16
  f_rpm :: u16
  f_throttle_pct_x10 :: u16
  f_speed_kmh_x10 :: u16
  f_valid :: bool
  f_tick :: u32

record AppStats =
  sensor_samples :: u32
  telemetry_frames :: u32
  sensor_drops :: u32
  telemetry_drops :: u32
  sensor_faults :: u32
  watchdog_warnings :: u32
  task_sensor_beats :: u32
  task_processor_beats :: u32
  task_logger_beats :: u32
  fault_mode :: FaultMode
  last_sample :: SensorSample
  last_frame :: TelemetryFrame

text \<open>What \<open>memset(&xStats, 0, sizeof(xStats))\<close> leaves; \<open>FAULT_NONE\<close> is the enumerator 0.\<close>

definition zero_sample :: SensorSample where
  "zero_sample = \<lparr>s_sequence = 0, s_temperature_c_x10 = 0, s_accel_x_x100 = 0, s_accel_y_x100 = 0,
     s_accel_z_x100 = 0, s_valid = False, s_tick = 0\<rparr>"

definition zero_frame :: TelemetryFrame where
  "zero_frame = \<lparr>f_sequence = 0, f_temperature_c_x10 = 0, f_accel_x_x100 = 0, f_accel_y_x100 = 0,
     f_accel_z_x100 = 0, f_rpm = 0, f_throttle_pct_x10 = 0, f_speed_kmh_x10 = 0, f_valid = False,
     f_tick = 0\<rparr>"

definition zero_stats :: AppStats where
  "zero_stats = \<lparr>sensor_samples = 0, telemetry_frames = 0, sensor_drops = 0, telemetry_drops = 0,
     sensor_faults = 0, watchdog_warnings = 0, task_sensor_beats = 0, task_processor_beats = 0,
     task_logger_beats = 0, fault_mode = FAULT_NONE, last_sample = zero_sample,
     last_frame = zero_frame\<rparr>"

definition prvFaultName :: "FaultMode \<Rightarrow> string" where
  "prvFaultName mode =
     (case mode of FAULT_OVERFLOW \<Rightarrow> ''overflow'' | FAULT_SENSOR \<Rightarrow> ''sensor''
                 | FAULT_STALL \<Rightarrow> ''stall'' | _ \<Rightarrow> ''none'')"

text \<open>The fault modes in the order of their enumerators.\<close>

fun fault_code :: "FaultMode \<Rightarrow> nat" where
  "fault_code FAULT_NONE = 0"
| "fault_code FAULT_OVERFLOW = 1"
| "fault_code FAULT_SENSOR = 2"
| "fault_code FAULT_STALL = 3"

instantiation FaultMode :: linorder
begin

definition less_eq_FaultMode :: "FaultMode \<Rightarrow> FaultMode \<Rightarrow> bool" where
  "less_eq_FaultMode a b \<longleftrightarrow> fault_code a \<le> fault_code b"

definition less_FaultMode :: "FaultMode \<Rightarrow> FaultMode \<Rightarrow> bool" where
  "less_FaultMode a b \<longleftrightarrow> fault_code a < fault_code b"

instance
proof
  fix a b :: FaultMode
  show "a \<le> b \<Longrightarrow> b \<le> a \<Longrightarrow> a = b"
    by (cases a; cases b) (auto simp: less_eq_FaultMode_def)
qed (auto simp: less_eq_FaultMode_def less_FaultMode_def)

end

end
