(* ===== verification/Rtos.thy ===== *)
theory Rtos
  imports Fifo FwTypes
begin

unbundle bit_operations_syntax

text \<open>
  The RTOS kernel as the firmware sees it. The kernel's source is a submodule that the repository
  does not carry, so its calls are parameters: a record of functions on kernel objects of
  unspecified type. \<open>rtos_contract\<close> collects the documented behaviour the firmware relies on; it is
  a hypothesis of the theorems and never a definition of the kernel. \<open>list_rtos\<close> is the simplest
  kernel that satisfies it: queues are lists, an event group is its bits, a semaphore is whether it
  can be taken. The firmware's behaviour over any kernel that keeps the contract is its behaviour
  over \<open>list_rtos\<close> (theory FwTasks), so the reasoning is done there.
\<close>

subsection \<open>The calls\<close>

text \<open>
  \<open>xQueueSend\<close> is called with a block time of 0 only, so it returns at once; \<open>xQueueReceive\<close> and
  \<open>xSemaphoreTake\<close> are called with \<open>portMAX_DELAY\<close> only, so they return \<open>pdTRUE\<close> or do not return
  yet (\<open>None\<close>). \<open>xEventGroupWaitBits\<close> takes the bits waited for, whether they are cleared on exit,
  whether all are needed, and whether its block time has run out.
\<close>

record ('q, 'a) queue_api =
  xQueueCreateStatic :: "nat \<Rightarrow> 'q"
  xQueueSend :: "'q \<Rightarrow> 'a \<Rightarrow> bool \<times> 'q"
  xQueueReceive :: "'q \<Rightarrow> ('a \<times> 'q) option"
  xQueueReset :: "'q \<Rightarrow> 'q"
  uxQueueMessagesWaiting :: "'q \<Rightarrow> nat"

record ('eg, 'sem) objects_api =
  xEventGroupCreateStatic :: 'eg
  xEventGroupSetBits :: "'eg \<Rightarrow> u32 \<Rightarrow> 'eg"
  xEventGroupClearBits :: "'eg \<Rightarrow> u32 \<Rightarrow> 'eg"
  xEventGroupWaitBits :: "'eg \<Rightarrow> u32 \<Rightarrow> bool \<Rightarrow> bool \<Rightarrow> bool \<Rightarrow> (u32 \<times> 'eg) option"
  xSemaphoreCreateBinaryStatic :: 'sem
  xSemaphoreCreateMutexStatic :: 'sem
  xSemaphoreTake :: "'sem \<Rightarrow> 'sem option"
  xSemaphoreGive :: "'sem \<Rightarrow> 'sem"

record ('sq, 'tq, 'eg, 'sem) rtos = "('eg, 'sem) objects_api" +
  sensor_api :: "('sq, SensorSample) queue_api"
  telemetry_api :: "('tq, TelemetryFrame) queue_api"

subsection \<open>The contract\<close>

text \<open>How the kernel's objects are read: the messages of a queue, the bits of a group, whether a
  semaphore can be taken; \<open>sensor_ok\<close> and \<open>telemetry_ok\<close> are the kernel's own queue invariants.\<close>

record ('sq, 'tq, 'eg, 'sem) rtos_view =
  sensor_ok :: "'sq \<Rightarrow> bool"
  sensor_items :: "'sq \<Rightarrow> SensorSample list"
  telemetry_ok :: "'tq \<Rightarrow> bool"
  telemetry_items :: "'tq \<Rightarrow> TelemetryFrame list"
  event_bits :: "'eg \<Rightarrow> u32"
  available :: "'sem \<Rightarrow> bool"

definition queue_contract :: "('q, 'a) queue_api \<Rightarrow> ('q \<Rightarrow> bool) \<Rightarrow> ('q \<Rightarrow> 'a list) \<Rightarrow> nat \<Rightarrow> bool" where
  "queue_contract api ok items n \<longleftrightarrow>
     bounded_fifo (xQueueSend api) (xQueueReceive api) (xQueueReset api) (uxQueueMessagesWaiting api)
       ok items (\<lambda>_. True) n
     \<and> ok (xQueueCreateStatic api n) \<and> items (xQueueCreateStatic api n) = []"

text \<open>
  The event group as documented: the wait returns once its condition holds (then the value of the
  bits before they are cleared) or its time is up (then the bits as they are, unchanged); while
  neither is the case the caller is blocked.
\<close>

definition spec_wait_bits :: "u32 \<Rightarrow> u32 \<Rightarrow> bool \<Rightarrow> bool \<Rightarrow> bool \<Rightarrow> (u32 \<times> u32) option" where
  "spec_wait_bits v bits clear_on_exit wait_all expired =
     (if (if wait_all then v AND bits = bits else v AND bits \<noteq> 0)
      then Some (v, if clear_on_exit then v AND NOT bits else v)
      else if expired then Some (v, v) else None)"

definition event_contract :: "('eg, 'sem, 'z) objects_api_scheme \<Rightarrow> ('eg \<Rightarrow> u32) \<Rightarrow> bool" where
  "event_contract K bits \<longleftrightarrow>
     bits (xEventGroupCreateStatic K) = 0
     \<and> (\<forall>e b. bits (xEventGroupSetBits K e b) = bits e OR b)
     \<and> (\<forall>e b. bits (xEventGroupClearBits K e b) = bits e AND NOT b)
     \<and> (\<forall>e b c a x. map_option (apsnd bits) (xEventGroupWaitBits K e b c a x) = spec_wait_bits (bits e) b c a x)"

definition semaphore_contract :: "('eg, 'sem, 'z) objects_api_scheme \<Rightarrow> ('sem \<Rightarrow> bool) \<Rightarrow> bool" where
  "semaphore_contract K avail \<longleftrightarrow>
     \<not> avail (xSemaphoreCreateBinaryStatic K) \<and> avail (xSemaphoreCreateMutexStatic K)
     \<and> (\<forall>m. map_option avail (xSemaphoreTake K m) = (if avail m then Some False else None))
     \<and> (\<forall>m. avail (xSemaphoreGive K m))"

definition rtos_contract :: "('sq, 'tq, 'eg, 'sem) rtos \<Rightarrow> ('sq, 'tq, 'eg, 'sem) rtos_view \<Rightarrow> bool" where
  "rtos_contract K V \<longleftrightarrow>
     queue_contract (sensor_api K) (sensor_ok V) (sensor_items V) 6
     \<and> queue_contract (telemetry_api K) (telemetry_ok V) (telemetry_items V) 6
     \<and> event_contract K (event_bits V) \<and> semaphore_contract K (available V)"

subsection \<open>What the contract gives\<close>

lemma queue_contract_send:
  assumes "queue_contract api ok items n" and "ok q"
  shows "ok (snd (xQueueSend api q x))"
    and "(fst (xQueueSend api q x), items (snd (xQueueSend api q x))) = spec_push n (items q) x"
  using assms bounded_fifo.push_ok [of "xQueueSend api" "xQueueReceive api" "xQueueReset api"
      "uxQueueMessagesWaiting api" ok items "\<lambda>_. True" n q x]
    bounded_fifo.push_items [of "xQueueSend api" "xQueueReceive api" "xQueueReset api"
      "uxQueueMessagesWaiting api" ok items "\<lambda>_. True" n q x]
  by (simp_all add: queue_contract_def)

lemma queue_contract_receive:
  assumes "queue_contract api ok items n" and "ok q"
  shows "xQueueReceive api q = Some (x, q') \<Longrightarrow> ok q'"
    and "map_option (apsnd items) (xQueueReceive api q) = spec_pop (items q)"
  using assms bounded_fifo.pop_ok [of "xQueueSend api" "xQueueReceive api" "xQueueReset api"
      "uxQueueMessagesWaiting api" ok items "\<lambda>_. True" n q x q']
    bounded_fifo.pop_items [of "xQueueSend api" "xQueueReceive api" "xQueueReset api"
      "uxQueueMessagesWaiting api" ok items "\<lambda>_. True" n q]
  by (simp_all add: queue_contract_def)

lemma queue_contract_reset:
  assumes "queue_contract api ok items n" and "ok q"
  shows "ok (xQueueReset api q)" and "items (xQueueReset api q) = []"
    and "uxQueueMessagesWaiting api q = length (items q)" and "length (items q) \<le> n"
  using assms bounded_fifo.clear_ok [of "xQueueSend api" "xQueueReceive api" "xQueueReset api"
      "uxQueueMessagesWaiting api" ok items "\<lambda>_. True" n q]
    bounded_fifo.clear_items [of "xQueueSend api" "xQueueReceive api" "xQueueReset api"
      "uxQueueMessagesWaiting api" ok items "\<lambda>_. True" n q]
    bounded_fifo.depth_items [of "xQueueSend api" "xQueueReceive api" "xQueueReset api"
      "uxQueueMessagesWaiting api" ok items "\<lambda>_. True" n q]
    bounded_fifo.items_bound [of "xQueueSend api" "xQueueReceive api" "xQueueReset api"
      "uxQueueMessagesWaiting api" ok items "\<lambda>_. True" n q]
  by (simp_all add: queue_contract_def)

lemma queue_contract_create:
  "queue_contract api ok items n \<Longrightarrow> ok (xQueueCreateStatic api n)"
  "queue_contract api ok items n \<Longrightarrow> items (xQueueCreateStatic api n) = []"
  by (simp_all add: queue_contract_def)

lemma event_contractD:
  assumes "event_contract K bits"
  shows "bits (xEventGroupCreateStatic K) = 0"
    and "bits (xEventGroupSetBits K e b) = bits e OR b"
    and "bits (xEventGroupClearBits K e b) = bits e AND NOT b"
    and "map_option (apsnd bits) (xEventGroupWaitBits K e b c a x) = spec_wait_bits (bits e) b c a x"
  using assms by (simp_all add: event_contract_def)

lemma semaphore_contractD:
  assumes "semaphore_contract K avail"
  shows "\<not> avail (xSemaphoreCreateBinaryStatic K)" and "avail (xSemaphoreCreateMutexStatic K)"
    and "avail (xSemaphoreGive K m)"
    and "avail m \<Longrightarrow> \<exists>m'. xSemaphoreTake K m = Some m' \<and> \<not> avail m'"
    and "\<not> avail m \<Longrightarrow> xSemaphoreTake K m = None"
proof -
  have t: "map_option avail (xSemaphoreTake K m) = (if avail m then Some False else None)"
    using assms by (simp add: semaphore_contract_def)
  show "\<not> avail (xSemaphoreCreateBinaryStatic K)" and "avail (xSemaphoreCreateMutexStatic K)"
    and "avail (xSemaphoreGive K m)"
    using assms by (simp_all add: semaphore_contract_def)
  show "avail m \<Longrightarrow> \<exists>m'. xSemaphoreTake K m = Some m' \<and> \<not> avail m'"
    and "\<not> avail m \<Longrightarrow> xSemaphoreTake K m = None"
    using t by (auto split: if_splits)
qed

lemma rtos_contractD:
  assumes "rtos_contract K V"
  shows "queue_contract (sensor_api K) (sensor_ok V) (sensor_items V) 6"
    and "queue_contract (telemetry_api K) (telemetry_ok V) (telemetry_items V) 6"
    and "event_contract K (event_bits V)" and "semaphore_contract K (available V)"
  using assms by (simp_all add: rtos_contract_def)

subsection \<open>A kernel of lists\<close>

definition list_queue :: "nat \<Rightarrow> ('a list, 'a) queue_api" where
  "list_queue n = \<lparr>xQueueCreateStatic = \<lambda>_. [], xQueueSend = spec_push n, xQueueReceive = spec_pop,
     xQueueReset = \<lambda>_. [], uxQueueMessagesWaiting = length\<rparr>"

definition list_rtos :: "(SensorSample list, TelemetryFrame list, u32, bool) rtos" where
  "list_rtos = \<lparr>xEventGroupCreateStatic = 0, xEventGroupSetBits = \<lambda>e b. e OR b,
     xEventGroupClearBits = \<lambda>e b. e AND NOT b, xEventGroupWaitBits = spec_wait_bits,
     xSemaphoreCreateBinaryStatic = False, xSemaphoreCreateMutexStatic = True,
     xSemaphoreTake = \<lambda>m. if m then Some False else None, xSemaphoreGive = \<lambda>_. True,
     sensor_api = list_queue 6, telemetry_api = list_queue 6\<rparr>"

lemma list_queue_simps [simp]:
  "xQueueCreateStatic (list_queue n) k = []" "xQueueSend (list_queue n) = spec_push n"
  "xQueueReceive (list_queue n) = spec_pop" "xQueueReset (list_queue n) q = []"
  "uxQueueMessagesWaiting (list_queue n) = length"
  by (simp_all add: list_queue_def)

lemma list_rtos_simps [simp]:
  "sensor_api list_rtos = list_queue 6" "telemetry_api list_rtos = list_queue 6"
  "xEventGroupCreateStatic list_rtos = 0" "xEventGroupSetBits list_rtos e b = e OR b"
  "xEventGroupClearBits list_rtos e b = e AND NOT b"
  "xEventGroupWaitBits list_rtos = spec_wait_bits"
  "xSemaphoreCreateBinaryStatic list_rtos = False" "xSemaphoreCreateMutexStatic list_rtos = True"
  "xSemaphoreTake list_rtos m = (if m then Some False else None)"
  "xSemaphoreGive list_rtos m = True"
  by (simp_all add: list_rtos_def)

definition list_view :: "(SensorSample list, TelemetryFrame list, u32, bool) rtos_view" where
  "list_view = \<lparr>sensor_ok = \<lambda>q. length q \<le> 6, sensor_items = \<lambda>q. q,
     telemetry_ok = \<lambda>q. length q \<le> 6, telemetry_items = \<lambda>q. q, event_bits = \<lambda>e. e,
     available = \<lambda>m. m\<rparr>"

lemma list_view_simps [simp]:
  "sensor_ok list_view q \<longleftrightarrow> length q \<le> 6" "sensor_items list_view q = q"
  "telemetry_ok list_view r \<longleftrightarrow> length r \<le> 6" "telemetry_items list_view r = r"
  "event_bits list_view e = e" "available list_view m = m"
  by (simp_all add: list_view_def)

lemma list_queue_contract: "queue_contract (list_queue n) (\<lambda>q. length q \<le> n) (\<lambda>q. q) n"
proof -
  have "bounded_fifo (spec_push n) spec_pop (\<lambda>_. []) length (\<lambda>q. length q \<le> n) (\<lambda>q. q) (\<lambda>_. True) n"
  proof unfold_locales
    fix q :: "'b list" and x q'
    show "length q \<le> n \<Longrightarrow> spec_pop q = Some (x, q') \<Longrightarrow> length q' \<le> n" by (cases q) auto
    show "map_option (apsnd (\<lambda>q. q)) (spec_pop q) = spec_pop q" by (cases q) auto
  qed (simp_all add: length_spec_push)
  then show ?thesis by (simp add: queue_contract_def list_queue_def)
qed

lemma list_rtos_contract: "rtos_contract list_rtos list_view"
  using list_queue_contract [of 6, where ?'a = SensorSample]
    list_queue_contract [of 6, where ?'a = TelemetryFrame]
  by (simp add: rtos_contract_def event_contract_def semaphore_contract_def list_view_def
      apsnd_def map_prod_def option.map_id)

end
