(* ===== verification/FwSignal.thy ===== *)
theory FwSignal
  imports FwTypes
begin

unbundle bit_operations_syntax

text \<open>
  The data path of \<open>firmware/src/main.c\<close> without its tasks: the sample generator (a linear
  congruential generator seeded by the sequence number, and a temperature sawtooth), the
  processing that derives engine speed, throttle and vehicle speed, and the line that the logger
  prints. The fault mode and the tick are arguments here; the tasks read them.
\<close>

subsection \<open>Samples\<close>

definition prvLcgNext :: "u32 \<Rightarrow> u32" where
  "prvLcgNext state = state * 1664525 + 1013904223"

definition prvMakeSample :: "FaultMode \<Rightarrow> u32 \<Rightarrow> u32 \<Rightarrow> SensorSample" where
  "prvMakeSample mode tick seq =
     (let lcg = prvLcgNext (seq + 1);
          ax = word_of_int (uint (lcg AND 0xFF) - 128);
          lcg = prvLcgNext lcg;
          ay = word_of_int (uint (lcg AND 0xFF) - 128);
          lcg = prvLcgNext lcg;
          az = word_of_int (100 + uint (lcg AND 0x3F));
          sample = \<lparr>s_sequence = seq,
                    s_temperature_c_x10 = word_of_int (720 + (uint (seq mod 30) - 15) * 6),
                    s_accel_x_x100 = ax, s_accel_y_x100 = ay, s_accel_z_x100 = az,
                    s_valid = True, s_tick = tick\<rparr>
      in if mode = FAULT_SENSOR
         then sample\<lparr>s_temperature_c_x10 := 1550, s_accel_x_x100 := 420, s_accel_y_x100 := 420,
                     s_accel_z_x100 := 420, s_valid := False\<rparr>
         else sample)"

subsection \<open>Frames\<close>

definition prvAccelMagnitude :: "SensorSample \<Rightarrow> u16" where
  "prvAccelMagnitude s =
     (let ax = (if sint (s_accel_x_x100 s) < 0 then - sint (s_accel_x_x100 s) else sint (s_accel_x_x100 s));
          ay = (if sint (s_accel_y_x100 s) < 0 then - sint (s_accel_y_x100 s) else sint (s_accel_y_x100 s));
          az = (if sint (s_accel_z_x100 s) < 0 then - sint (s_accel_z_x100 s) else sint (s_accel_z_x100 s));
          mag = (ax + ay + az) sdiv 3;
          mag = (if mag < 0 then 0 else mag)
      in word_of_int mag)"

definition prvProcessSample :: "u32 \<Rightarrow> SensorSample \<Rightarrow> TelemetryFrame" where
  "prvProcessSample tick sample =
     (let accel_mag = prvAccelMagnitude sample;
          rpm = (ucast (700 + ((scast (s_temperature_c_x10 sample) :: u32) div 2)
                          + ((ucast accel_mag :: u32) * 3)) :: u16);
          throttle = (ucast (120 + ((ucast accel_mag :: u32) div 2)) :: u16);
          throttle = (if throttle > 1000 then 1000 else throttle);
          speed = (ucast ((ucast accel_mag :: u32) * 2) :: u16);
          speed = (if speed > 2500 then 2500 else speed)
      in \<lparr>f_sequence = s_sequence sample, f_temperature_c_x10 = s_temperature_c_x10 sample,
          f_accel_x_x100 = s_accel_x_x100 sample, f_accel_y_x100 = s_accel_y_x100 sample,
          f_accel_z_x100 = s_accel_z_x100 sample, f_rpm = rpm, f_throttle_pct_x10 = throttle,
          f_speed_kmh_x10 = speed, f_valid = s_valid sample, f_tick = tick\<rparr>)"

subsection \<open>The logger's line\<close>

definition prvAbs16 :: "i16 \<Rightarrow> i16" where
  "prvAbs16 v = (if sint v < 0 then word_of_int (- sint v) else v)"

text \<open>
  The arguments of \<open>console_writef\<close> in \<open>prvPrintFrame\<close>. C promotes the 16-bit members to \<open>int\<close>
  before it divides.
\<close>

definition frame_fmt :: string where
  "frame_fmt = ''[telemetry] seq=%lu temp=%d.%dC ax=%d.%02d ay=%d.%02d az=%d.%02d spd=%u.%ukm/h rpm=%u thr=%u.%u%% valid=%s tick=%lu'' @ [CHR 0x0A]"

definition whole_arg :: "i16 \<Rightarrow> int \<Rightarrow> va" where
  "whole_arg v scale = VInt (word_of_int (sint v sdiv scale))"

definition cents_arg :: "i16 \<Rightarrow> va" where
  "cents_arg v = VInt (word_of_int (sint (prvAbs16 (word_of_int (sint v smod 100)))))"

definition tenths_arg :: "i16 \<Rightarrow> va" where
  "tenths_arg v = VInt (word_of_int (if sint v < 0 then (- sint v) smod 10 else sint v smod 10))"

definition frame_args :: "TelemetryFrame \<Rightarrow> va list" where
  "frame_args frame =
     [VULong (f_sequence frame),
      whole_arg (f_temperature_c_x10 frame) 10, tenths_arg (f_temperature_c_x10 frame),
      whole_arg (f_accel_x_x100 frame) 100, cents_arg (f_accel_x_x100 frame),
      whole_arg (f_accel_y_x100 frame) 100, cents_arg (f_accel_y_x100 frame),
      whole_arg (f_accel_z_x100 frame) 100, cents_arg (f_accel_z_x100 frame),
      VUInt (ucast (f_speed_kmh_x10 frame) div 10), VUInt (ucast (f_speed_kmh_x10 frame) mod 10),
      VUInt (ucast (f_rpm frame)),
      VUInt (ucast (f_throttle_pct_x10 frame) div 10), VUInt (ucast (f_throttle_pct_x10 frame) mod 10),
      VStr (Some (if f_valid frame then ''yes'' else ''no'')),
      VULong (f_tick frame)]"

definition prvPrintFrame :: "bool \<Rightarrow> int \<Rightarrow> string \<Rightarrow> TelemetryFrame \<Rightarrow> c_ub + console_op list" where
  "prvPrintFrame mutex_created xLogFd garbage frame =
     console_writef mutex_created xLogFd garbage frame_fmt (frame_args frame)"

subsection \<open>Ranges of the generated samples\<close>

lemma uint_and_mask8: "uint ((x :: u32) AND 0xFF) < 256"
proof -
  have "x AND 0xFF = take_bit 8 x" by (simp add: take_bit_eq_mask mask_eq_decr_exp)
  then show ?thesis by (simp add: unsigned_take_bit_eq take_bit_int_less_exp [of 8 "uint x", simplified])
qed

lemma uint_and_mask6: "uint ((x :: u32) AND 0x3F) < 64"
proof -
  have "x AND 0x3F = take_bit 6 x" by (simp add: take_bit_eq_mask mask_eq_decr_exp)
  then show ?thesis by (simp add: unsigned_take_bit_eq take_bit_int_less_exp [of 6 "uint x", simplified])
qed

lemma sint_off8: "sint (ucast ((x :: u32) AND 0xFF) - 128 :: i16) = uint (x AND 0xFF) - 128"
proof -
  have "(ucast (x AND 0xFF) - 128 :: i16) = word_of_int (uint (x AND 0xFF) - 128)" by simp
  then show ?thesis
    using uint_and_mask8 [of x] by (simp only:) (rule sint_word_of_int_16; simp)
qed

lemma sint_off6: "sint (100 + ucast ((x :: u32) AND 0x3F) :: i16) = 100 + uint (x AND 0x3F)"
proof -
  have "(100 + ucast (x AND 0x3F) :: i16) = word_of_int (100 + uint (x AND 0x3F))" by simp
  then show ?thesis
    using uint_and_mask6 [of x] by (simp only:) (rule sint_word_of_int_16; simp)
qed

lemma make_sample_fields:
  "s_sequence (prvMakeSample mode tick seq) = seq"
  "s_tick (prvMakeSample mode tick seq) = tick"
  "s_valid (prvMakeSample mode tick seq) \<longleftrightarrow> mode \<noteq> FAULT_SENSOR"
  by (simp_all add: prvMakeSample_def Let_def)

lemma make_sample_nominal:
  assumes "mode \<noteq> FAULT_SENSOR"
  shows "sint (s_temperature_c_x10 (prvMakeSample mode tick seq)) = 630 + 6 * (uint seq mod 30)"
    and "- 128 \<le> sint (s_accel_x_x100 (prvMakeSample mode tick seq))"
    and "sint (s_accel_x_x100 (prvMakeSample mode tick seq)) \<le> 127"
    and "- 128 \<le> sint (s_accel_y_x100 (prvMakeSample mode tick seq))"
    and "sint (s_accel_y_x100 (prvMakeSample mode tick seq)) \<le> 127"
    and "100 \<le> sint (s_accel_z_x100 (prvMakeSample mode tick seq))"
    and "sint (s_accel_z_x100 (prvMakeSample mode tick seq)) \<le> 163"
proof -
  have m: "uint (seq mod 30) = uint seq mod 30" by (simp add: uint_mod)
  have m2: "uint seq mod 30 < 30" "0 \<le> uint seq mod 30" by simp_all
  show "sint (s_temperature_c_x10 (prvMakeSample mode tick seq)) = 630 + 6 * (uint seq mod 30)"
  proof -
    have "s_temperature_c_x10 (prvMakeSample mode tick seq) = word_of_int (630 + 6 * (uint seq mod 30))"
      using assms by (simp add: prvMakeSample_def Let_def m algebra_simps)
    then show ?thesis using m2 by (simp only:) (rule sint_word_of_int_16; linarith)
  qed
qed (use assms uint_and_mask8 [THEN zless_imp_add1_zle] uint_and_mask6 [THEN zless_imp_add1_zle] in
    \<open>simp_all add: prvMakeSample_def Let_def sint_off8 sint_off6\<close>)

lemma magnitude_int:
  "uint (prvAccelMagnitude s) = (\<bar>sint (s_accel_x_x100 s)\<bar> + \<bar>sint (s_accel_y_x100 s)\<bar>
      + \<bar>sint (s_accel_z_x100 s)\<bar>) div 3"
proof -
  let ?m = "(\<bar>sint (s_accel_x_x100 s)\<bar> + \<bar>sint (s_accel_y_x100 s)\<bar> + \<bar>sint (s_accel_z_x100 s)\<bar>) div 3"
  have b: "\<bar>sint v\<bar> \<le> 32768" for v :: i16 using sint16_range [of v] by linarith
  have r: "0 \<le> ?m" "?m \<le> 32768"
    using b [of "s_accel_x_x100 s"] b [of "s_accel_y_x100 s"] b [of "s_accel_z_x100 s"] by linarith+
  have "prvAccelMagnitude s = word_of_int ?m"
    using r by (simp add: prvAccelMagnitude_def Let_def sdiv_nonneg abs_if)
  then have "uint (prvAccelMagnitude s) = ?m mod 65536" by (simp add: uint_word_of_int)
  then show ?thesis using r by simp
qed

subsection \<open>The derived values as integer formulas\<close>

lemma uint_ucast_32: "uint (ucast w :: u32) = uint (w :: u16)"
proof -
  have "uint w < 65536" using unsigned_less [of w, where 'a = int] by simp
  then have "uint w < 2 ^ 32" by simp
  then show ?thesis by (simp add: unsigned_ucast_eq take_bit_int_eq_self)
qed

lemma uint_scast_32: "uint (scast t :: u32) = sint (t :: i16) mod 4294967296"
proof -
  have "uint (word_of_int (sint t) :: u32) = sint t mod 4294967296" by (simp only: uint_word_of_int) simp
  then show ?thesis by simp
qed

lemma magnitude_bound: "0 \<le> uint (prvAccelMagnitude s)" "uint (prvAccelMagnitude s) \<le> 32768"
proof -
  have b: "\<bar>sint v\<bar> \<le> 32768" for v :: i16 using sint16_range [of v] by linarith
  show "uint (prvAccelMagnitude s) \<le> 32768"
    using b [of "s_accel_x_x100 s"] b [of "s_accel_y_x100 s"] b [of "s_accel_z_x100 s"]
    by (simp add: magnitude_int)
qed simp

lemma uint_div_word: "uint (a div b) = uint a div uint b" for a b :: "'a::len word"
  by (rule uint_div)

lemma half_temperature: "uint ((scast t :: u32) div 2) mod 65536 = (sint t div 2) mod 65536"
  "uint ((scast t :: u32) div 2) < 2147483648" for t :: i16
proof -
  have e: "uint ((scast t :: u32) div 2) = (sint t mod 4294967296) div 2"
    by (simp add: uint_div_word uint_scast_32)
  show "uint ((scast t :: u32) div 2) < 2147483648"
    unfolding e using pos_mod_bound [of 4294967296 "sint t"] by presburger
  show "uint ((scast t :: u32) div 2) mod 65536 = (sint t div 2) mod 65536"
  proof (cases "0 \<le> sint t")
    case True
    then have "sint t mod 4294967296 = sint t"
      using sint16_range [of t] by (intro mod_pos_pos_trivial) simp_all
    then show ?thesis unfolding e by simp
  next
    case False
    have "sint t mod 4294967296 = (sint t + 4294967296) mod 4294967296" by simp
    also have "\<dots> = sint t + 2147483648 * 2"
      using False sint16_range [of t] by (subst mod_pos_pos_trivial) simp_all
    finally have "sint t mod 4294967296 = sint t + 2147483648 * 2" .
    then have "(sint t mod 4294967296) div 2 = sint t div 2 + 32768 * 65536"
      by simp
    then show ?thesis unfolding e by (simp only: mod_mult_self1)
  qed
qed

lemma uint_plus_nowrap: "uint a + uint b < 2 ^ LENGTH('a) \<Longrightarrow> uint (a + b) = uint a + uint b"
  for a b :: "'a::len word"
  by (simp add: uint_word_ariths)

lemma uint_times_nowrap: "uint a * uint b < 2 ^ LENGTH('a) \<Longrightarrow> uint (a * b) = uint a * uint b"
  for a b :: "'a::len word"
  by (simp add: uint_word_ariths)

lemma process_rpm:
  "uint (f_rpm (prvProcessSample tick s)) =
    (700 + sint (s_temperature_c_x10 s) div 2 + 3 * uint (prvAccelMagnitude s)) mod 65536"
proof -
  let ?m = "prvAccelMagnitude s" and ?t = "(scast (s_temperature_c_x10 s) :: u32) div 2"
  have m3: "uint ((ucast ?m :: u32) * 3) = 3 * uint ?m"
    using magnitude_bound [of s] by (subst uint_times_nowrap) (simp_all add: uint_ucast_32)
  have "uint (700 + ?t) = 700 + uint ?t"
    using half_temperature(2) [of "s_temperature_c_x10 s"] by (subst uint_plus_nowrap) simp_all
  then have "uint (700 + ?t + (ucast ?m :: u32) * 3) = 700 + uint ?t + 3 * uint ?m"
    using half_temperature(2) [of "s_temperature_c_x10 s"] magnitude_bound [of s] m3
    by (subst uint_plus_nowrap) simp_all
  then have "uint (f_rpm (prvProcessSample tick s)) = (700 + uint ?t + 3 * uint ?m) mod 65536"
    by (simp add: prvProcessSample_def Let_def uint_ucast_16)
  also have "\<dots> = (700 + sint (s_temperature_c_x10 s) div 2 + 3 * uint ?m) mod 65536"
    by (intro mod_add_cong refl half_temperature(1))
  finally show ?thesis .
qed

lemma process_throttle:
  "uint (f_throttle_pct_x10 (prvProcessSample tick s)) = min 1000 (120 + uint (prvAccelMagnitude s) div 2)"
proof -
  let ?m = "prvAccelMagnitude s"
  have h: "uint ((ucast ?m :: u32) div 2) = uint ?m div 2"
    by (simp add: uint_div_word uint_ucast_32)
  have "uint (120 + (ucast ?m :: u32) div 2) = 120 + uint ?m div 2"
    using magnitude_bound [of s] h by (subst uint_plus_nowrap) simp_all
  then have "uint (ucast (120 + (ucast ?m :: u32) div 2) :: u16) = 120 + uint ?m div 2"
    using magnitude_bound [of s] by (simp add: uint_ucast_16)
  then show ?thesis
    by (simp add: prvProcessSample_def Let_def word_less_def)
qed

lemma process_speed:
  "uint (f_speed_kmh_x10 (prvProcessSample tick s)) = min 2500 (2 * uint (prvAccelMagnitude s) mod 65536)"
proof -
  let ?m = "prvAccelMagnitude s"
  have "uint ((ucast ?m :: u32) * 2) = 2 * uint ?m"
    using magnitude_bound [of s] by (subst uint_times_nowrap) (simp_all add: uint_ucast_32)
  then have "uint (ucast ((ucast ?m :: u32) * 2) :: u16) = 2 * uint ?m mod 65536"
    by (simp add: uint_ucast_16)
  then show ?thesis
    by (simp add: prvProcessSample_def Let_def word_less_def)
qed

subsection \<open>The printed line\<close>

text \<open>
  The text of a frame as the code builds it: tenths and hundredths are printed as a whole part,
  a point and the digits of the absolute value.
\<close>

definition fixed10 :: "int \<Rightarrow> string" where
  "fixed10 v = signed_text 0 False (v sdiv 10) @ ''.'' @ udigits 10 (nat (\<bar>v\<bar> mod 10))"

definition fixed100 :: "int \<Rightarrow> string" where
  "fixed100 v = signed_text 0 False (v sdiv 100) @ ''.'' @ unsigned_text 2 True 10 (nat (\<bar>v\<bar> mod 100))"

definition frame_line :: "TelemetryFrame \<Rightarrow> string" where
  "frame_line f =
     ''[telemetry] seq='' @ udigits 10 (unat (f_sequence f))
     @ '' temp='' @ fixed10 (sint (f_temperature_c_x10 f)) @ ''C''
     @ '' ax='' @ fixed100 (sint (f_accel_x_x100 f))
     @ '' ay='' @ fixed100 (sint (f_accel_y_x100 f))
     @ '' az='' @ fixed100 (sint (f_accel_z_x100 f))
     @ '' spd='' @ udigits 10 (unat (f_speed_kmh_x10 f) div 10) @ ''.''
       @ udigits 10 (unat (f_speed_kmh_x10 f) mod 10) @ ''km/h''
     @ '' rpm='' @ udigits 10 (unat (f_rpm f))
     @ '' thr='' @ udigits 10 (unat (f_throttle_pct_x10 f) div 10) @ ''.''
       @ udigits 10 (unat (f_throttle_pct_x10 f) mod 10) @ ''%''
     @ '' valid='' @ (if f_valid f then ''yes'' else ''no'')
     @ '' tick='' @ udigits 10 (unat (f_tick f)) @ [CHR 0x0A]"

lemma sint_word_of_int_32: "- 2147483648 \<le> k \<Longrightarrow> k < 2147483648 \<Longrightarrow> sint (word_of_int k :: i32) = k"
  by (simp add: signed_of_int signed_take_bit_int_eq_self)

lemma abs_sdiv: "0 < n \<Longrightarrow> \<bar>v sdiv n\<bar> = \<bar>v\<bar> div n" for v n :: int
  by (cases "0 \<le> v") (simp_all add: sdiv_nonneg sdiv_neg pos_imp_zdiv_nonneg_iff)

lemma sdiv_abs_le: "0 < n \<Longrightarrow> \<bar>v sdiv n\<bar> \<le> \<bar>v\<bar>" for v n :: int
  using zdiv_mono2 [of "\<bar>v\<bar>" 1 n] by (simp add: abs_sdiv)

lemma whole_value:
  fixes v :: i16
  assumes "0 < n"
  shows "sint (word_of_int (sint v sdiv n) :: i32) = sint v sdiv n"
  using sdiv_abs_le [OF assms, of "sint v"] sint16_range [of v]
  by (intro sint_word_of_int_32) linarith+

lemma tenths_value:
  "sint (word_of_int (if sint v < 0 then (- sint v) smod 10 else sint v smod 10) :: i32)
     = \<bar>sint v\<bar> mod 10" for v :: i16
proof -
  have e: "(if sint v < 0 then (- sint v) smod 10 else sint v smod 10) = \<bar>sint v\<bar> mod 10"
    by (auto simp: smod_nonneg smod_neg abs_if)
  have "0 \<le> \<bar>sint v\<bar> mod 10" "\<bar>sint v\<bar> mod 10 < 10" by simp_all
  then show ?thesis unfolding e by (intro sint_word_of_int_32) linarith+
qed

lemma cents_value:
  "sint (word_of_int (sint (prvAbs16 (word_of_int (sint v smod 100)))) :: i32) = \<bar>sint v\<bar> mod 100" for v :: i16
proof -
  have m: "0 \<le> \<bar>sint v\<bar> mod 100" "\<bar>sint v\<bar> mod 100 < 100" by simp_all
  have a: "\<bar>sint v smod 100\<bar> = \<bar>sint v\<bar> mod 100"
    by (simp add: signed_modulo_int_def abs_mult sgn_if)
  then have "- 100 < sint v smod 100" "sint v smod 100 < 100" using m by linarith+
  then have s: "sint (word_of_int (sint v smod 100) :: i16) = sint v smod 100"
    by (intro sint_word_of_int_16) linarith+
  have "sint (prvAbs16 (word_of_int (sint v smod 100))) = \<bar>sint v\<bar> mod 100"
  proof (cases "sint v smod 100 < 0")
    case True
    then have "prvAbs16 (word_of_int (sint v smod 100)) = word_of_int (\<bar>sint v\<bar> mod 100)"
      using a by (simp add: prvAbs16_def s del: of_int_minus)
    also have "sint (word_of_int (\<bar>sint v\<bar> mod 100) :: i16) = \<bar>sint v\<bar> mod 100"
      using m by (intro sint_word_of_int_16) linarith+
    finally show ?thesis .
  next
    case False
    then have "prvAbs16 (word_of_int (sint v smod 100)) = word_of_int (sint v smod 100)"
      using s by (simp add: prvAbs16_def)
    then show ?thesis using s a False by (simp only:)
  qed
  then show ?thesis using m by (simp only:) (rule sint_word_of_int_32; linarith)
qed

lemma unat_ucast_16_32: "unat (ucast w :: u32) = unat (w :: u16)"
  by (metis uint_ucast_32 unat_eq_nat_uint)

lemma signed_text_nonneg: "0 \<le> k \<Longrightarrow> signed_text w z k = unsigned_text w z 10 (nat k)"
  by (simp add: signed_text_def)

lemma not_least: "\<bar>k\<bar> \<le> 65536 \<Longrightarrow> k \<noteq> - (2 ^ 31)" for k :: int
  by auto

lemma whole_not_least: "0 < n \<Longrightarrow> sint (v :: i16) sdiv n \<noteq> - 2147483648"
  using sdiv_abs_le [of n "sint v"] sint16_range [of v] by (intro notI) linarith

lemma render_whole: "0 < n \<Longrightarrow> render (CHR ''%'' # CHR ''d'' # fmt) (whole_arg v n # args) =
    map_sum id ((@) (signed_text 0 False (sint v sdiv n))) (render fmt args)"
  unfolding whole_arg_def by (subst render_d) (simp_all add: whole_value whole_not_least)

lemma render_tenths: "render (CHR ''%'' # CHR ''d'' # fmt) (tenths_arg v # args) =
    map_sum id ((@) (udigits 10 (nat (\<bar>sint v\<bar> mod 10)))) (render fmt args)"
proof -
  have "0 \<le> \<bar>sint v\<bar> mod 10" by simp
  then show ?thesis
    unfolding tenths_arg_def by (subst render_d) (simp_all only: tenths_value signed_text_nonneg unsigned_text_0, simp)
qed

lemma render_cents: "render (CHR ''%'' # CHR ''0'' # CHR ''2'' # CHR ''d'' # fmt) (cents_arg v # args) =
    map_sum id ((@) (unsigned_text 2 True 10 (nat (\<bar>sint v\<bar> mod 100)))) (render fmt args)"
proof -
  have "0 \<le> \<bar>sint v\<bar> mod 100" by simp
  then show ?thesis
    unfolding cents_arg_def by (subst render_02d) (simp_all only: cents_value signed_text_nonneg, simp)
qed

lemma frame_render: "render frame_fmt (frame_args f) = Inr (frame_line f)"
  unfolding frame_fmt_def frame_args_def frame_line_def fixed10_def fixed100_def
  by (cases "f_valid f")
    (simp_all add: render_simps render_whole render_tenths render_cents unat_ucast_16_32 unat_div unat_mod)

lemma length_signed_whole:
  assumes "10 \<le> n"
  shows "length (signed_text 0 False (sint (v :: i16) sdiv n)) \<le> 5"
proof -
  have "\<bar>sint v sdiv n\<bar> \<le> \<bar>sint v\<bar> div 10"
    using zdiv_mono2 [of "\<bar>sint v\<bar>" 10 n] assms by (simp add: abs_sdiv)
  also have "\<bar>sint v\<bar> \<le> 32768" using sint16_range [of v] by linarith
  then have "\<bar>sint v\<bar> div 10 \<le> 3276" by linarith
  finally have b: "\<bar>sint v sdiv n\<bar> \<le> 3276" .
  have "length (udigits 10 (nat \<bar>k\<bar>)) \<le> 4" if "\<bar>k\<bar> \<le> 3276" for k
    using length_udigits [of 10 "nat \<bar>k\<bar>" 3] that by simp
  then have "length (udigits 10 (nat \<bar>sint v sdiv n\<bar>)) \<le> 4" using b by blast
  then show ?thesis by (auto simp: signed_text_def abs_if split: if_splits)
qed

lemma length_udigits_16: "length (udigits 10 (unat (v :: u16) div k)) \<le> 5"
proof -
  have "unat v div k \<le> unat v" by simp
  also have "unat v < 10 ^ Suc 4" using unsigned_less [of v, where 'a = nat] by simp
  finally show ?thesis using length_udigits [of 10 "unat v div k" 4] by simp
qed

lemma length_digit: "n < 10 \<Longrightarrow> length (udigits 10 n) \<le> 1"
  using length_udigits [of 10 n 0] by simp

lemma length_cents: "length (unsigned_text 2 True 10 (nat (\<bar>sint (v :: i16)\<bar> mod 100))) \<le> 2"
proof -
  have "nat (\<bar>sint v\<bar> mod 100) < 10 ^ Suc 1" by simp
  then show ?thesis using length_udigits [of 10 "nat (\<bar>sint v\<bar> mod 100)" 1] by (simp add: unsigned_text_def)
qed

lemma length_fixed10: "length (fixed10 (sint (v :: i16))) \<le> 7"
proof -
  have "nat (\<bar>sint v\<bar> mod 10) < 10" by simp
  then show ?thesis
    using length_signed_whole [of 10 v] length_digit [of "nat (\<bar>sint v\<bar> mod 10)"] by (simp add: fixed10_def)
qed

lemma length_fixed100: "length (fixed100 (sint (v :: i16))) \<le> 8"
  using length_signed_whole [of 100 v] length_cents [of v] by (simp add: fixed100_def)

lemma frame_line_length: "length (frame_line f) \<le> 180"
proof -
  have d: "length (udigits 10 (unat (v :: u16) mod 10)) \<le> 1" for v
    by (rule length_digit) simp
  have r: "length (udigits 10 (unat (v :: u16))) \<le> 5" for v
    using length_udigits_16 [of v 1] by simp
  show ?thesis
    using length_udigits_32 [of "f_sequence f"] length_udigits_32 [of "f_tick f"]
      length_fixed10 [of "f_temperature_c_x10 f"] length_fixed100 [of "f_accel_x_x100 f"]
      length_fixed100 [of "f_accel_y_x100 f"] length_fixed100 [of "f_accel_z_x100 f"]
      length_udigits_16 [of "f_speed_kmh_x10 f" 10] d [of "f_speed_kmh_x10 f"] r [of "f_rpm f"]
      length_udigits_16 [of "f_throttle_pct_x10 f" 10] d [of "f_throttle_pct_x10 f"]
    by (simp add: frame_line_def)
qed

lemma nul_free_fixed: "nul_free (fixed10 v)" "nul_free (fixed100 v)"
  by (simp_all add: fixed10_def fixed100_def nul_free_signed_text nul_free_unsigned_text)

lemma nul_free_frame_line: "nul_free (frame_line f)"
  by (simp add: frame_line_def nul_free_fixed)

text \<open>The value a printed acceleration shows, and when two values print alike.\<close>

lemma fixed100_sign_lost: "0 < v \<Longrightarrow> v < 100 \<Longrightarrow> fixed100 (- v) = fixed100 v"
  by (simp add: fixed100_def sdiv_nonneg sdiv_neg signed_divide_int_def)

definition decode100 :: "string \<Rightarrow> int" where
  "decode100 s =
     (let a = takeWhile (\<lambda>c. c \<noteq> CHR ''.'') s; b = tl (dropWhile (\<lambda>c. c \<noteq> CHR ''.'') s) in
      if peek a = CHR ''-'' then - int (value_of 10 (tl a) * 100 + value_of 10 b)
      else int (value_of 10 a * 100 + value_of 10 b))"

definition dec_digits :: "string \<Rightarrow> bool" where
  "dec_digits s \<longleftrightarrow> list_all is_digit s"

lemma is_digit_char: "d < 10 \<Longrightarrow> is_digit (digit_char d)"
  by (simp add: is_digit_def digit_char_def)

lemma dec_digits_udigits: "dec_digits (udigits 10 n)"
proof (induction n rule: less_induct)
  case (less n)
  show ?case
  proof (cases "n < 10")
    case True
    then show ?thesis by (simp add: dec_digits_def udigits.simps [of 10 n] is_digit_char)
  next
    case False
    then have "dec_digits (udigits 10 (n div 10))" using less by simp
    with False show ?thesis by (simp add: dec_digits_def udigits.simps [of 10 n] is_digit_char)
  qed
qed

lemma dec_digits_unsigned: "dec_digits (unsigned_text w True 10 n)"
  using dec_digits_udigits [of n]
  by (auto simp: unsigned_text_def pad_left_def dec_digits_def list_all_iff is_digit_def
      set_replicate_conv_if split: if_splits)

lemma dec_digits_no:
  assumes "dec_digits s" and "c \<in> set s"
  shows "c \<noteq> CHR ''.''" and "c \<noteq> CHR ''-''"
  using assms by (auto simp: dec_digits_def list_all_iff is_digit_def)

lemma value_of_unsigned_text: "value_of 10 (unsigned_text w True 10 n) = n"
proof -
  have "foldl (\<lambda>v c. v * 10 + digit_value c) 0 (replicate k CHR ''0'') = 0" for k
    by (induction k) (simp_all add: digit_value_def)
  then show ?thesis
    using value_of_udigits_10 [of n] by (simp add: unsigned_text_def pad_left_def value_of_def)
qed

lemma split_at_point:
  assumes "\<forall>c \<in> set a. c \<noteq> CHR ''.''"
  shows "takeWhile (\<lambda>c. c \<noteq> CHR ''.'') (a @ CHR ''.'' # b) = a"
    and "dropWhile (\<lambda>c. c \<noteq> CHR ''.'') (a @ CHR ''.'' # b) = CHR ''.'' # b"
  using assms by (simp_all add: takeWhile_append dropWhile_append)

lemma peek_dec_digits: "dec_digits s \<Longrightarrow> peek s \<noteq> CHR ''-''"
  using dec_digits_no(2) [of s "peek s"] by (cases s) auto

lemma decode_pair:
  assumes "dec_digits a" and "dec_digits b"
  shows "decode100 (a @ CHR ''.'' # b) = int (value_of 10 a * 100 + value_of 10 b)"
    and "decode100 (CHR ''-'' # a @ CHR ''.'' # b) = - int (value_of 10 a * 100 + value_of 10 b)"
  using split_at_point [of a b] split_at_point [of "CHR ''-'' # a" b] dec_digits_no(1) [OF assms(1)]
    peek_dec_digits [OF assms(1)]
  by (simp_all add: decode100_def Let_def)

lemma nat_div_mod_100: "0 \<le> x \<Longrightarrow> int (nat (x div 100) * 100 + nat (x mod 100)) = x"
  by (simp add: pos_imp_zdiv_nonneg_iff)

lemma decode_fixed100: "decode100 (fixed100 v) = (if - 100 < v \<and> v < 0 then - v else v)"
proof (cases "v \<le> - 100")
  case True
  then have neg: "v sdiv 100 < 0" and e: "- (v sdiv 100) = (- v) div 100" "\<bar>v\<bar> = - v"
    by (simp_all add: sdiv_neg pos_imp_zdiv_pos_iff)
  have "decode100 (fixed100 v) =
      - int (value_of 10 (udigits 10 (nat ((- v) div 100))) * 100 + nat ((- v) mod 100))"
    using decode_pair(2) [OF dec_digits_udigits dec_digits_unsigned] neg
    by (simp add: fixed100_def signed_text_def e value_of_unsigned_text)
  also have "\<dots> = v"
    using True nat_div_mod_100 [of "- v"] by (simp only: value_of_udigits_10)
  finally show ?thesis using True by simp
next
  case False
  then have e: "v sdiv 100 = (if v < 0 then 0 else v div 100)"
    by (auto simp: sdiv_nonneg sdiv_neg)
  have nn: "0 \<le> v sdiv 100" by (simp add: e pos_imp_zdiv_nonneg_iff)
  have "decode100 (fixed100 v) =
      int (value_of 10 (udigits 10 (nat (v sdiv 100))) * 100 + nat (\<bar>v\<bar> mod 100))"
    using decode_pair(1) [OF dec_digits_udigits dec_digits_unsigned] nn
    by (simp add: fixed100_def signed_text_def value_of_unsigned_text)
  then show ?thesis
    using False by (cases "v < 0") (simp_all add: value_of_udigits_10 e pos_imp_zdiv_nonneg_iff)
qed

lemma accel_render:
  "render ''%d.%02d'' [whole_arg v 100, cents_arg v] = Inr (fixed100 (sint v))"
  by (simp add: render_simps render_whole render_cents fixed100_def)

lemma frame_bounds:
  "let f = prvProcessSample tick' (prvMakeSample mode tick seq) in
     if mode = FAULT_SENSOR
     then f_rpm f = 2735 \<and> f_throttle_pct_x10 f = 330 \<and> f_speed_kmh_x10 f = 840 \<and> \<not> f_valid f
     else f_valid f \<and> uint (f_rpm f) \<in> {1114..1519} \<and> uint (f_throttle_pct_x10 f) \<in> {136..189}
       \<and> uint (f_speed_kmh_x10 f) \<in> {66..278}"
proof (cases "mode = FAULT_SENSOR")
  case True
  then show ?thesis
    by (simp add: prvMakeSample_def prvProcessSample_def prvAccelMagnitude_def Let_def sdiv_nonneg)
next
  case False
  let ?s = "prvMakeSample mode tick seq" and ?m = "uint (prvAccelMagnitude (prvMakeSample mode tick seq))"
  note n = make_sample_nominal [OF False, of tick seq]
  have "100 \<le> \<bar>sint (s_accel_x_x100 ?s)\<bar> + \<bar>sint (s_accel_y_x100 ?s)\<bar> + \<bar>sint (s_accel_z_x100 ?s)\<bar>"
    and "\<bar>sint (s_accel_x_x100 ?s)\<bar> + \<bar>sint (s_accel_y_x100 ?s)\<bar> + \<bar>sint (s_accel_z_x100 ?s)\<bar> \<le> 419"
    using n by linarith+
  then have m: "33 \<le> ?m" "?m \<le> 139"
    unfolding magnitude_int by linarith+
  have t: "630 \<le> sint (s_temperature_c_x10 ?s)" "sint (s_temperature_c_x10 ?s) \<le> 804"
    using pos_mod_bound [of 30 "uint seq"] unfolding n(1) by simp_all
  have h: "315 \<le> sint (s_temperature_c_x10 ?s) div 2" "sint (s_temperature_c_x10 ?s) div 2 \<le> 402"
    "16 \<le> ?m div 2" "?m div 2 \<le> 69"
    using m t by linarith+
  show ?thesis
    using False m t h by (simp add: Let_def process_rpm process_throttle process_speed)
      (simp add: prvProcessSample_def make_sample_fields Let_def)
qed

lemma print_frame_eq:
  assumes "length g = 256"
  shows "prvPrintFrame m fd g f = Inr (console_ops m fd (frame_line f))"
proof -
  have "take 255 (frame_line f) = frame_line f" using frame_line_length [of f] by simp
  moreover have "frame_line f \<noteq> []" by (simp add: frame_line_def)
  ultimately show ?thesis
    using console_writef_eq [OF assms frame_render _ nul_free_frame_line, of f m fd]
    by (simp add: prvPrintFrame_def)
qed

subsection \<open>Properties\<close>

text \<open>A sample made in any mode but the sensor fault is valid, carries its sequence number and tick, and
  has a temperature of 63.0 to 80.4 degrees fixed by the sequence number modulo 30, accelerations
  of -1.28 to 1.27 on two axes and 1.00 to 1.63 on the third: the casts to 16 bits lose nothing.\<close>

theorem make_sample_ranges:
  assumes "mode \<noteq> FAULT_SENSOR"
  shows "let s = prvMakeSample mode tick seq in
      s_valid s \<and> s_sequence s = seq \<and> s_tick s = tick
    \<and> sint (s_temperature_c_x10 s) = 630 + 6 * (uint seq mod 30)
    \<and> sint (s_accel_x_x100 s) \<in> {- 128..127} \<and> sint (s_accel_y_x100 s) \<in> {- 128..127}
    \<and> sint (s_accel_z_x100 s) \<in> {100..163}"
  using assms make_sample_nominal [OF assms, of tick seq]
  by (simp add: Let_def make_sample_fields)

theorem make_sample_ranges_witness:
  "sint (s_temperature_c_x10 (prvMakeSample FAULT_STALL 0 1)) = 636"
  using make_sample_ranges [of FAULT_STALL 0 1] by (simp add: Let_def)

text \<open>What the processing computes from any sample whatever: the magnitude is the mean of the three
  absolute accelerations; the engine speed is the integer formula modulo 65536, with the
  temperature halved rounding down even when it is negative (the unsigned division of the
  sign-extended value agrees with it modulo 65536); throttle is capped at 1000 and speed at 2500;
  every other field is copied.\<close>

theorem process_sample_values:
  "let f = prvProcessSample tick s; m = uint (prvAccelMagnitude s) in
      m = (\<bar>sint (s_accel_x_x100 s)\<bar> + \<bar>sint (s_accel_y_x100 s)\<bar> + \<bar>sint (s_accel_z_x100 s)\<bar>) div 3
    \<and> uint (f_rpm f) = (700 + sint (s_temperature_c_x10 s) div 2 + 3 * m) mod 65536
    \<and> uint (f_throttle_pct_x10 f) = min 1000 (120 + m div 2)
    \<and> uint (f_speed_kmh_x10 f) = min 2500 (2 * m mod 65536)
    \<and> f_sequence f = s_sequence s \<and> f_valid f = s_valid s \<and> f_tick f = tick
    \<and> f_temperature_c_x10 f = s_temperature_c_x10 s \<and> f_accel_x_x100 f = s_accel_x_x100 s
    \<and> f_accel_y_x100 f = s_accel_y_x100 s \<and> f_accel_z_x100 f = s_accel_z_x100 s"
  unfolding Let_def process_rpm process_throttle process_speed magnitude_int
  by (simp add: prvProcessSample_def Let_def)

text \<open>Every frame the pipeline derives from a generated sample stays clear of the caps and of 16-bit
  wrap-around: outside the sensor fault engine speed is 1114 to 1519, throttle 13.6 to 18.9 percent
  and speed 6.6 to 27.8 km/h; under the sensor fault the frame is the fixed sentinel with engine
  speed 2735, throttle 33.0 percent and speed 84.0 km/h, marked invalid.\<close>

theorem generated_frame_bounds:
  "let f = prvProcessSample tick' (prvMakeSample mode tick seq) in
     if mode = FAULT_SENSOR
     then f_rpm f = 2735 \<and> f_throttle_pct_x10 f = 330 \<and> f_speed_kmh_x10 f = 840 \<and> \<not> f_valid f
     else f_valid f \<and> uint (f_rpm f) \<in> {1114..1519} \<and> uint (f_throttle_pct_x10 f) \<in> {136..189}
       \<and> uint (f_speed_kmh_x10 f) \<in> {66..278}"
  by (rule frame_bounds)

text \<open>The logger writes the whole line of a frame, for every frame and whatever the console buffer
  held: no field is out of the range of its conversion, no argument is of the wrong type, and the
  line is at most 180 characters, so the 256-byte buffer never cuts it.\<close>

theorem print_frame_line:
  "length g = 256 \<Longrightarrow> prvPrintFrame m fd g f = Inr (console_ops m fd (frame_line f))
    \<and> length (frame_line f) \<le> 180"
  by (simp add: print_frame_eq frame_line_length)

theorem print_frame_line_witness:
  "prvPrintFrame True (- 1) (replicate 256 CHR ''x'') zero_frame =
     Inr (console_ops True (- 1) (frame_line zero_frame))"
  using print_frame_line [of "replicate 256 CHR ''x''" True "- 1" zero_frame] by simp

text \<open>The printed acceleration reads back as the value, for every 16-bit value except those strictly
  between -1.00 and 0, which read back as their absolute value: the minus sign is lost because the
  whole part is 0.\<close>

theorem accel_text_value:
  "\<exists>t. render ''%d.%02d'' [whole_arg v 100, cents_arg v] = Inr t
    \<and> decode100 t = (if - 100 < sint v \<and> sint v < 0 then - sint v else sint v)"
  by (simp add: accel_render decode_fixed100)

text \<open>Two frames that differ only in the sign of an acceleration of less than 1.00 print the same line,
  so the log cannot tell them apart.\<close>

theorem accel_sign_lost:
  assumes "0 < v" and "v < 100"
  shows "prvPrintFrame m fd g (f\<lparr>f_accel_x_x100 := word_of_int (- v)\<rparr>)
    = prvPrintFrame m fd g (f\<lparr>f_accel_x_x100 := word_of_int v\<rparr>)"
proof -
  have s: "sint (word_of_int v :: i16) = v" "sint (word_of_int (- v) :: i16) = - v"
    using assms by (simp_all only: sint_word_of_int_16 [of v] sint_word_of_int_16 [of "- v"])
  have "render frame_fmt (frame_args (f\<lparr>f_accel_x_x100 := word_of_int (- v)\<rparr>))
      = render frame_fmt (frame_args (f\<lparr>f_accel_x_x100 := word_of_int v\<rparr>))"
    using fixed100_sign_lost [OF assms] s
    by (simp add: frame_render frame_line_def del: of_int_minus)
  then show ?thesis
    by (simp add: prvPrintFrame_def console_writef_def writef_loop_render)
qed

theorem accel_sign_lost_witness:
  "prvPrintFrame True (- 1) (replicate 256 CHR ''x'') (zero_frame\<lparr>f_accel_x_x100 := word_of_int (- 7)\<rparr>)
    = prvPrintFrame True (- 1) (replicate 256 CHR ''x'') (zero_frame\<lparr>f_accel_x_x100 := word_of_int 7\<rparr>)"
  using accel_sign_lost [of 7 True "- 1" "replicate 256 CHR ''x''" zero_frame] by simp

end
