(* ===== verification/FwTasks.thy ===== *)
theory FwTasks
  imports Rtos FwSignal
begin

unbundle bit_operations_syntax

text \<open>
  The concurrent part of \<open>firmware/src/main.c\<close>: the global state, the critical sections on the
  statistics, the timer callback and the sensor, processor, logger and watchdog tasks. A task is
  its control point (a constructor for each place where it may be preempted between two accesses to
  shared state, with the locals that are live there) and a step function, which performs one kernel
  call, one critical section or one print. \<open>None\<close> is a task that is blocked. The diagnostics task
  and the interleaving of all the tasks are in theory FwSystem.
\<close>

subsection \<open>State\<close>

datatype task = Main | Sensor | Processor | Logger | Watchdog | Diagnostics

text \<open>The sensor task makes one sample per kick, or the three of a burst (\<open>Burst 0\<close> to \<open>Burst 2\<close>).\<close>

datatype batch = Single | Burst nat

datatype sensor_pc =
    S_Take
  | S_Count
  | S_Beat
  | S_Mode
  | S_Make batch
  | S_Tick batch FaultMode
  | S_Send batch SensorSample
  | S_Update batch SensorSample
  | S_Drop batch

datatype processor_pc =
    P_Receive
  | P_Count SensorSample
  | P_Beat SensorSample
  | P_Invalid SensorSample
  | P_Mode SensorSample
  | P_Stall SensorSample
  | P_Delay u32 SensorSample
  | P_Process SensorSample
  | P_Send TelemetryFrame
  | P_Update TelemetryFrame
  | P_Drop

datatype logger_pc =
    L_Receive
  | L_Count TelemetryFrame
  | L_Beat TelemetryFrame
  | L_Print TelemetryFrame

text \<open>The watchdog prints its counters without the lock, so each is read in a step of its own.\<close>

datatype watchdog_pc =
    W_Wait
  | W_Read1
  | W_Read2 u32
  | W_Read3 u32 u32
  | W_Healthy u32 u32 u32
  | W_Count u32
  | W_Warn u32

text \<open>
  \<open>printed\<close> is what went out so far: for each console call, the task that made it and what the
  formatter did. The members from \<open>sensor_pc\<close> on are the tasks' locals.
\<close>

record ('sq, 'tq, 'eg, 'sem) fw =
  xStats :: AppStats
  xSensorQueue :: 'sq
  xTelemetryQueue :: 'tq
  heartbeat_events :: 'eg
  sensor_kick :: 'sem
  state_mutex :: 'sem
  xConsoleMutex :: bool
  xLogFd :: int
  xTickCount :: u32
  printed :: "(task \<times> (c_ub + console_op list)) list"
  sensor_sequence :: u32
  sensor_pc :: sensor_pc
  processor_pc :: processor_pc
  logger_pc :: logger_pc
  watchdog_pc :: watchdog_pc

definition EVT_SENSOR :: u32 where "EVT_SENSOR = 1"
definition EVT_PROCESSOR :: u32 where "EVT_PROCESSOR = 2"
definition EVT_LOGGER :: u32 where "EVT_LOGGER = 4"
definition EVT_ALL :: u32 where "EVT_ALL = EVT_SENSOR OR EVT_PROCESSOR OR EVT_LOGGER"

lemma EVT_ALL_7 [simp]: "EVT_ALL = 7"
  by (simp add: EVT_ALL_def EVT_SENSOR_def EVT_PROCESSOR_def EVT_LOGGER_def)

subsection \<open>Critical sections\<close>

definition prvSnapshotLock :: "('sq, 'tq, 'eg, 'sem) rtos \<Rightarrow> ('sq, 'tq, 'eg, 'sem, 'z) fw_scheme \<Rightarrow>
    ('sq, 'tq, 'eg, 'sem, 'z) fw_scheme option" where
  "prvSnapshotLock K s = map_option (\<lambda>m. s\<lparr>state_mutex := m\<rparr>) (xSemaphoreTake K (state_mutex s))"

definition prvSnapshotUnlock :: "('sq, 'tq, 'eg, 'sem) rtos \<Rightarrow> ('sq, 'tq, 'eg, 'sem, 'z) fw_scheme \<Rightarrow>
    ('sq, 'tq, 'eg, 'sem, 'z) fw_scheme" where
  "prvSnapshotUnlock K s = s\<lparr>state_mutex := xSemaphoreGive K (state_mutex s)\<rparr>"

text \<open>One critical section: the lock, the accesses to the statistics, the unlock.\<close>

definition locked :: "('sq, 'tq, 'eg, 'sem) rtos \<Rightarrow> (AppStats \<Rightarrow> AppStats) \<Rightarrow>
    ('sq, 'tq, 'eg, 'sem, 'z) fw_scheme \<Rightarrow> ('sq, 'tq, 'eg, 'sem, 'z) fw_scheme option" where
  "locked K body s =
     map_option (\<lambda>s. prvSnapshotUnlock K (s\<lparr>xStats := body (xStats s)\<rparr>)) (prvSnapshotLock K s)"

definition prvGetFaultMode :: "('sq, 'tq, 'eg, 'sem) rtos \<Rightarrow> ('sq, 'tq, 'eg, 'sem, 'z) fw_scheme \<Rightarrow>
    (FaultMode \<times> ('sq, 'tq, 'eg, 'sem, 'z) fw_scheme) option" where
  "prvGetFaultMode K s =
     map_option (\<lambda>s. let mode = fault_mode (xStats s) in (mode, prvSnapshotUnlock K s))
       (prvSnapshotLock K s)"

text \<open>The pointer argument of \<open>prvIncrementCounter\<close> is the update function of that member.\<close>

definition prvIncrementCounter :: "('sq, 'tq, 'eg, 'sem) rtos \<Rightarrow>
    ((u32 \<Rightarrow> u32) \<Rightarrow> AppStats \<Rightarrow> AppStats) \<Rightarrow> ('sq, 'tq, 'eg, 'sem, 'z) fw_scheme \<Rightarrow>
    ('sq, 'tq, 'eg, 'sem, 'z) fw_scheme option" where
  "prvIncrementCounter K counter = locked K (counter (\<lambda>n. n + 1))"

definition prvUpdateStatsFromSample :: "('sq, 'tq, 'eg, 'sem) rtos \<Rightarrow> SensorSample \<Rightarrow>
    ('sq, 'tq, 'eg, 'sem, 'z) fw_scheme \<Rightarrow> ('sq, 'tq, 'eg, 'sem, 'z) fw_scheme option" where
  "prvUpdateStatsFromSample K sample =
     locked K (\<lambda>st. st\<lparr>sensor_samples := sensor_samples st + 1, last_sample := sample\<rparr>)"

definition prvUpdateStatsFromFrame :: "('sq, 'tq, 'eg, 'sem) rtos \<Rightarrow> TelemetryFrame \<Rightarrow>
    ('sq, 'tq, 'eg, 'sem, 'z) fw_scheme \<Rightarrow> ('sq, 'tq, 'eg, 'sem, 'z) fw_scheme option" where
  "prvUpdateStatsFromFrame K frame =
     locked K (\<lambda>st. st\<lparr>telemetry_frames := telemetry_frames st + 1, last_frame := frame\<rparr>)"

definition prvIncrementDrop :: "('sq, 'tq, 'eg, 'sem) rtos \<Rightarrow> bool \<Rightarrow>
    ('sq, 'tq, 'eg, 'sem, 'z) fw_scheme \<Rightarrow> ('sq, 'tq, 'eg, 'sem, 'z) fw_scheme option" where
  "prvIncrementDrop K sensor_queue =
     locked K (\<lambda>st. if sensor_queue then st\<lparr>sensor_drops := sensor_drops st + 1\<rparr>
                    else st\<lparr>telemetry_drops := telemetry_drops st + 1\<rparr>)"

text \<open>The second half of \<open>prvRecordHeartbeat\<close>, after the counter.\<close>

definition set_heartbeat :: "('sq, 'tq, 'eg, 'sem) rtos \<Rightarrow> u32 \<Rightarrow>
    ('sq, 'tq, 'eg, 'sem, 'z) fw_scheme \<Rightarrow> ('sq, 'tq, 'eg, 'sem, 'z) fw_scheme" where
  "set_heartbeat K evt s = s\<lparr>heartbeat_events := xEventGroupSetBits K (heartbeat_events s) evt\<rparr>"

definition prvSensorTimerCallback :: "('sq, 'tq, 'eg, 'sem) rtos \<Rightarrow>
    ('sq, 'tq, 'eg, 'sem, 'z) fw_scheme \<Rightarrow> ('sq, 'tq, 'eg, 'sem, 'z) fw_scheme" where
  "prvSensorTimerCallback K s = s\<lparr>sensor_kick := xSemaphoreGive K (sensor_kick s)\<rparr>"

text \<open>A console call of task \<open>t\<close>; \<open>garbage\<close> is what the formatter's stack buffer held.\<close>

definition print_text :: "task \<Rightarrow> (bool \<Rightarrow> int \<Rightarrow> c_ub + console_op list) \<Rightarrow>
    ('sq, 'tq, 'eg, 'sem, 'z) fw_scheme \<Rightarrow> ('sq, 'tq, 'eg, 'sem, 'z) fw_scheme" where
  "print_text t r s = s\<lparr>printed := printed s @ [(t, r (xConsoleMutex s) (xLogFd s))]\<rparr>"

subsection \<open>The sensor task\<close>

text \<open>The end of the loop body of a burst and of the single sample.\<close>

fun sensor_next :: "batch \<Rightarrow> sensor_pc" where
  "sensor_next Single = S_Take"
| "sensor_next (Burst burst) = (if burst + 1 < 3 then S_Make (Burst (burst + 1)) else S_Take)"

definition prvSensorTask :: "('sq, 'tq, 'eg, 'sem) rtos \<Rightarrow> ('sq, 'tq, 'eg, 'sem, 'z) fw_scheme \<Rightarrow>
    ('sq, 'tq, 'eg, 'sem, 'z) fw_scheme option" where
  "prvSensorTask K s =
     (case sensor_pc s of
        S_Take \<Rightarrow>
          map_option (\<lambda>m. s\<lparr>sensor_kick := m, sensor_pc := S_Count\<rparr>) (xSemaphoreTake K (sensor_kick s))
      | S_Count \<Rightarrow>
          map_option (\<lambda>s. s\<lparr>sensor_pc := S_Beat\<rparr>) (prvIncrementCounter K task_sensor_beats_update s)
      | S_Beat \<Rightarrow> Some ((set_heartbeat K EVT_SENSOR s)\<lparr>sensor_pc := S_Mode\<rparr>)
      | S_Mode \<Rightarrow>
          map_option (\<lambda>(mode, s). s\<lparr>sensor_pc := S_Make (if mode = FAULT_OVERFLOW then Burst 0 else Single)\<rparr>)
            (prvGetFaultMode K s)
      | S_Make b \<Rightarrow>
          map_option (\<lambda>(mode, s). s\<lparr>sensor_pc := S_Tick b mode\<rparr>)
            (prvGetFaultMode K (s\<lparr>sensor_sequence := sensor_sequence s + 1\<rparr>))
      | S_Tick b mode \<Rightarrow>
          Some (s\<lparr>sensor_pc := S_Send b (prvMakeSample mode (xTickCount s) (sensor_sequence s))\<rparr>)
      | S_Send b sample \<Rightarrow>
          (let (ok, q) = xQueueSend (sensor_api K) (xSensorQueue s) sample
           in Some (s\<lparr>xSensorQueue := q, sensor_pc := if ok then S_Update b sample else S_Drop b\<rparr>))
      | S_Update b sample \<Rightarrow>
          map_option (\<lambda>s. s\<lparr>sensor_pc := sensor_next b\<rparr>) (prvUpdateStatsFromSample K sample s)
      | S_Drop b \<Rightarrow>
          map_option (\<lambda>s. s\<lparr>sensor_pc := sensor_next b\<rparr>) (prvIncrementDrop K True s))"

subsection \<open>The processor task\<close>

definition stall_fmt :: string where
  "stall_fmt = ''[processor] forced stall at sample %lu'' @ [CHR 0x0A]"

text \<open>
  \<open>vTaskDelay(450)\<close> is a wait of its own, after which the task goes on. \<open>prvProcessSample\<close> reads
  the tick and nothing else that is shared.
\<close>

definition prvProcessorTask :: "('sq, 'tq, 'eg, 'sem) rtos \<Rightarrow> string \<Rightarrow>
    ('sq, 'tq, 'eg, 'sem, 'z) fw_scheme \<Rightarrow> ('sq, 'tq, 'eg, 'sem, 'z) fw_scheme option" where
  "prvProcessorTask K garbage s =
     (case processor_pc s of
        P_Receive \<Rightarrow>
          map_option (\<lambda>(sample, q). s\<lparr>xSensorQueue := q, processor_pc := P_Count sample\<rparr>)
            (xQueueReceive (sensor_api K) (xSensorQueue s))
      | P_Count sample \<Rightarrow>
          map_option (\<lambda>s. s\<lparr>processor_pc := P_Beat sample\<rparr>)
            (prvIncrementCounter K task_processor_beats_update s)
      | P_Beat sample \<Rightarrow>
          Some ((set_heartbeat K EVT_PROCESSOR s)
                \<lparr>processor_pc := if \<not> s_valid sample then P_Invalid sample else P_Mode sample\<rparr>)
      | P_Invalid sample \<Rightarrow>
          map_option (\<lambda>s. s\<lparr>processor_pc := P_Mode sample\<rparr>)
            (prvIncrementCounter K sensor_faults_update s)
      | P_Mode sample \<Rightarrow>
          map_option (\<lambda>(mode, s). s\<lparr>processor_pc :=
              if mode = FAULT_STALL \<and> s_sequence sample mod 6 = 0 then P_Stall sample
              else P_Process sample\<rparr>)
            (prvGetFaultMode K s)
      | P_Stall sample \<Rightarrow>
          Some ((print_text Processor
                   (\<lambda>m fd. console_writef m fd garbage stall_fmt [VULong (s_sequence sample)]) s)
                \<lparr>processor_pc := P_Delay 450 sample\<rparr>)
      | P_Delay ticks sample \<Rightarrow> Some (s\<lparr>processor_pc := P_Process sample\<rparr>)
      | P_Process sample \<Rightarrow> Some (s\<lparr>processor_pc := P_Send (prvProcessSample (xTickCount s) sample)\<rparr>)
      | P_Send frame \<Rightarrow>
          (let (ok, q) = xQueueSend (telemetry_api K) (xTelemetryQueue s) frame
           in Some (s\<lparr>xTelemetryQueue := q, processor_pc := if ok then P_Update frame else P_Drop\<rparr>))
      | P_Update frame \<Rightarrow>
          map_option (\<lambda>s. s\<lparr>processor_pc := P_Receive\<rparr>) (prvUpdateStatsFromFrame K frame s)
      | P_Drop \<Rightarrow>
          map_option (\<lambda>s. s\<lparr>processor_pc := P_Receive\<rparr>) (prvIncrementDrop K False s))"

subsection \<open>The logger task\<close>

definition prvLoggerTask :: "('sq, 'tq, 'eg, 'sem) rtos \<Rightarrow> string \<Rightarrow>
    ('sq, 'tq, 'eg, 'sem, 'z) fw_scheme \<Rightarrow> ('sq, 'tq, 'eg, 'sem, 'z) fw_scheme option" where
  "prvLoggerTask K garbage s =
     (case logger_pc s of
        L_Receive \<Rightarrow>
          map_option (\<lambda>(frame, q). s\<lparr>xTelemetryQueue := q, logger_pc := L_Count frame\<rparr>)
            (xQueueReceive (telemetry_api K) (xTelemetryQueue s))
      | L_Count frame \<Rightarrow>
          map_option (\<lambda>s. s\<lparr>logger_pc := L_Beat frame\<rparr>) (prvIncrementCounter K task_logger_beats_update s)
      | L_Beat frame \<Rightarrow> Some ((set_heartbeat K EVT_LOGGER s)\<lparr>logger_pc := L_Print frame\<rparr>)
      | L_Print frame \<Rightarrow>
          Some ((print_text Logger (\<lambda>m fd. prvPrintFrame m fd garbage frame) s)\<lparr>logger_pc := L_Receive\<rparr>))"

subsection \<open>The watchdog task\<close>

definition healthy_fmt :: string where
  "healthy_fmt = ''[watchdog] healthy: sensor=%lu processor=%lu logger=%lu'' @ [CHR 0x0A]"

definition warning_fmt :: string where
  "warning_fmt = ''[watchdog] warning bits=0x%lx'' @ [CHR 0x0A]"

text \<open>\<open>expired\<close> says whether the 1000 ticks of the wait are over.\<close>

definition prvWatchdogTask :: "('sq, 'tq, 'eg, 'sem) rtos \<Rightarrow> bool \<Rightarrow> string \<Rightarrow>
    ('sq, 'tq, 'eg, 'sem, 'z) fw_scheme \<Rightarrow> ('sq, 'tq, 'eg, 'sem, 'z) fw_scheme option" where
  "prvWatchdogTask K expired garbage s =
     (case watchdog_pc s of
        W_Wait \<Rightarrow>
          map_option (\<lambda>(bits, e). s\<lparr>heartbeat_events := e,
              watchdog_pc := if bits = EVT_ALL then W_Read1 else W_Count bits\<rparr>)
            (xEventGroupWaitBits K (heartbeat_events s) EVT_ALL True True expired)
      | W_Read1 \<Rightarrow> Some (s\<lparr>watchdog_pc := W_Read2 (task_sensor_beats (xStats s))\<rparr>)
      | W_Read2 a \<Rightarrow> Some (s\<lparr>watchdog_pc := W_Read3 a (task_processor_beats (xStats s))\<rparr>)
      | W_Read3 a b \<Rightarrow> Some (s\<lparr>watchdog_pc := W_Healthy a b (task_logger_beats (xStats s))\<rparr>)
      | W_Healthy a b c \<Rightarrow>
          Some ((print_text Watchdog
                   (\<lambda>m fd. console_writef m fd garbage healthy_fmt [VULong a, VULong b, VULong c]) s)
                \<lparr>watchdog_pc := W_Wait\<rparr>)
      | W_Count bits \<Rightarrow>
          map_option (\<lambda>s. s\<lparr>watchdog_pc := W_Warn bits\<rparr>)
            (prvIncrementCounter K watchdog_warnings_update s)
      | W_Warn bits \<Rightarrow>
          Some ((print_text Watchdog (\<lambda>m fd. console_writef m fd garbage warning_fmt [VULong bits]) s)
                \<lparr>watchdog_pc := W_Wait\<rparr>))"

end
