(* ===== verification/FwDiag.thy ===== *)
theory FwDiag
  imports FwTasks
begin

unbundle bit_operations_syntax

text \<open>
  The diagnostics task of \<open>firmware/src/main.c\<close>: the command handler and the scripted self-test.
  The task is straight-line code, so it is the list of what it still has to do, one \<open>action\<close> for
  each access to shared state, console call or kernel call; \<open>prvHandleCommand\<close> gives the actions of
  a command line and \<open>do_action\<close> performs one.
\<close>

subsection \<open>Actions\<close>

text \<open>What the print routines read without the lock, as they evaluate their arguments.\<close>

datatype live =
    Sensor_depth
  | Telemetry_depth
  | Live_sensor_samples
  | Live_telemetry_frames
  | Live_sensor_drops
  | Live_telemetry_drops
  | Stack_mark task

text \<open>The console calls, by routine and position.\<close>

datatype message =
    Status_line nat
  | Tasks_line nat
  | Heap_line nat
  | Stats_line nat
  | Fault_set FaultMode
  | Help
  | Reset_done
  | Unknown

datatype action =
    A_Snapshot
  | A_Read live
  | A_Print message
  | A_SetFault FaultMode
  | A_ResetStats
  | A_ResetSensorQueue
  | A_ResetTelemetryQueue
  | A_ClearHeartbeats
  | A_LogWrite string
  | A_Open
  | A_Close
  | A_Delay u32
  | A_Exit int

datatype console_line = Writef string "va list" | Writeln string

definition nl :: "string \<Rightarrow> string" where "nl s = s @ [CHR 0x0A]"

definition yes_no :: "bool \<Rightarrow> va" where
  "yes_no b = VStr (Some (if b then ''yes'' else ''no''))"

definition prvPrintStatus :: "AppStats \<Rightarrow> u32 list \<Rightarrow> console_line list" where
  "prvPrintStatus snapshot reads =
     [Writef (nl ''fault mode: %s'') [VStr (Some (prvFaultName (fault_mode snapshot)))],
      Writef (nl ''samples in: %lu'') [VULong (sensor_samples snapshot)],
      Writef (nl ''frames out: %lu'') [VULong (telemetry_frames snapshot)],
      Writef (nl ''sensor drops: %lu'') [VULong (sensor_drops snapshot)],
      Writef (nl ''telemetry drops: %lu'') [VULong (telemetry_drops snapshot)],
      Writef (nl ''sensor faults: %lu'') [VULong (sensor_faults snapshot)],
      Writef (nl ''watchdog warnings: %lu'') [VULong (watchdog_warnings snapshot)],
      Writef (nl ''queue depth: sensor=%u telemetry=%u'') (map VUInt reads),
      Writef (nl ''latest sample: seq=%lu temp=%d.%dC ax=%d ay=%d az=%d valid=%s'')
        (let sample = last_sample snapshot in
         [VULong (s_sequence sample),
          whole_arg (s_temperature_c_x10 sample) 10, tenths_arg (s_temperature_c_x10 sample),
          VInt (scast (s_accel_x_x100 sample)), VInt (scast (s_accel_y_x100 sample)),
          VInt (scast (s_accel_z_x100 sample)), yes_no (s_valid sample)]),
      Writef (nl ''latest frame: seq=%lu rpm=%u thr=%u.%u%% spd=%u.%u valid=%s'')
        (let frame = last_frame snapshot in
         [VULong (f_sequence frame), VUInt (ucast (f_rpm frame)),
          VUInt (ucast (f_throttle_pct_x10 frame) div 10), VUInt (ucast (f_throttle_pct_x10 frame) mod 10),
          VUInt (ucast (f_speed_kmh_x10 frame) div 10), VUInt (ucast (f_speed_kmh_x10 frame) mod 10),
          yes_no (f_valid frame)])]"

definition prvPrintTasks :: "AppStats \<Rightarrow> u32 list \<Rightarrow> console_line list" where
  "prvPrintTasks snapshot reads =
     [Writef (nl ''sensor beats=%lu stack=%u'') (VULong (task_sensor_beats snapshot) # map VUInt reads),
      Writef (nl ''processor beats=%lu stack=%u'') (VULong (task_processor_beats snapshot) # map VUInt reads),
      Writef (nl ''logger beats=%lu stack=%u'') (VULong (task_logger_beats snapshot) # map VUInt reads),
      Writef (nl ''watchdog stack=%u'') (map VUInt reads),
      Writef (nl ''diagnostics stack=%u'') (map VUInt reads)]"

text \<open>\<open>sizes\<close> are the \<open>sizeof\<close> of \<open>xAppObjects\<close>, the five task slots and \<open>xStats\<close>.\<close>

definition prvPrintHeap :: "u32 list \<Rightarrow> console_line list" where
  "prvPrintHeap sizes =
     (let footprint = sum_list sizes in
      [Writef (nl ''static footprint approx %u bytes'') [VUInt footprint],
       Writeln ''dynamic heap is disabled in this firmware build''])"

definition prvPrintStats :: "u32 list \<Rightarrow> console_line list" where
  "prvPrintStats reads =
     [Writef (nl ''sensor queue used=%u / 6'') (map VUInt reads),
      Writef (nl ''telemetry queue used=%u / 6'') (map VUInt reads),
      Writef (nl ''sensor samples=%lu telemetry frames=%lu'') (map VULong reads),
      Writef (nl ''drops sensor=%lu telemetry=%lu'') (map VULong reads)]"

definition help_text :: string where
  "help_text = ''commands: status tasks heap stats fault none fault overflow fault sensor fault stall reset quit''"

fun message_line :: "u32 list \<Rightarrow> AppStats \<Rightarrow> u32 list \<Rightarrow> message \<Rightarrow> console_line" where
  "message_line sizes snapshot reads (Status_line k) = prvPrintStatus snapshot reads ! k"
| "message_line sizes snapshot reads (Tasks_line k) = prvPrintTasks snapshot reads ! k"
| "message_line sizes snapshot reads (Heap_line k) = prvPrintHeap sizes ! k"
| "message_line sizes snapshot reads (Stats_line k) = prvPrintStats reads ! k"
| "message_line sizes snapshot reads (Fault_set mode) =
     Writef (nl ''fault mode set to %s'') [VStr (Some (prvFaultName mode))]"
| "message_line sizes snapshot reads Help = Writeln help_text"
| "message_line sizes snapshot reads Reset_done = Writeln ''state reset''"
| "message_line sizes snapshot reads Unknown = Writeln ''unknown command, type help''"

fun say :: "string \<Rightarrow> console_line \<Rightarrow> bool \<Rightarrow> int \<Rightarrow> c_ub + console_op list" where
  "say garbage (Writef fmt args) m fd = console_writef m fd garbage fmt args"
| "say garbage (Writeln text) m fd = console_writeln m fd garbage (Some text)"

subsection \<open>Commands\<close>

definition status_actions :: "action list" where
  "status_actions =
     A_Snapshot # map (\<lambda>k. A_Print (Status_line k)) [0..<7]
     @ [A_Read Sensor_depth, A_Read Telemetry_depth, A_Print (Status_line 7),
        A_Print (Status_line 8), A_Print (Status_line 9)]"

definition tasks_actions :: "action list" where
  "tasks_actions =
     [A_Snapshot,
      A_Read (Stack_mark Sensor), A_Print (Tasks_line 0),
      A_Read (Stack_mark Processor), A_Print (Tasks_line 1),
      A_Read (Stack_mark Logger), A_Print (Tasks_line 2),
      A_Read (Stack_mark Watchdog), A_Print (Tasks_line 3),
      A_Read (Stack_mark Diagnostics), A_Print (Tasks_line 4)]"

definition stats_actions :: "action list" where
  "stats_actions =
     [A_Read Sensor_depth, A_Print (Stats_line 0),
      A_Read Telemetry_depth, A_Print (Stats_line 1),
      A_Read Live_sensor_samples, A_Read Live_telemetry_frames, A_Print (Stats_line 2),
      A_Read Live_sensor_drops, A_Read Live_telemetry_drops, A_Print (Stats_line 3)]"

definition prvResetStats :: "action list" where
  "prvResetStats = [A_ResetStats, A_ResetSensorQueue, A_ResetTelemetryQueue, A_ClearHeartbeats]"

definition prvSetFault :: "FaultMode \<Rightarrow> action list" where
  "prvSetFault mode = [A_SetFault mode, A_Print (Fault_set mode)]"

text \<open>The loop that lowers the line in place, and the chain of comparisons.\<close>

fun lower_line :: "string \<Rightarrow> string" where
  "lower_line p =
     (if peek p \<noteq> NUL
      then (if (65 :: nat) \<le> of_char (peek p) \<and> (of_char (peek p) :: nat) \<le> 90
            then char_of (of_char (peek p) - 65 + 97 :: nat) else peek p) # lower_line (tl p)
      else p)"

declare lower_line.simps [simp del]

definition prvHandleCommand :: "string \<Rightarrow> action list" where
  "prvHandleCommand line =
     (let line = lower_line line in
      if strcmp line ''help'' = 0 then [A_Print Help]
      else if strcmp line ''status'' = 0 then status_actions
      else if strcmp line ''tasks'' = 0 then tasks_actions
      else if strcmp line ''heap'' = 0 then [A_Print (Heap_line 0), A_Print (Heap_line 1)]
      else if strcmp line ''stats'' = 0 then stats_actions
      else if strcmp line ''reset'' = 0 then prvResetStats @ [A_Print Reset_done]
      else if strcmp line ''fault none'' = 0 then prvSetFault FAULT_NONE
      else if strcmp line ''fault overflow'' = 0 then prvSetFault FAULT_OVERFLOW
      else if strcmp line ''fault sensor'' = 0 then prvSetFault FAULT_SENSOR
      else if strcmp line ''fault stall'' = 0 then prvSetFault FAULT_STALL
      else [A_Print Unknown])"

subsection \<open>The self-test\<close>

definition cmds :: "string list" where
  "cmds = [''status'', ''tasks'', ''heap'', ''stats'', ''help'', ''fault sensor'', ''status'',
     ''fault overflow'', ''stats'', ''fault stall'', ''status'', ''fault none'', ''status'',
     ''reset'', ''status'']"

definition command_actions :: "string \<Rightarrow> action list" where
  "command_actions cmd =
     (let buf = take 31 (up_to_nul cmd) in
      [A_LogWrite ''==> '', A_LogWrite buf, A_LogWrite [CHR 0x0A]]
      @ prvHandleCommand buf @ [A_Delay 100])"

definition self_test :: "action list" where
  "self_test =
     [A_Delay 1500, A_Open, A_LogWrite (nl ''=== SELF-TEST BEGIN ==='')]
     @ concat (map command_actions cmds)
     @ [A_LogWrite (nl ''=== SELF-TEST END ===''), A_Close, A_Exit 0]"

subsection \<open>Performing an action\<close>

record ('sq, 'tq, 'eg, 'sem) sys = "('sq, 'tq, 'eg, 'sem) fw" +
  diag_snapshot :: AppStats
  diag_reads :: "u32 list"
  diag_todo :: "action list"
  exit_status :: "int option"

text \<open>What the kernel and the host answer while an action runs.\<close>

record diag_env =
  stack_marks :: "task \<Rightarrow> u32"
  object_sizes :: "u32 list"
  open_answer :: int
  stack_garbage :: string

fun live_value :: "('sq, 'tq, 'eg, 'sem) rtos \<Rightarrow> diag_env \<Rightarrow> live \<Rightarrow> ('sq, 'tq, 'eg, 'sem) sys \<Rightarrow> u32" where
  "live_value K env Sensor_depth s = of_nat (uxQueueMessagesWaiting (sensor_api K) (xSensorQueue s))"
| "live_value K env Telemetry_depth s = of_nat (uxQueueMessagesWaiting (telemetry_api K) (xTelemetryQueue s))"
| "live_value K env Live_sensor_samples s = sensor_samples (xStats s)"
| "live_value K env Live_telemetry_frames s = telemetry_frames (xStats s)"
| "live_value K env Live_sensor_drops s = sensor_drops (xStats s)"
| "live_value K env Live_telemetry_drops s = telemetry_drops (xStats s)"
| "live_value K env (Stack_mark t) s = stack_marks env t"

definition prvLogWrite :: "string \<Rightarrow> int \<Rightarrow> console_op list" where
  "prvLogWrite line fd =
     Write0 line # (if fd \<ge> 0 then [WriteFd fd line (strlen (Some line))] else [])"

fun do_action :: "('sq, 'tq, 'eg, 'sem) rtos \<Rightarrow> diag_env \<Rightarrow> action \<Rightarrow>
    ('sq, 'tq, 'eg, 'sem) sys \<Rightarrow> ('sq, 'tq, 'eg, 'sem) sys option" where
  "do_action K env A_Snapshot s =
     map_option (\<lambda>s. prvSnapshotUnlock K (s\<lparr>diag_snapshot := xStats s\<rparr>)) (prvSnapshotLock K s)"
| "do_action K env (A_Read v) s = Some (s\<lparr>diag_reads := diag_reads s @ [live_value K env v s]\<rparr>)"
| "do_action K env (A_Print p) s =
     Some ((print_text Diagnostics
              (say (stack_garbage env) (message_line (object_sizes env) (diag_snapshot s) (diag_reads s) p)) s)
           \<lparr>diag_reads := []\<rparr>)"
| "do_action K env (A_SetFault mode) s = locked K (\<lambda>st. st\<lparr>fault_mode := mode\<rparr>) s"
| "do_action K env A_ResetStats s = locked K (\<lambda>st. zero_stats\<lparr>fault_mode := FAULT_NONE\<rparr>) s"
| "do_action K env A_ResetSensorQueue s =
     Some (s\<lparr>xSensorQueue := xQueueReset (sensor_api K) (xSensorQueue s)\<rparr>)"
| "do_action K env A_ResetTelemetryQueue s =
     Some (s\<lparr>xTelemetryQueue := xQueueReset (telemetry_api K) (xTelemetryQueue s)\<rparr>)"
| "do_action K env A_ClearHeartbeats s =
     Some (s\<lparr>heartbeat_events := xEventGroupClearBits K (heartbeat_events s) EVT_ALL\<rparr>)"
| "do_action K env (A_LogWrite line) s = Some (print_text Diagnostics (\<lambda>m fd. Inr (prvLogWrite line fd)) s)"
| "do_action K env A_Open s = Some (s\<lparr>xLogFd := open_answer env\<rparr>)"
| "do_action K env A_Close s =
     Some (print_text Diagnostics (\<lambda>m fd. Inr (if fd \<ge> 0 then [CloseFd fd] else [])) s)"
| "do_action K env (A_Delay ticks) s = Some s"
| "do_action K env (A_Exit status) s = Some (s\<lparr>exit_status := Some status\<rparr>)"

definition prvDiagnosticsTask :: "('sq, 'tq, 'eg, 'sem) rtos \<Rightarrow> diag_env \<Rightarrow>
    ('sq, 'tq, 'eg, 'sem) sys \<Rightarrow> ('sq, 'tq, 'eg, 'sem) sys option" where
  "prvDiagnosticsTask K env s =
     (case diag_todo s of
        [] \<Rightarrow> None
      | a # todo \<Rightarrow> do_action K env a (s\<lparr>diag_todo := todo\<rparr>))"

end
