(* ===== verification/FwSystem.thy ===== *)
theory FwSystem
  imports FwDiag
begin

unbundle bit_operations_syntax

text \<open>
  The whole firmware: \<open>main\<close> builds the initial state, \<open>fw_step\<close> lets the tick, the timer daemon or
  any task make its next step, and \<open>fw_reach\<close> is what can be reached. Every interleaving is allowed,
  which includes those of the kernel's preemptive priority scheduler. \<open>fw_reach K n s\<close> counts in \<open>n\<close>
  the samples that were made. The second half shows that over any kernel that keeps the contract the
  firmware behaves as it does over the kernel of lists.
\<close>

subsection \<open>Start\<close>

fun run_actions :: "('sq, 'tq, 'eg, 'sem) rtos \<Rightarrow> diag_env \<Rightarrow> action list \<Rightarrow>
    ('sq, 'tq, 'eg, 'sem) sys \<Rightarrow> ('sq, 'tq, 'eg, 'sem) sys option" where
  "run_actions K env [] s = Some s"
| "run_actions K env (a # as) s = Option.bind (do_action K env a s) (run_actions K env as)"

text \<open>
  Memory as the loader leaves it, with the kernel objects \<open>main\<close> creates in it, the console mutex of
  \<open>console_init\<close> among them; the tasks stand at their entry points.
\<close>

definition boot :: "('sq, 'tq, 'eg, 'sem) rtos \<Rightarrow> ('sq, 'tq, 'eg, 'sem) sys" where
  "boot K = \<lparr>xStats = zero_stats,
     xSensorQueue = xQueueCreateStatic (sensor_api K) 6,
     xTelemetryQueue = xQueueCreateStatic (telemetry_api K) 6,
     heartbeat_events = xEventGroupCreateStatic K,
     sensor_kick = xSemaphoreCreateBinaryStatic K, state_mutex = xSemaphoreCreateMutexStatic K,
     xConsoleMutex = True, xLogFd = - 1, xTickCount = 0, printed = [],
     sensor_sequence = 0, sensor_pc = S_Take, processor_pc = P_Receive, logger_pc = L_Receive,
     watchdog_pc = W_Wait, diag_snapshot = zero_stats, diag_reads = [], diag_todo = self_test,
     exit_status = None\<rparr>"

definition banner :: "string list" where
  "banner = [''real-time vehicle telemetry ECU simulator'',
     ''target: STM32VLDISCOVERY / FreeRTOS / QEMU'', ''type help for commands'']"

definition fw_main :: "('sq, 'tq, 'eg, 'sem) rtos \<Rightarrow> diag_env \<Rightarrow> ('sq, 'tq, 'eg, 'sem) sys option" where
  "fw_main K env =
     map_option (fold (\<lambda>t. print_text Main (\<lambda>m fd. console_writeln m fd (stack_garbage env) (Some t))) banner)
       (run_actions K env prvResetStats (boot K))"

text \<open>
  The tasks as \<open>prvCreateTasks\<close> registers them: name, stack depth in words and priority, where
  \<open>tskIDLE_PRIORITY\<close> is 0. The limits are those of \<open>firmware/include/FreeRTOSConfig.h\<close>.
\<close>

definition prvCreateTasks :: "(task \<times> string \<times> nat \<times> nat) list" where
  "prvCreateTasks =
     [(task.Sensor, ''sensor'', 192, 0 + 3),
      (task.Processor, ''process'', 192, 0 + 2),
      (task.Logger, ''logger'', 192, 0 + 1),
      (task.Watchdog, ''watchdog'', 192, 0 + 2),
      (task.Diagnostics, ''diag'', 192, 0 + 1)]"

definition configMAX_PRIORITIES :: nat where "configMAX_PRIORITIES = 5"
definition configTIMER_TASK_PRIORITY :: nat where "configTIMER_TASK_PRIORITY = configMAX_PRIORITIES - 1"
definition configMINIMAL_STACK_SIZE :: nat where "configMINIMAL_STACK_SIZE = 128"
definition configMAX_TASK_NAME_LEN :: nat where "configMAX_TASK_NAME_LEN = 16"

subsection \<open>Steps\<close>

inductive fw_step :: "('sq, 'tq, 'eg, 'sem) rtos \<Rightarrow> ('sq, 'tq, 'eg, 'sem) sys \<Rightarrow>
    ('sq, 'tq, 'eg, 'sem) sys \<Rightarrow> bool" for K where
  Tick: "exit_status s = None \<Longrightarrow> fw_step K s (s\<lparr>xTickCount := xTickCount s + 1\<rparr>)"
| Timer: "exit_status s = None \<Longrightarrow> fw_step K s (prvSensorTimerCallback K s)"
| Sensor: "exit_status s = None \<Longrightarrow> prvSensorTask K s = Some s' \<Longrightarrow> fw_step K s s'"
| Processor: "exit_status s = None \<Longrightarrow> length g = 256 \<Longrightarrow> prvProcessorTask K g s = Some s' \<Longrightarrow> fw_step K s s'"
| Logger: "exit_status s = None \<Longrightarrow> length g = 256 \<Longrightarrow> prvLoggerTask K g s = Some s' \<Longrightarrow> fw_step K s s'"
| Watchdog: "exit_status s = None \<Longrightarrow> length g = 256 \<Longrightarrow> prvWatchdogTask K expired g s = Some s' \<Longrightarrow> fw_step K s s'"
| Diagnostics: "exit_status s = None \<Longrightarrow> length (stack_garbage env) = 256 \<Longrightarrow> prvDiagnosticsTask K env s = Some s' \<Longrightarrow> fw_step K s s'"

inductive fw_reach :: "('sq, 'tq, 'eg, 'sem) rtos \<Rightarrow> nat \<Rightarrow> ('sq, 'tq, 'eg, 'sem) sys \<Rightarrow> bool" for K where
  Start: "length (stack_garbage env) = 256 \<Longrightarrow> fw_main K env = Some s \<Longrightarrow> fw_reach K 0 s"
| Step: "fw_reach K n s \<Longrightarrow> fw_step K s s' \<Longrightarrow>
    fw_reach K (if sensor_sequence s' = sensor_sequence s then n else Suc n) s'"

text \<open>Schedules, for concrete runs: who makes the next step, with what the environment answers.\<close>

datatype choice =
    Run_tick
  | Run_timer
  | Run_sensor
  | Run_processor string
  | Run_logger string
  | Run_watchdog bool string
  | Run_diagnostics diag_env

fun perform :: "('sq, 'tq, 'eg, 'sem) rtos \<Rightarrow> choice \<Rightarrow> ('sq, 'tq, 'eg, 'sem) sys \<Rightarrow>
    ('sq, 'tq, 'eg, 'sem) sys option" where
  "perform K Run_tick s = Some (s\<lparr>xTickCount := xTickCount s + 1\<rparr>)"
| "perform K Run_timer s = Some (prvSensorTimerCallback K s)"
| "perform K Run_sensor s = prvSensorTask K s"
| "perform K (Run_processor g) s = prvProcessorTask K g s"
| "perform K (Run_logger g) s = prvLoggerTask K g s"
| "perform K (Run_watchdog expired g) s = prvWatchdogTask K expired g s"
| "perform K (Run_diagnostics env) s = prvDiagnosticsTask K env s"

fun choice_ok :: "choice \<Rightarrow> bool" where
  "choice_ok (Run_processor g) = (length g = 256)"
| "choice_ok (Run_logger g) = (length g = 256)"
| "choice_ok (Run_watchdog expired g) = (length g = 256)"
| "choice_ok (Run_diagnostics env) = (length (stack_garbage env) = 256)"
| "choice_ok _ = True"

fun run_schedule :: "('sq, 'tq, 'eg, 'sem) rtos \<Rightarrow> choice list \<Rightarrow> ('sq, 'tq, 'eg, 'sem) sys \<Rightarrow>
    ('sq, 'tq, 'eg, 'sem) sys option" where
  "run_schedule K [] s = Some s"
| "run_schedule K (c # cs) s =
     (if exit_status s = None then Option.bind (perform K c s) (run_schedule K cs) else None)"

lemma fw_step_iff:
  "fw_step K s s' \<longleftrightarrow> exit_status s = None \<and> (\<exists>c. choice_ok c \<and> perform K c s = Some s')"
proof
  show "fw_step K s s' \<Longrightarrow> exit_status s = None \<and> (\<exists>c. choice_ok c \<and> perform K c s = Some s')"
    by (induction rule: fw_step.induct) (metis choice_ok.simps perform.simps)+
next
  assume "exit_status s = None \<and> (\<exists>c. choice_ok c \<and> perform K c s = Some s')"
  then obtain c where "exit_status s = None" "choice_ok c" "perform K c s = Some s'" by blast
  then show "fw_step K s s'"
    by (cases c) (auto intro: fw_step.intros)
qed

lemma run_schedule_reach:
  assumes "run_schedule K cs s = Some s'" and "list_all choice_ok cs" and "fw_reach K n s"
  shows "\<exists>m. fw_reach K m s' \<and> n \<le> m \<and> m \<le> n + length cs"
  using assms
proof (induction cs arbitrary: s n)
  case Nil
  then show ?case by auto
next
  case (Cons c cs)
  from Cons.prems(1) obtain t where e: "exit_status s = None" and t: "perform K c s = Some t"
    and rest: "run_schedule K cs t = Some s'"
    by (auto split: if_splits bind_splits)
  let ?n = "if sensor_sequence t = sensor_sequence s then n else Suc n"
  have "fw_step K s t" using e t Cons.prems(2) by (auto simp: fw_step_iff)
  then have "fw_reach K ?n t" by (rule fw_reach.Step [OF Cons.prems(3)])
  from Cons.IH [OF rest _ this] Cons.prems(2) obtain m where "fw_reach K m s'" "?n \<le> m" "m \<le> ?n + length cs"
    by auto
  then show ?case by (intro exI [of _ m]) (auto split: if_splits)
qed

subsection \<open>The view of a state over the kernel of lists\<close>

type_synonym list_sys = "(SensorSample list, TelemetryFrame list, u32, bool) sys"

definition view :: "('sq, 'tq, 'eg, 'sem) rtos_view \<Rightarrow> ('sq, 'tq, 'eg, 'sem) sys \<Rightarrow> list_sys" where
  "view V s = \<lparr>xStats = xStats s, xSensorQueue = sensor_items V (xSensorQueue s),
     xTelemetryQueue = telemetry_items V (xTelemetryQueue s),
     heartbeat_events = event_bits V (heartbeat_events s),
     sensor_kick = available V (sensor_kick s), state_mutex = available V (state_mutex s),
     xConsoleMutex = xConsoleMutex s, xLogFd = xLogFd s, xTickCount = xTickCount s, printed = printed s,
     sensor_sequence = sensor_sequence s, sensor_pc = sensor_pc s, processor_pc = processor_pc s,
     logger_pc = logger_pc s, watchdog_pc = watchdog_pc s, diag_snapshot = diag_snapshot s,
     diag_reads = diag_reads s, diag_todo = diag_todo s, exit_status = exit_status s\<rparr>"

definition queues_ok :: "('sq, 'tq, 'eg, 'sem) rtos_view \<Rightarrow> ('sq, 'tq, 'eg, 'sem) sys \<Rightarrow> bool" where
  "queues_ok V s \<longleftrightarrow> sensor_ok V (xSensorQueue s) \<and> telemetry_ok V (xTelemetryQueue s)"

text \<open>\<open>simulates V r r'\<close>: a step over the kernel and the step of its view agree.\<close>

definition simulates :: "('sq, 'tq, 'eg, 'sem) rtos_view \<Rightarrow> ('sq, 'tq, 'eg, 'sem) sys option \<Rightarrow>
    list_sys option \<Rightarrow> bool" where
  "simulates V r r' \<longleftrightarrow> map_option (view V) r = r' \<and> (\<forall>s. r = Some s \<longrightarrow> queues_ok V s)"

lemma view_select [simp]:
  "xStats (view V s) = xStats s" "xSensorQueue (view V s) = sensor_items V (xSensorQueue s)"
  "xTelemetryQueue (view V s) = telemetry_items V (xTelemetryQueue s)"
  "heartbeat_events (view V s) = event_bits V (heartbeat_events s)"
  "sensor_kick (view V s) = available V (sensor_kick s)"
  "state_mutex (view V s) = available V (state_mutex s)"
  "xConsoleMutex (view V s) = xConsoleMutex s" "xLogFd (view V s) = xLogFd s"
  "xTickCount (view V s) = xTickCount s" "printed (view V s) = printed s"
  "sensor_sequence (view V s) = sensor_sequence s" "sensor_pc (view V s) = sensor_pc s"
  "processor_pc (view V s) = processor_pc s" "logger_pc (view V s) = logger_pc s"
  "watchdog_pc (view V s) = watchdog_pc s" "diag_snapshot (view V s) = diag_snapshot s"
  "diag_reads (view V s) = diag_reads s" "diag_todo (view V s) = diag_todo s"
  "exit_status (view V s) = exit_status s"
  by (simp_all add: view_def)

lemma view_update [simp]:
  "view V (s\<lparr>xStats := a\<rparr>) = (view V s)\<lparr>xStats := a\<rparr>"
  "view V (s\<lparr>xSensorQueue := q\<rparr>) = (view V s)\<lparr>xSensorQueue := sensor_items V q\<rparr>"
  "view V (s\<lparr>xTelemetryQueue := r\<rparr>) = (view V s)\<lparr>xTelemetryQueue := telemetry_items V r\<rparr>"
  "view V (s\<lparr>heartbeat_events := e\<rparr>) = (view V s)\<lparr>heartbeat_events := event_bits V e\<rparr>"
  "view V (s\<lparr>sensor_kick := m\<rparr>) = (view V s)\<lparr>sensor_kick := available V m\<rparr>"
  "view V (s\<lparr>state_mutex := m\<rparr>) = (view V s)\<lparr>state_mutex := available V m\<rparr>"
  "view V (s\<lparr>xLogFd := fd\<rparr>) = (view V s)\<lparr>xLogFd := fd\<rparr>"
  "view V (s\<lparr>xTickCount := n\<rparr>) = (view V s)\<lparr>xTickCount := n\<rparr>"
  "view V (s\<lparr>printed := p\<rparr>) = (view V s)\<lparr>printed := p\<rparr>"
  "view V (s\<lparr>sensor_sequence := n\<rparr>) = (view V s)\<lparr>sensor_sequence := n\<rparr>"
  "view V (s\<lparr>sensor_pc := pc\<rparr>) = (view V s)\<lparr>sensor_pc := pc\<rparr>"
  "view V (s\<lparr>processor_pc := pp\<rparr>) = (view V s)\<lparr>processor_pc := pp\<rparr>"
  "view V (s\<lparr>logger_pc := lp\<rparr>) = (view V s)\<lparr>logger_pc := lp\<rparr>"
  "view V (s\<lparr>watchdog_pc := wp\<rparr>) = (view V s)\<lparr>watchdog_pc := wp\<rparr>"
  "view V (s\<lparr>diag_snapshot := a\<rparr>) = (view V s)\<lparr>diag_snapshot := a\<rparr>"
  "view V (s\<lparr>diag_reads := ns\<rparr>) = (view V s)\<lparr>diag_reads := ns\<rparr>"
  "view V (s\<lparr>diag_todo := todo\<rparr>) = (view V s)\<lparr>diag_todo := todo\<rparr>"
  "view V (s\<lparr>exit_status := x\<rparr>) = (view V s)\<lparr>exit_status := x\<rparr>"
  by (simp_all add: view_def)

lemma view_print_text [simp]: "view V (print_text t r s) = print_text t r (view V s)"
  by (simp add: print_text_def)

subsection \<open>Simulation\<close>

lemma queues_ok_update [simp]:
  "queues_ok V (s\<lparr>xStats := a\<rparr>) = queues_ok V s" "queues_ok V (s\<lparr>heartbeat_events := e\<rparr>) = queues_ok V s"
  "queues_ok V (s\<lparr>sensor_kick := m\<rparr>) = queues_ok V s" "queues_ok V (s\<lparr>state_mutex := m\<rparr>) = queues_ok V s"
  "queues_ok V (s\<lparr>xLogFd := fd\<rparr>) = queues_ok V s" "queues_ok V (s\<lparr>xTickCount := n\<rparr>) = queues_ok V s"
  "queues_ok V (s\<lparr>printed := p\<rparr>) = queues_ok V s" "queues_ok V (s\<lparr>sensor_sequence := n\<rparr>) = queues_ok V s"
  "queues_ok V (s\<lparr>sensor_pc := pc\<rparr>) = queues_ok V s" "queues_ok V (s\<lparr>processor_pc := pp\<rparr>) = queues_ok V s"
  "queues_ok V (s\<lparr>logger_pc := lp\<rparr>) = queues_ok V s" "queues_ok V (s\<lparr>watchdog_pc := wp\<rparr>) = queues_ok V s"
  "queues_ok V (s\<lparr>diag_snapshot := a\<rparr>) = queues_ok V s" "queues_ok V (s\<lparr>diag_reads := ns\<rparr>) = queues_ok V s"
  "queues_ok V (s\<lparr>diag_todo := todo\<rparr>) = queues_ok V s" "queues_ok V (s\<lparr>exit_status := x\<rparr>) = queues_ok V s"
  "queues_ok V (print_text t r s) = queues_ok V s"
  "queues_ok V (s\<lparr>xSensorQueue := q\<rparr>) \<longleftrightarrow> sensor_ok V q \<and> telemetry_ok V (xTelemetryQueue s)"
  "queues_ok V (s\<lparr>xTelemetryQueue := r'\<rparr>) \<longleftrightarrow> sensor_ok V (xSensorQueue s) \<and> telemetry_ok V r'"
  by (simp_all add: queues_ok_def print_text_def)

lemma simulates_Some [simp]: "simulates V (Some s) r' \<longleftrightarrow> r' = Some (view V s) \<and> queues_ok V s"
  by (auto simp: simulates_def)

lemma simulates_None [simp]: "simulates V None r' \<longleftrightarrow> r' = None"
  by (auto simp: simulates_def)

lemma simulates_map:
  assumes "simulates V r r'" and "\<And>s. view V (f s) = g (view V s)" and "\<And>s. queues_ok V s \<Longrightarrow> queues_ok V (f s)"
  shows "simulates V (map_option f r) (map_option g r')"
  using assms by (cases r) auto

lemma simulates_bind:
  assumes "simulates V r r'" and "\<And>s. queues_ok V s \<Longrightarrow> simulates V (f s) (g (view V s))"
  shows "simulates V (Option.bind r f) (Option.bind r' g)"
  using assms by (cases r) auto

lemma lock_simulates:
  assumes "rtos_contract K V" and "queues_ok V s"
  shows "simulates V (prvSnapshotLock K s) (prvSnapshotLock list_rtos (view V s))"
  using semaphore_contractD(4,5) [OF rtos_contractD(4) [OF assms(1)], of "state_mutex s"] assms(2)
  by (cases "available V (state_mutex s)") (auto simp: prvSnapshotLock_def)

lemma view_unlock:
  assumes "rtos_contract K V"
  shows "view V (prvSnapshotUnlock K s) = prvSnapshotUnlock list_rtos (view V s)"
  using semaphore_contractD(3) [OF rtos_contractD(4) [OF assms]] by (simp add: prvSnapshotUnlock_def)

lemma queues_ok_unlock [simp]: "queues_ok V (prvSnapshotUnlock K s) = queues_ok V s"
  by (simp add: prvSnapshotUnlock_def)

lemma locked_simulates:
  assumes "rtos_contract K V" and "queues_ok V s"
  shows "simulates V (locked K body s) (locked list_rtos body (view V s))"
  unfolding locked_def
  by (rule simulates_map [OF lock_simulates [OF assms]]) (simp_all add: view_unlock [OF assms(1)])

lemma fault_mode_simulates:
  assumes "rtos_contract K V" and "queues_ok V s"
    and "\<And>mode s. view V (f (mode, s)) = g (mode, view V s)"
    and "\<And>mode s. queues_ok V s \<Longrightarrow> queues_ok V (f (mode, s))"
  shows "simulates V (map_option f (prvGetFaultMode K s)) (map_option g (prvGetFaultMode list_rtos (view V s)))"
  unfolding prvGetFaultMode_def option.map_comp
  by (rule simulates_map [OF lock_simulates [OF assms(1,2)]])
    (simp_all add: assms(3,4) view_unlock [OF assms(1)] Let_def)

text \<open>What a send and a receive are over the kernel's queues, in the form the steps use them.\<close>

lemma send_cases:
  assumes "queue_contract api ok items n" and "ok q"
  obtains q' where "xQueueSend api q x = (True, q')" "spec_push n (items q) x = (True, items q')" "ok q'"
  | q' where "xQueueSend api q x = (False, q')" "spec_push n (items q) x = (False, items q')" "ok q'"
  using queue_contract_send [OF assms, of x] by (cases "xQueueSend api q x") (auto; metis)

lemma receive_cases:
  assumes "queue_contract api ok items n" and "ok q"
  obtains "xQueueReceive api q = None" "spec_pop (items q) = None"
  | x q' where "xQueueReceive api q = Some (x, q')" "spec_pop (items q) = Some (x, items q')" "ok q'"
proof (cases "xQueueReceive api q")
  case None
  then show ?thesis using that(1) queue_contract_receive(2) [OF assms] by simp
next
  case (Some r)
  then show ?thesis
    using that(2) [of "fst r" "snd r"] queue_contract_receive(1) [OF assms, of "fst r" "snd r"]
      queue_contract_receive(2) [OF assms] by (cases r) simp
qed

lemma queues_okD: "queues_ok V s \<Longrightarrow> sensor_ok V (xSensorQueue s)" "queues_ok V s \<Longrightarrow> telemetry_ok V (xTelemetryQueue s)"
  by (simp_all add: queues_ok_def)

lemmas section_defs = prvIncrementCounter_def prvUpdateStatsFromSample_def
  prvUpdateStatsFromFrame_def prvIncrementDrop_def set_heartbeat_def

lemma sensor_simulates:
  assumes K: "rtos_contract K V" and ok: "queues_ok V s"
  shows "simulates V (prvSensorTask K s) (prvSensorTask list_rtos (view V s))"
proof (cases "sensor_pc s")
  case S_Take
  then show ?thesis
    using semaphore_contractD(4,5) [OF rtos_contractD(4) [OF K], of "sensor_kick s"] ok
    by (cases "available V (sensor_kick s)") (auto simp: prvSensorTask_def)
next
  case (S_Send b sample)
  then show ?thesis
    using ok by (cases rule: send_cases [OF rtos_contractD(1) [OF K] queues_okD(1) [OF ok], of sample])
      (simp_all add: prvSensorTask_def queues_ok_def)
next
  case (S_Make b)
  then show ?thesis
    using fault_mode_simulates [OF K, of "s\<lparr>sensor_sequence := sensor_sequence s + 1\<rparr>"
        "\<lambda>(mode, s). s\<lparr>sensor_pc := S_Tick b mode\<rparr>" "\<lambda>(mode, s). s\<lparr>sensor_pc := S_Tick b mode\<rparr>"] ok
    by (simp add: prvSensorTask_def)
qed (auto simp: prvSensorTask_def section_defs event_contractD [OF rtos_contractD(3) [OF K]] ok
    intro!: simulates_map [OF locked_simulates [OF K]] fault_mode_simulates [OF K])

lemma processor_simulates:
  assumes K: "rtos_contract K V" and ok: "queues_ok V s"
  shows "simulates V (prvProcessorTask K g s) (prvProcessorTask list_rtos g (view V s))"
proof (cases "processor_pc s")
  case P_Receive
  then show ?thesis
    using ok by (cases rule: receive_cases [OF rtos_contractD(1) [OF K] queues_okD(1) [OF ok]])
      (simp_all add: prvProcessorTask_def queues_ok_def)
next
  case (P_Send frame)
  then show ?thesis
    using ok by (cases rule: send_cases [OF rtos_contractD(2) [OF K] queues_okD(2) [OF ok], of frame])
      (simp_all add: prvProcessorTask_def queues_ok_def)
qed (auto simp: prvProcessorTask_def section_defs event_contractD [OF rtos_contractD(3) [OF K]] ok
    intro!: simulates_map [OF locked_simulates [OF K]] fault_mode_simulates [OF K])

lemma logger_simulates:
  assumes K: "rtos_contract K V" and ok: "queues_ok V s"
  shows "simulates V (prvLoggerTask K g s) (prvLoggerTask list_rtos g (view V s))"
proof (cases "logger_pc s")
  case L_Receive
  then show ?thesis
    using ok by (cases rule: receive_cases [OF rtos_contractD(2) [OF K] queues_okD(2) [OF ok]])
      (simp_all add: prvLoggerTask_def queues_ok_def)
qed (auto simp: prvLoggerTask_def section_defs event_contractD [OF rtos_contractD(3) [OF K]] ok
    intro!: simulates_map [OF locked_simulates [OF K]])

lemma watchdog_simulates:
  assumes K: "rtos_contract K V" and ok: "queues_ok V s"
  shows "simulates V (prvWatchdogTask K x g s) (prvWatchdogTask list_rtos x g (view V s))"
proof (cases "watchdog_pc s")
  case W_Wait
  then show ?thesis
    using ok
    by (cases "xEventGroupWaitBits K (heartbeat_events s) 7 True True x")
      (auto simp: prvWatchdogTask_def event_contractD(4) [OF rtos_contractD(3) [OF K], symmetric])
qed (auto simp: prvWatchdogTask_def section_defs ok intro!: simulates_map [OF locked_simulates [OF K]])

lemma live_value_view:
  assumes K: "rtos_contract K V" and ok: "queues_ok V s"
  shows "live_value list_rtos env v (view V s) = live_value K env v s"
  using queue_contract_reset(3) [OF rtos_contractD(1) [OF K] queues_okD(1) [OF ok]]
    queue_contract_reset(3) [OF rtos_contractD(2) [OF K] queues_okD(2) [OF ok]]
  by (cases v) simp_all

lemma action_simulates:
  assumes K: "rtos_contract K V" and ok: "queues_ok V s"
  shows "simulates V (do_action K env a s) (do_action list_rtos env a (view V s))"
  using queue_contract_reset(1,2) [OF rtos_contractD(1) [OF K] queues_okD(1) [OF ok]]
    queue_contract_reset(1,2) [OF rtos_contractD(2) [OF K] queues_okD(2) [OF ok]]
    event_contractD(3) [OF rtos_contractD(3) [OF K]] live_value_view [OF K ok] queues_okD [OF ok] ok
  by (cases a)
    (auto simp: view_unlock [OF K] intro!: simulates_map [OF lock_simulates [OF K ok]] locked_simulates [OF K])

lemma diagnostics_simulates:
  assumes K: "rtos_contract K V" and ok: "queues_ok V s"
  shows "simulates V (prvDiagnosticsTask K env s) (prvDiagnosticsTask list_rtos env (view V s))"
proof (cases "diag_todo s")
  case (Cons a todo)
  then show ?thesis
    using action_simulates [OF K, of "s\<lparr>diag_todo := todo\<rparr>" env a] ok
    by (simp add: prvDiagnosticsTask_def)
qed (simp add: prvDiagnosticsTask_def)

lemma perform_simulates:
  assumes K: "rtos_contract K V" and ok: "queues_ok V s"
  shows "simulates V (perform K c s) (perform list_rtos c (view V s))"
  using ok semaphore_contractD(3) [OF rtos_contractD(4) [OF K]]
  by (cases c)
    (simp_all add: prvSensorTimerCallback_def sensor_simulates [OF K] processor_simulates [OF K]
      logger_simulates [OF K] watchdog_simulates [OF K] diagnostics_simulates [OF K])

lemma actions_simulate:
  assumes K: "rtos_contract K V" and ok: "queues_ok V s"
  shows "simulates V (run_actions K env as s) (run_actions list_rtos env as (view V s))"
  using ok
proof (induction as arbitrary: s)
  case (Cons a as)
  show ?case
    using simulates_bind [OF action_simulates [OF K Cons.prems], where f = "run_actions K env as"
        and g = "run_actions list_rtos env as"] Cons.IH by simp
qed simp

lemma view_boot:
  assumes K: "rtos_contract K V"
  shows "view V (boot K) = boot list_rtos" and "queues_ok V (boot K)"
  using queue_contract_create [OF rtos_contractD(1) [OF K]]
    queue_contract_create [OF rtos_contractD(2) [OF K]]
    event_contractD(1) [OF rtos_contractD(3) [OF K]] semaphore_contractD(1,2) [OF rtos_contractD(4) [OF K]]
  by (simp_all add: boot_def view_def queues_ok_def)

lemma main_simulates:
  assumes K: "rtos_contract K V"
  shows "simulates V (fw_main K env) (fw_main list_rtos env)"
  unfolding fw_main_def banner_def
  using actions_simulate [OF K view_boot(2) [OF K], of env prvResetStats] view_boot(1) [OF K]
  by (intro simulates_map) simp_all

text \<open>The lifting lemma: what is reachable over a kernel has a reachable view over lists.\<close>

lemma fw_step_view:
  assumes "rtos_contract K V" and "queues_ok V s" and "fw_step K s s'"
  shows "fw_step list_rtos (view V s) (view V s')" and "queues_ok V s'"
proof -
  from assms(3) obtain c where c: "exit_status s = None" "choice_ok c" "perform K c s = Some s'"
    by (auto simp: fw_step_iff)
  then have "perform list_rtos c (view V s) = Some (view V s') \<and> queues_ok V s'"
    using perform_simulates [OF assms(1,2), of c] by simp
  then show "fw_step list_rtos (view V s) (view V s')" and "queues_ok V s'"
    using c by (auto simp: fw_step_iff)
qed

lemma fw_reach_view:
  assumes "fw_reach K n s" and "rtos_contract K V"
  shows "fw_reach list_rtos n (view V s) \<and> queues_ok V s"
  using assms(1)
proof (induction rule: fw_reach.induct)
  case (Start env s)
  then show ?case
    using main_simulates [OF assms(2), of env] by (auto intro: fw_reach.Start)
next
  case (Step n s s')
  then show ?case
    using fw_step_view [OF assms(2), of s s'] fw_reach.Step [of list_rtos n "view V s" "view V s'"]
    by simp
qed

subsection \<open>Properties\<close>

text \<open>The five tasks are registered once each with a name that fits the kernel's limit, a stack of at
  least the minimal size and a legal priority; the timer's daemon runs above all of them, so a kick
  is never delayed by them, and each stage of the pipeline runs above the next, so that a stage
  preempts the one it feeds.\<close>

theorem task_table_valid:
  "distinct (map fst prvCreateTasks) \<and> set (map fst prvCreateTasks) = UNIV - {Main}
    \<and> (\<forall>(t, name, stack, prio) \<in> set prvCreateTasks. length name < configMAX_TASK_NAME_LEN
        \<and> configMINIMAL_STACK_SIZE \<le> stack \<and> 0 < prio \<and> prio < configTIMER_TASK_PRIORITY)
    \<and> (let prio = (\<lambda>t. snd (snd (the (map_of prvCreateTasks t)))) in
        prio task.Sensor > prio task.Processor \<and> prio task.Processor > prio task.Logger)"
proof -
  have "set (map fst prvCreateTasks) = UNIV - {Main}"
    by (auto simp: prvCreateTasks_def) (metis task.exhaust)
  then show ?thesis
    by (simp add: prvCreateTasks_def configMAX_TASK_NAME_LEN_def configMINIMAL_STACK_SIZE_def
        configTIMER_TASK_PRIORITY_def configMAX_PRIORITIES_def)
qed

theorem task_table_valid_witness:
  "(\<lambda>(t, name, stack, prio). prio < configTIMER_TASK_PRIORITY) (task.Sensor, ''sensor'', 192, 3)"
proof -
  have "(task.Sensor, ''sensor'', 192, 3) \<in> set prvCreateTasks" by (simp add: prvCreateTasks_def)
  with task_table_valid show ?thesis by fastforce
qed

end
