(* ===== verification/FwCounters.thy ===== *)
theory FwCounters
  imports FwSystem
begin

unbundle bit_operations_syntax

text \<open>
  The steps over the kernel of lists, the induction over what it reaches, and the first invariants
  of the firmware: the lock is free between steps, the queues keep to their depth, and until the
  self-test resets them the counters account for every sample, from the number it was given to the
  line in the log.
\<close>

subsection \<open>The steps over the kernel of lists\<close>

lemma state_mutex_True [simp]: "state_mutex s \<Longrightarrow> s\<lparr>state_mutex := True\<rparr> = (s :: list_sys)"
  by simp

lemma locked_list [simp]:
  "state_mutex s \<Longrightarrow> locked list_rtos body s = Some (s\<lparr>xStats := body (xStats s)\<rparr>)" for s :: list_sys
  by (simp add: locked_def prvSnapshotLock_def prvSnapshotUnlock_def)

lemma fault_mode_list [simp]:
  "state_mutex s \<Longrightarrow> prvGetFaultMode list_rtos s = Some (fault_mode (xStats s), s)" for s :: list_sys
  by (simp add: prvGetFaultMode_def prvSnapshotLock_def prvSnapshotUnlock_def Let_def)

lemma snapshot_list [simp]:
  "state_mutex s \<Longrightarrow> do_action list_rtos env A_Snapshot s = Some (s\<lparr>diag_snapshot := xStats s\<rparr>)"
  by (simp add: prvSnapshotLock_def prvSnapshotUnlock_def)

declare do_action.simps(1) [simp del]

lemma list_reach_induct [consumes 1, case_names Start Step]:
  assumes "fw_reach list_rtos n s"
    and "\<And>env s. length (stack_garbage env) = 256 \<Longrightarrow> fw_main list_rtos env = Some s \<Longrightarrow> P 0 s"
    and "\<And>n s c s'. P n s \<Longrightarrow> choice_ok c \<Longrightarrow> exit_status s = None \<Longrightarrow> perform list_rtos c s = Some s' \<Longrightarrow>
      P (if sensor_sequence s' = sensor_sequence s then n else Suc n) s'"
  shows "P n s"
  using assms(1)
proof (induction rule: fw_reach.induct)
  case (Step n s s')
  then show ?case using assms(3) [of n s _ s'] by (auto simp: fw_step_iff)
qed (rule assms(2))

text \<open>What \<open>main\<close> leaves: the boot state with the banner printed.\<close>

definition banner_entries :: "string \<Rightarrow> (task \<times> (c_ub + console_op list)) list" where
  "banner_entries g = map (\<lambda>t. (Main, console_writeln True (- 1) g (Some t))) banner"

lemma main_list: "fw_main list_rtos env = Some ((boot list_rtos)\<lparr>printed := banner_entries (stack_garbage env)\<rparr>)"
  by (simp add: fw_main_def prvResetStats_def locked_def prvSnapshotLock_def prvSnapshotUnlock_def
      boot_def banner_def banner_entries_def print_text_def zero_stats_def)

subsection \<open>The lock and the depths\<close>

definition sane :: "list_sys \<Rightarrow> bool" where
  "sane s \<longleftrightarrow> state_mutex s \<and> xConsoleMutex s
     \<and> length (xSensorQueue s) \<le> 6 \<and> length (xTelemetryQueue s) \<le> 6"

lemma print_text_select [simp]:
  "xStats (print_text t r s) = xStats s" "xSensorQueue (print_text t r s) = xSensorQueue s"
  "xTelemetryQueue (print_text t r s) = xTelemetryQueue s"
  "heartbeat_events (print_text t r s) = heartbeat_events s"
  "sensor_kick (print_text t r s) = sensor_kick s" "state_mutex (print_text t r s) = state_mutex s"
  "xConsoleMutex (print_text t r s) = xConsoleMutex s" "xLogFd (print_text t r s) = xLogFd s"
  "xTickCount (print_text t r s) = xTickCount s" "sensor_sequence (print_text t r s) = sensor_sequence s"
  "sensor_pc (print_text t r s) = sensor_pc s" "processor_pc (print_text t r s) = processor_pc s"
  "logger_pc (print_text t r s) = logger_pc s" "watchdog_pc (print_text t r s) = watchdog_pc s"
  "diag_todo (print_text t r s') = diag_todo s'" "diag_reads (print_text t r s') = diag_reads s'"
  "diag_snapshot (print_text t r s') = diag_snapshot s'" "exit_status (print_text t r s') = exit_status s'"
  "printed (print_text t r s) = printed s @ [(t, r (xConsoleMutex s) (xLogFd s))]"
  by (simp_all add: print_text_def)

lemma spec_pop_Some: "spec_pop q = Some (x, q') \<longleftrightarrow> q = x # q'"
  by (cases q) auto

lemma spec_pop_split [split]:
  "P (spec_pop q) \<longleftrightarrow> (q = [] \<longrightarrow> P None) \<and> (\<forall>x q'. q = x # q' \<longrightarrow> P (Some (x, q')))"
  by (cases q) auto

lemma sane_step:
  assumes "sane s" and "perform list_rtos c s = Some s'"
  shows "sane s'"
proof (cases c)
  case Run_tick
  then show ?thesis using assms by (auto simp: sane_def)
next
  case Run_timer
  then show ?thesis using assms by (auto simp: sane_def prvSensorTimerCallback_def)
next
  case Run_sensor
  then show ?thesis
    using assms by (cases "sensor_pc s")
      (auto simp: sane_def prvSensorTask_def section_defs spec_push_def split: if_splits)
next
  case (Run_processor g)
  then show ?thesis
    using assms by (cases "processor_pc s")
      (auto simp: sane_def prvProcessorTask_def section_defs spec_push_def spec_pop_Some split: if_splits)
next
  case (Run_logger g)
  then show ?thesis
    using assms by (cases "logger_pc s")
      (auto simp: sane_def prvLoggerTask_def section_defs spec_pop_Some)
next
  case (Run_watchdog expired g)
  then show ?thesis
    using assms by (cases "watchdog_pc s")
      (auto simp: sane_def prvWatchdogTask_def section_defs)
next
  case (Run_diagnostics env)
  then obtain a todo where "diag_todo s = a # todo"
    using assms(2) by (cases "diag_todo s") (auto simp: prvDiagnosticsTask_def)
  then show ?thesis
    using assms Run_diagnostics by (cases a)
      (auto simp: sane_def prvDiagnosticsTask_def)
qed

lemma reach_sane: "fw_reach list_rtos n s \<Longrightarrow> sane s"
proof (induction rule: list_reach_induct)
  case (Start env s)
  then show ?case by (auto simp: main_list boot_def sane_def)
qed (rule sane_step)

subsection \<open>The counters\<close>

text \<open>
  Where a sample can be between the counters: numbered but not yet accepted or dropped, accepted but
  not counted, received but not counted, and so on down to the logger's line.
\<close>

fun unsettled :: "sensor_pc \<Rightarrow> u32" where
  "unsettled (S_Tick b mode) = 1"
| "unsettled (S_Send b x) = 1"
| "unsettled (S_Update b x) = 1"
| "unsettled (S_Drop b) = 1"
| "unsettled _ = 0"

fun uncounted_sample :: "sensor_pc \<Rightarrow> u32" where
  "uncounted_sample (S_Update b x) = 1"
| "uncounted_sample _ = 0"

fun uncounted_receive :: "processor_pc \<Rightarrow> u32" where
  "uncounted_receive (P_Count x) = 1"
| "uncounted_receive _ = 0"

fun in_processor :: "processor_pc \<Rightarrow> u32" where
  "in_processor P_Receive = 0"
| "in_processor _ = 1"

fun uncounted_frame :: "processor_pc \<Rightarrow> u32" where
  "uncounted_frame (P_Update f) = 1"
| "uncounted_frame _ = 0"

fun uncounted_log :: "logger_pc \<Rightarrow> u32" where
  "uncounted_log (L_Count f) = 1"
| "uncounted_log _ = 0"

fun in_logger :: "logger_pc \<Rightarrow> u32" where
  "in_logger L_Receive = 0"
| "in_logger _ = 1"

definition log_entries :: "('sq, 'tq, 'eg, 'sem) sys \<Rightarrow> (c_ub + console_op list) list" where
  "log_entries s = map snd (filter (\<lambda>e. fst e = Logger) (printed s))"

text \<open>One equation for each hand-over, modulo \<open>2^32\<close> like the counters themselves.\<close>

definition accounts :: "list_sys \<Rightarrow> bool" where
  "accounts s \<longleftrightarrow> (let st = xStats s in
     sensor_sequence s = sensor_samples st + sensor_drops st + unsettled (sensor_pc s)
   \<and> sensor_samples st + uncounted_sample (sensor_pc s) =
       task_processor_beats st + uncounted_receive (processor_pc s) + of_nat (length (xSensorQueue s))
   \<and> task_processor_beats st + uncounted_receive (processor_pc s) =
       telemetry_frames st + telemetry_drops st + in_processor (processor_pc s)
   \<and> telemetry_frames st + uncounted_frame (processor_pc s) =
       task_logger_beats st + uncounted_log (logger_pc s) + of_nat (length (xTelemetryQueue s))
   \<and> task_logger_beats st + uncounted_log (logger_pc s) =
       of_nat (length (log_entries s)) + in_logger (logger_pc s))"

lemma log_entries_simps [simp]:
  "log_entries (print_text t r s) =
     log_entries s @ (if t = Logger then [r (xConsoleMutex s) (xLogFd s)] else [])"
  by (simp add: log_entries_def)

lemma log_entries_update [simp]:
  "log_entries (s\<lparr>xStats := a\<rparr>) = log_entries s" "log_entries (s\<lparr>xSensorQueue := q\<rparr>) = log_entries s"
  "log_entries (s\<lparr>xTelemetryQueue := r\<rparr>) = log_entries s" "log_entries (s\<lparr>heartbeat_events := e\<rparr>) = log_entries s"
  "log_entries (s\<lparr>sensor_kick := m\<rparr>) = log_entries s" "log_entries (s\<lparr>xLogFd := fd\<rparr>) = log_entries s"
  "log_entries (s\<lparr>xTickCount := n\<rparr>) = log_entries s" "log_entries (s\<lparr>sensor_sequence := n\<rparr>) = log_entries s"
  "log_entries (s\<lparr>sensor_pc := pc\<rparr>) = log_entries s" "log_entries (s\<lparr>processor_pc := pp\<rparr>) = log_entries s"
  "log_entries (s\<lparr>logger_pc := lp\<rparr>) = log_entries s" "log_entries (s\<lparr>watchdog_pc := wp\<rparr>) = log_entries s"
  "log_entries (s\<lparr>diag_snapshot := a\<rparr>) = log_entries s" "log_entries (s\<lparr>diag_reads := ns\<rparr>) = log_entries s"
  "log_entries (s\<lparr>diag_todo := todo\<rparr>) = log_entries s" "log_entries (s\<lparr>exit_status := x\<rparr>) = log_entries s"
  by (simp_all add: log_entries_def)

lemma sensor_next_idle [simp]: "unsettled (sensor_next b) = 0" "uncounted_sample (sensor_next b) = 0"
  by (cases b; simp)+

lemma sensor_accounts:
  assumes "state_mutex s" and "accounts s" and "prvSensorTask list_rtos s = Some s'"
  shows "accounts s'"
  using assms by (cases "sensor_pc s")
    (auto simp: accounts_def Let_def prvSensorTask_def section_defs spec_push_def algebra_simps split: if_splits)

lemma processor_accounts:
  assumes "state_mutex s" and "accounts s" and "prvProcessorTask list_rtos g s = Some s'"
  shows "accounts s'"
  using assms by (cases "processor_pc s")
    (auto simp: accounts_def Let_def prvProcessorTask_def section_defs spec_push_def spec_pop_Some
      algebra_simps split: if_splits)

lemma logger_accounts:
  assumes "state_mutex s" and "accounts s" and "prvLoggerTask list_rtos g s = Some s'"
  shows "accounts s'"
  using assms by (cases "logger_pc s")
    (auto simp: accounts_def Let_def prvLoggerTask_def section_defs spec_pop_Some algebra_simps)

lemma watchdog_accounts:
  assumes "state_mutex s" and "accounts s" and "prvWatchdogTask list_rtos x g s = Some s'"
  shows "accounts s'"
  using assms by (cases "watchdog_pc s")
    (auto simp: accounts_def Let_def prvWatchdogTask_def section_defs)

text \<open>The self-test resets once, the queues after the statistics.\<close>

fun one_reset :: "action list \<Rightarrow> bool" where
  "one_reset [] = True"
| "one_reset (a # rest) =
     ((a \<in> {A_ResetStats, A_ResetSensorQueue, A_ResetTelemetryQueue} \<longrightarrow> A_ResetStats \<notin> set rest)
      \<and> one_reset rest)"

lemma self_test_resets: "one_reset self_test" "A_ResetStats \<in> set self_test"
  by code_simp+

text \<open>\<open>unreset s\<close>: the self-test has not come to its \<open>reset\<close> yet.\<close>

definition unreset :: "('sq, 'tq, 'eg, 'sem) sys \<Rightarrow> bool" where
  "unreset s \<longleftrightarrow> A_ResetStats \<in> set (diag_todo s)"

lemma diagnostics_accounts:
  assumes "state_mutex s" and "unreset s \<Longrightarrow> accounts s" and "one_reset (diag_todo s)"
    and "prvDiagnosticsTask list_rtos env s = Some s'" and "unreset s'"
  shows "accounts s'"
proof -
  obtain a todo where a: "diag_todo s = a # todo"
    using assms(4) by (cases "diag_todo s") (auto simp: prvDiagnosticsTask_def)
  moreover have "diag_todo s' = todo"
    using assms(1,4) a by (cases a) (auto simp: prvDiagnosticsTask_def)
  ultimately have "A_ResetStats \<in> set todo" and "accounts s"
    and "a \<notin> {A_ResetStats, A_ResetSensorQueue, A_ResetTelemetryQueue}"
    using assms(2,3,5) by (auto simp: unreset_def)
  then show ?thesis
    using assms(1,4) a by (cases a) (auto simp: prvDiagnosticsTask_def accounts_def Let_def)
qed

text \<open>No step but the diagnostics task's touches what it still has to do.\<close>

lemma perform_todo:
  assumes "perform list_rtos c s = Some s'" and "state_mutex s"
  shows "diag_todo s' = (case c of Run_diagnostics env \<Rightarrow> tl (diag_todo s) | _ \<Rightarrow> diag_todo s)"
proof (cases c)
  case (Run_diagnostics env)
  then obtain a todo where "diag_todo s = a # todo"
    using assms(1) by (cases "diag_todo s") (auto simp: prvDiagnosticsTask_def)
  then show ?thesis
    using assms Run_diagnostics by (cases a) (auto simp: prvDiagnosticsTask_def)
next
  case Run_sensor
  then show ?thesis
    using assms by (cases "sensor_pc s") (auto simp: prvSensorTask_def section_defs split: prod.splits)
next
  case (Run_processor g)
  then show ?thesis
    using assms by (cases "processor_pc s") (auto simp: prvProcessorTask_def section_defs split: prod.splits)
next
  case (Run_logger g)
  then show ?thesis
    using assms by (cases "logger_pc s") (auto simp: prvLoggerTask_def section_defs)
next
  case (Run_watchdog x g)
  then show ?thesis
    using assms by (cases "watchdog_pc s") (auto simp: prvWatchdogTask_def section_defs)
qed (use assms in \<open>auto simp: prvSensorTimerCallback_def\<close>)

lemma one_reset_tl: "one_reset as \<Longrightarrow> one_reset (tl as)"
  by (cases as) auto

lemma perform_accounts:
  assumes "state_mutex s" and "unreset s \<Longrightarrow> accounts s" and "one_reset (diag_todo s)"
    and "perform list_rtos c s = Some s'" and "unreset s'"
  shows "accounts s'"
proof (cases "\<exists>env. c = Run_diagnostics env")
  case True
  then show ?thesis using assms diagnostics_accounts [OF assms(1-3)] by auto
next
  case False
  then have "diag_todo s' = diag_todo s"
    using perform_todo [OF assms(4,1)] by (cases c) auto
  then have "accounts s" using assms(2,5) by (simp add: unreset_def)
  then show ?thesis
    using assms(1,4) False
    by (cases c) (auto simp: prvSensorTimerCallback_def sensor_accounts processor_accounts
        logger_accounts watchdog_accounts accounts_def [of "s\<lparr>xTickCount := _\<rparr>"]
        accounts_def [of "s\<lparr>sensor_kick := _\<rparr>"] accounts_def [of s])
qed

lemma reach_accounts: "fw_reach list_rtos n s \<Longrightarrow> sane s \<and> one_reset (diag_todo s) \<and> (unreset s \<longrightarrow> accounts s)"
proof (induction rule: list_reach_induct)
  case (Start env s)
  then show ?case
    by (auto simp: main_list boot_def sane_def self_test_resets accounts_def log_entries_def
        zero_stats_def banner_entries_def Let_def banner_def)
next
  case (Step n s c s')
  then have m: "state_mutex s" by (simp add: sane_def)
  have "one_reset (diag_todo s')"
    using Step perform_todo [OF Step(4) m] by (auto simp: one_reset_tl split: choice.splits)
  with Step show ?case
    using sane_step [of s c s'] perform_accounts [OF m _ _ Step(4)] by auto
qed

end
