(* ===== verification/FwCycle.thy ===== *)
theory FwCycle
  imports FwCounters
begin

unbundle bit_operations_syntax

text \<open>
  One period of the firmware, run to completion in the order of the tasks' priorities: a kick of the
  timer, the sensor task until it waits again, the processor task, the logger task (every other order is
  in \<open>FwPeriod\<close>). The processor's
  extra steps for an invalid sample and for a forced stall are part of its run.
\<close>

definition idle :: "list_sys \<Rightarrow> bool" where
  "idle s \<longleftrightarrow> state_mutex s \<and> xConsoleMutex s \<and> exit_status s = None
     \<and> sensor_pc s = S_Take \<and> processor_pc s = P_Receive \<and> logger_pc s = L_Receive
     \<and> xSensorQueue s = [] \<and> xTelemetryQueue s = [] \<and> \<not> sensor_kick s"

lemma run_schedule_append:
  "run_schedule K (cs @ ds) s = Option.bind (run_schedule K cs s) (run_schedule K ds)"
proof (induction cs arbitrary: s)
  case Nil
  show ?case by simp
next
  case (Cons c cs)
  then show ?case by (cases "perform K c s") auto
qed

text \<open>The state after the sensor task's run on a kick, outside the overflow mode.\<close>

definition sampled :: "list_sys \<Rightarrow> list_sys" where
  "sampled s =
     (let seq = sensor_sequence s + 1; x = prvMakeSample (fault_mode (xStats s)) (xTickCount s) seq
      in s\<lparr>sensor_kick := False, heartbeat_events := heartbeat_events s OR EVT_SENSOR,
           sensor_sequence := seq, xSensorQueue := xSensorQueue s @ [x],
           xStats := (xStats s)\<lparr>task_sensor_beats := task_sensor_beats (xStats s) + 1,
             sensor_samples := sensor_samples (xStats s) + 1, last_sample := x\<rparr>\<rparr>)"

lemma sensor_run:
  assumes "state_mutex s" and "exit_status s = None" and "sensor_pc s = S_Take" and "sensor_kick s"
    and "length (xSensorQueue s) < 6" and "fault_mode (xStats s) \<noteq> FAULT_OVERFLOW"
  shows "run_schedule list_rtos (replicate 8 Run_sensor) s = Some (sampled s)"
  using assms
  by (simp add: eval_nat_numeral prvSensorTask_def section_defs spec_push_def sampled_def Let_def)

definition processed :: "string \<Rightarrow> SensorSample \<Rightarrow> list_sys \<Rightarrow> list_sys" where
  "processed g x s =
     (let st = xStats s; f = prvProcessSample (xTickCount s) x;
          stalled = (fault_mode st = FAULT_STALL \<and> s_sequence x mod 6 = 0);
          s = (if stalled
               then print_text Processor (\<lambda>m fd. console_writef m fd g stall_fmt [VULong (s_sequence x)]) s
               else s)
      in s\<lparr>xSensorQueue := tl (xSensorQueue s), xTelemetryQueue := xTelemetryQueue s @ [f],
           heartbeat_events := heartbeat_events s OR EVT_PROCESSOR,
           xStats := st\<lparr>task_processor_beats := task_processor_beats st + 1,
             sensor_faults := sensor_faults st + (if s_valid x then 0 else 1),
             telemetry_frames := telemetry_frames st + 1, last_frame := f\<rparr>\<rparr>)"

definition processor_steps :: "FaultMode \<Rightarrow> SensorSample \<Rightarrow> nat" where
  "processor_steps mode x = 7 + (if s_valid x then 0 else 1)
     + (if mode = FAULT_STALL \<and> s_sequence x mod 6 = 0 then 2 else 0)"

lemma processor_run:
  assumes "state_mutex s" and "exit_status s = None" and "processor_pc s = P_Receive"
    and "xSensorQueue s = x # q" and "length (xTelemetryQueue s) < 6"
  shows "run_schedule list_rtos (replicate (processor_steps (fault_mode (xStats s)) x) (Run_processor g)) s
    = Some (processed g x s)"
  using assms
  by (cases "s_valid x"; cases "fault_mode (xStats s) = FAULT_STALL"; cases "s_sequence x mod 6 = 0")
    (simp_all add: eval_nat_numeral processor_steps_def prvProcessorTask_def section_defs
      spec_push_def processed_def Let_def print_text_def)

definition delivered :: "string \<Rightarrow> TelemetryFrame \<Rightarrow> list_sys \<Rightarrow> list_sys" where
  "delivered g f s =
     (print_text Logger (\<lambda>m fd. prvPrintFrame m fd g f) s)
       \<lparr>xTelemetryQueue := tl (xTelemetryQueue s),
        heartbeat_events := heartbeat_events s OR EVT_LOGGER,
        xStats := (xStats s)\<lparr>task_logger_beats := task_logger_beats (xStats s) + 1\<rparr>\<rparr>"

lemma logger_run:
  assumes "state_mutex s" and "exit_status s = None" and "logger_pc s = L_Receive"
    and "xTelemetryQueue s = f # q"
  shows "run_schedule list_rtos (replicate 4 (Run_logger g)) s = Some (delivered g f s)"
  using assms
  by (simp add: eval_nat_numeral prvLoggerTask_def section_defs delivered_def print_text_def)

text \<open>The burst of the overflow mode: as many of the three samples as fit are queued, the rest is counted
  as dropped.\<close>

definition burst_samples :: "list_sys \<Rightarrow> SensorSample list" where
  "burst_samples s = map (\<lambda>k. prvMakeSample FAULT_OVERFLOW (xTickCount s) (sensor_sequence s + k)) [1, 2, 3]"

lemma burst_run:
  assumes "state_mutex s" and "exit_status s = None" and "sensor_pc s = S_Take" and "sensor_kick s"
    and "length (xSensorQueue s) \<le> 6" and "fault_mode (xStats s) = FAULT_OVERFLOW"
  shows "\<exists>s'. run_schedule list_rtos (replicate 16 Run_sensor) s = Some s'
    \<and> sensor_pc s' = S_Take \<and> sensor_sequence s' = sensor_sequence s + 3
    \<and> xSensorQueue s' = xSensorQueue s @ take (6 - length (xSensorQueue s)) (burst_samples s)
    \<and> sensor_samples (xStats s') = sensor_samples (xStats s) + of_nat (min 3 (6 - length (xSensorQueue s)))
    \<and> sensor_drops (xStats s') = sensor_drops (xStats s) + of_nat (3 - min 3 (6 - length (xSensorQueue s)))
    \<and> task_sensor_beats (xStats s') = task_sensor_beats (xStats s) + 1"
proof -
  let ?q = "xSensorQueue s"
  consider "length ?q \<le> 3" | "length ?q = 4" | "length ?q = 5" | "length ?q = 6"
    using assms(5) by linarith
  then show ?thesis
  proof cases
    case 1
    then have "min 3 (6 - length ?q) = 3" and "take (6 - length ?q) (burst_samples s) = burst_samples s"
      by (simp_all add: burst_samples_def)
    then show ?thesis
      using assms 1
      by (simp add: eval_nat_numeral prvSensorTask_def section_defs spec_push_def burst_samples_def add.assoc)
  qed (use assms in \<open>simp add: eval_nat_numeral prvSensorTask_def section_defs spec_push_def
      burst_samples_def add.assoc\<close>)+
qed

lemma run_simulates:
  assumes "rtos_contract K V" and "queues_ok V s"
  shows "simulates V (run_schedule K cs s) (run_schedule list_rtos cs (view V s))"
  using assms(2)
proof (induction cs arbitrary: s)
  case (Cons c cs)
  show ?case
    using simulates_bind [OF perform_simulates [OF assms(1) Cons.prems, of c],
        where f = "run_schedule K cs" and g = "run_schedule list_rtos cs"] Cons.IH
    by simp
qed simp

subsection \<open>A whole period\<close>

definition next_sample :: "('sq, 'tq, 'eg, 'sem) sys \<Rightarrow> SensorSample" where
  "next_sample s = prvMakeSample (fault_mode (xStats s)) (xTickCount s) (sensor_sequence s + 1)"

definition next_frame :: "('sq, 'tq, 'eg, 'sem) sys \<Rightarrow> TelemetryFrame" where
  "next_frame s = prvProcessSample (xTickCount s) (next_sample s)"

definition period :: "string \<Rightarrow> ('sq, 'tq, 'eg, 'sem) sys \<Rightarrow> choice list" where
  "period g s =
     [Run_timer] @ replicate 8 Run_sensor
     @ replicate (processor_steps (fault_mode (xStats s)) (next_sample s)) (Run_processor g)
     @ replicate 4 (Run_logger g)"

lemma next_view [simp]:
  "next_sample (view V s) = next_sample s" "next_frame (view V s) = next_frame s" "period g (view V s) = period g s"
  by (simp_all add: next_sample_def next_frame_def period_def)

lemma period_run:
  assumes "idle s" and "fault_mode (xStats s) \<noteq> FAULT_OVERFLOW"
  shows "run_schedule list_rtos (period g s) s =
    Some (delivered g (next_frame s) (processed g (next_sample s) (sampled (s\<lparr>sensor_kick := True\<rparr>))))"
proof -
  let ?s1 = "sampled (s\<lparr>sensor_kick := True\<rparr>)" and ?x = "next_sample s" and ?f = "next_frame s"
  let ?s2 = "processed g ?x ?s1"
  have s1: "run_schedule list_rtos (replicate 8 Run_sensor) (s\<lparr>sensor_kick := True\<rparr>) = Some ?s1"
    by (rule sensor_run) (use assms in \<open>simp_all add: idle_def\<close>)
  have f1: "state_mutex ?s1" "exit_status ?s1 = None" "processor_pc ?s1 = P_Receive" "xSensorQueue ?s1 = [?x]"
    "xTelemetryQueue ?s1 = []" "fault_mode (xStats ?s1) = fault_mode (xStats s)" "logger_pc ?s1 = L_Receive"
    "xTickCount ?s1 = xTickCount s"
    using assms(1) by (simp_all add: idle_def sampled_def next_sample_def Let_def)
  have s2: "run_schedule list_rtos (replicate (processor_steps (fault_mode (xStats s)) ?x) (Run_processor g)) ?s1 = Some ?s2"
    using processor_run [of ?s1 ?x "[]" g] f1 by simp
  have f2: "state_mutex ?s2" "exit_status ?s2 = None" "logger_pc ?s2 = L_Receive" "xTelemetryQueue ?s2 = [?f]"
    using f1 by (simp_all add: processed_def Let_def next_frame_def)
  have "run_schedule list_rtos (replicate 4 (Run_logger g)) ?s2 = Some (delivered g ?f ?s2)"
    by (rule logger_run [OF f2(1-4)])
  then show ?thesis
    using s1 s2 assms(1) by (simp add: period_def run_schedule_append prvSensorTimerCallback_def idle_def
        del: replicate.simps)
qed

lemma period_result:
  assumes "idle s" and "length g = 256"
  defines "s' \<equiv> delivered g (next_frame s) (processed g (next_sample s) (sampled (s\<lparr>sensor_kick := True\<rparr>)))"
  shows "idle s'" and "sensor_sequence s' = sensor_sequence s + 1"
    and "log_entries s' = log_entries s @ [Inr (console_ops True (xLogFd s) (frame_line (next_frame s)))]"
    and "xStats s' = (xStats s)\<lparr>sensor_samples := sensor_samples (xStats s) + 1,
        telemetry_frames := telemetry_frames (xStats s) + 1,
        sensor_faults := sensor_faults (xStats s) + (if s_valid (next_sample s) then 0 else 1),
        task_sensor_beats := task_sensor_beats (xStats s) + 1,
        task_processor_beats := task_processor_beats (xStats s) + 1,
        task_logger_beats := task_logger_beats (xStats s) + 1,
        last_sample := next_sample s, last_frame := next_frame s\<rparr>"
    and "heartbeat_events s' = heartbeat_events s OR EVT_ALL"
    and "diag_todo s' = diag_todo s"
  using assms
  by (simp_all add: idle_def delivered_def processed_def sampled_def Let_def next_frame_def next_sample_def
      print_frame_eq EVT_SENSOR_def EVT_PROCESSOR_def EVT_LOGGER_def or.assoc)

text \<open>A concrete reachable state: the first period after start-up.\<close>

definition blank :: string where "blank = replicate 256 CHR ''x''"

definition start_state :: list_sys where
  "start_state = (boot list_rtos)\<lparr>printed := banner_entries blank\<rparr>"

definition first_period :: list_sys where
  "first_period = delivered blank (next_frame start_state) (processed blank (next_sample start_state)
     (sampled (start_state\<lparr>sensor_kick := True\<rparr>)))"

lemma start_idle: "idle start_state" "fault_mode (xStats start_state) = FAULT_NONE"
  by (simp_all add: start_state_def idle_def boot_def zero_stats_def)

lemma start_reached: "fw_reach list_rtos 0 start_state"
  using fw_reach.Start [of "\<lparr>stack_marks = \<lambda>_. 0, object_sizes = [], open_answer = - 1, stack_garbage = blank\<rparr>"
      list_rtos start_state]
  by (simp add: main_list start_state_def blank_def)

lemma first_period_reached: "\<exists>m \<le> 40. fw_reach list_rtos m first_period"
proof -
  have r: "run_schedule list_rtos (period blank start_state) start_state = Some first_period"
    using period_run [OF start_idle(1)] start_idle(2) by (simp add: first_period_def)
  have ok: "list_all choice_ok (period blank start_state)"
    by (simp add: period_def blank_def list_all_iff)
  have "length (period blank start_state) \<le> 40"
    by (simp add: period_def processor_steps_def)
  then show ?thesis
    using run_schedule_reach [OF r ok start_reached] le_trans by fastforce
qed

lemma first_period_facts:
  "idle first_period" "diag_todo first_period = self_test"
  "log_entries first_period = [Inr (console_ops True (- 1) (frame_line (next_frame start_state)))]"
  "sensor_samples (xStats first_period) = 1" "sensor_drops (xStats first_period) = 0"
  "telemetry_drops (xStats first_period) = 0"
  using period_result [OF start_idle(1), of blank]
  by (simp_all add: first_period_def blank_def start_state_def boot_def zero_stats_def log_entries_def
      banner_entries_def banner_def)

subsection \<open>Properties\<close>

text \<open>C16: A kick in the overflow mode, run by the sensor task with no other task in between, makes three samples
  without a pause: those that fit the sensor queue are queued in order and counted as samples, the others are counted as drops, and the sequence
  number always advances by three, so a gap in the log shows a drop. With at most three messages
  waiting nothing is dropped at all.\<close>

theorem overflow_burst:
  assumes "rtos_contract K V" and "queues_ok V s" and "available V (state_mutex s)"
    and "available V (sensor_kick s)" and "exit_status s = None" and "sensor_pc s = S_Take"
    and "fault_mode (xStats s) = FAULT_OVERFLOW"
  shows "let room = 6 - uxQueueMessagesWaiting (sensor_api K) (xSensorQueue s) in
    \<exists>s'. run_schedule K (replicate 16 Run_sensor) s = Some s' \<and> sensor_pc s' = S_Take
    \<and> sensor_sequence s' = sensor_sequence s + 3
    \<and> sensor_items V (xSensorQueue s') = sensor_items V (xSensorQueue s) @ take room
        (map (\<lambda>k. prvMakeSample FAULT_OVERFLOW (xTickCount s) (sensor_sequence s + k)) [1, 2, 3])
    \<and> sensor_samples (xStats s') = sensor_samples (xStats s) + of_nat (min 3 room)
    \<and> sensor_drops (xStats s') = sensor_drops (xStats s) + of_nat (3 - min 3 room)"
proof -
  note q = queue_contract_reset(3,4) [OF rtos_contractD(1) [OF assms(1)] queues_okD(1) [OF assms(2)]]
  from burst_run [of "view V s"] assms(3-7) q(2) obtain t where
    t: "run_schedule list_rtos (replicate 16 Run_sensor) (view V s) = Some t"
      "sensor_pc t = S_Take" "sensor_sequence t = sensor_sequence s + 3"
      "xSensorQueue t = sensor_items V (xSensorQueue s) @ take (6 - length (sensor_items V (xSensorQueue s))) (burst_samples (view V s))"
      "sensor_samples (xStats t) = sensor_samples (xStats s) + of_nat (min 3 (6 - length (sensor_items V (xSensorQueue s))))"
      "sensor_drops (xStats t) = sensor_drops (xStats s) + of_nat (3 - min 3 (6 - length (sensor_items V (xSensorQueue s))))"
    by auto
  have "map_option (view V) (run_schedule K (replicate 16 Run_sensor) s) = Some t"
    using run_simulates [OF assms(1,2), of "replicate 16 Run_sensor"] t(1) by (simp add: simulates_def)
  then obtain s' where "run_schedule K (replicate 16 Run_sensor) s = Some s'" "view V s' = t" by auto
  then show ?thesis
    using t(2-6) unfolding Let_def q(1)
    by (intro exI [of _ s']) (auto simp: burst_samples_def)
qed

definition kicked :: list_sys where
  "kicked = start_state\<lparr>sensor_kick := True, xStats := zero_stats\<lparr>fault_mode := FAULT_OVERFLOW\<rparr>,
     xSensorQueue := replicate 5 zero_sample\<rparr>"

theorem overflow_burst_witness:
  "\<exists>s'. run_schedule list_rtos (replicate 16 Run_sensor) kicked = Some s' \<and> sensor_drops (xStats s') = 2"
  using overflow_burst [OF list_rtos_contract, of kicked]
  by (auto simp: Let_def kicked_def queues_ok_def start_state_def boot_def zero_stats_def
      simp del: replicate.simps)

end
