(* ===== verification/FwPipeline.thy ===== *)
theory FwPipeline
  imports FwCycle
begin

unbundle bit_operations_syntax

text \<open>
  What travels through the telemetry pipeline (sensor task, sensor queue, processor task, telemetry
  queue, logger task) in every reachable state: everything in flight stems from the sample generator,
  and the sequence numbers on their way to the log are in order.
\<close>

subsection \<open>Provenance and order\<close>

definition genuine_sample :: "SensorSample \<Rightarrow> bool" where
  "genuine_sample x \<longleftrightarrow> (\<exists>mode tick. x = prvMakeSample mode tick (s_sequence x))"

definition genuine_frame :: "TelemetryFrame \<Rightarrow> bool" where
  "genuine_frame f \<longleftrightarrow>
     (\<exists>mode tick tick'. f = prvProcessSample tick' (prvMakeSample mode tick (f_sequence f)))"

lemma sequence_kept [simp]:
  "s_sequence (prvMakeSample mode tick seq) = seq" "f_sequence (prvProcessSample tick x) = s_sequence x"
  by (simp_all add: prvMakeSample_def prvProcessSample_def Let_def)

lemma genuine_made [simp]: "genuine_sample (prvMakeSample mode tick seq)"
  by (auto simp: genuine_sample_def)

lemma genuine_processed: "genuine_sample x \<Longrightarrow> genuine_frame (prvProcessSample tick x)"
  unfolding genuine_sample_def genuine_frame_def by (metis sequence_kept(2))

fun sensor_item :: "sensor_pc \<Rightarrow> SensorSample list" where
  "sensor_item (S_Send b x) = [x]"
| "sensor_item (S_Update b x) = [x]"
| "sensor_item _ = []"

fun processor_item :: "processor_pc \<Rightarrow> SensorSample list" where
  "processor_item (P_Count x) = [x]"
| "processor_item (P_Beat x) = [x]"
| "processor_item (P_Invalid x) = [x]"
| "processor_item (P_Mode x) = [x]"
| "processor_item (P_Stall x) = [x]"
| "processor_item (P_Delay n x) = [x]"
| "processor_item (P_Process x) = [x]"
| "processor_item _ = []"

fun processor_frame :: "processor_pc \<Rightarrow> TelemetryFrame list" where
  "processor_frame (P_Send f) = [f]"
| "processor_frame (P_Update f) = [f]"
| "processor_frame _ = []"

fun logger_frame :: "logger_pc \<Rightarrow> TelemetryFrame list" where
  "logger_frame L_Receive = []"
| "logger_frame (L_Count f) = [f]"
| "logger_frame (L_Beat f) = [f]"
| "logger_frame (L_Print f) = [f]"

definition genuine :: "list_sys \<Rightarrow> bool" where
  "genuine s \<longleftrightarrow>
     list_all genuine_sample (sensor_item (sensor_pc s) @ xSensorQueue s @ processor_item (processor_pc s))
   \<and> list_all genuine_frame (processor_frame (processor_pc s) @ xTelemetryQueue s @ logger_frame (logger_pc s))"

text \<open>The sequence numbers in the pipeline, the nearest to the log first.\<close>

fun sensor_number :: "u32 \<Rightarrow> sensor_pc \<Rightarrow> u32 list" where
  "sensor_number seq (S_Tick b mode) = [seq]"
| "sensor_number seq (S_Send b x) = [s_sequence x]"
| "sensor_number seq _ = []"

fun processor_number :: "processor_pc \<Rightarrow> u32 list" where
  "processor_number (P_Send f) = [f_sequence f]"
| "processor_number pc = map s_sequence (processor_item pc)"

lemma sensor_next_item [simp]:
  "sensor_item (sensor_next b) = []" "sensor_number seq (sensor_next b) = []"
  by (cases b; simp)+

definition pipeline :: "list_sys \<Rightarrow> u32 list" where
  "pipeline s = map f_sequence (logger_frame (logger_pc s)) @ map f_sequence (xTelemetryQueue s)
     @ processor_number (processor_pc s) @ map s_sequence (xSensorQueue s)
     @ sensor_number (sensor_sequence s) (sensor_pc s)"

definition logged :: "(c_ub + console_op list) list \<Rightarrow> TelemetryFrame list \<Rightarrow> bool" where
  "logged rs fs \<longleftrightarrow> list_all2 (\<lambda>r f. genuine_frame f \<and> (\<exists>fd. r = Inr (console_ops True fd (frame_line f)))) rs fs"

definition ordered :: "nat \<Rightarrow> u32 list \<Rightarrow> bool" where
  "ordered n xs \<longleftrightarrow> sorted_wrt (<) (map unat xs) \<and> (\<forall>x \<in> set xs. unat x \<le> n)"

definition in_order :: "nat \<Rightarrow> list_sys \<Rightarrow> bool" where
  "in_order n s \<longleftrightarrow> sensor_sequence s = of_nat n \<and> genuine s
     \<and> (\<exists>fs. logged (log_entries s) fs \<and> (n < 2 ^ 32 \<longrightarrow> ordered n (map f_sequence fs @ pipeline s)))"

lemma logged_snoc:
  "logged rs fs \<Longrightarrow> genuine_frame f \<Longrightarrow> logged (rs @ [Inr (console_ops True fd (frame_line f))]) (fs @ [f])"
  by (auto simp: logged_def intro!: list_all2_appendI)

lemma ordered_drop: "ordered n (xs @ ys @ zs) \<Longrightarrow> ordered n (xs @ zs)"
  by (auto simp: ordered_def sorted_wrt_append)

lemma ordered_snoc: "ordered n xs \<Longrightarrow> Suc n < 2 ^ 32 \<Longrightarrow> ordered (Suc n) (xs @ [of_nat (Suc n)])"
proof -
  assume "ordered n xs" and n: "Suc n < 2 ^ 32"
  moreover have "unat (of_nat (Suc n) :: u32) = Suc n"
    unfolding unat_of_nat using n by simp
  ultimately show ?thesis
    by (auto simp: ordered_def sorted_wrt_append less_Suc_eq_le le_SucI simp del: of_nat_Suc)
qed

text \<open>A step that leaves the log and the numbers in the pipeline alone, or takes some out.\<close>

lemma in_order_same:
  assumes "in_order n s" and "genuine s'" and "log_entries s' = log_entries s"
    and "sensor_sequence s' = sensor_sequence s" and "pipeline s = xs @ ys @ zs" and "pipeline s' = xs @ zs"
  shows "in_order n s'"
proof -
  obtain fs where fs: "logged (log_entries s) fs" "n < 2 ^ 32 \<longrightarrow> ordered n (map f_sequence fs @ pipeline s)"
    using assms(1) by (auto simp: in_order_def)
  have "n < 2 ^ 32 \<longrightarrow> ordered n (map f_sequence fs @ pipeline s')"
    using fs(2) ordered_drop [of n "map f_sequence fs @ xs" ys zs] assms(5,6) by simp
  then show ?thesis using assms(1-4) fs(1) by (auto simp: in_order_def)
qed

lemma sensor_in_order:
  assumes "state_mutex s" and "in_order n s" and "prvSensorTask list_rtos s = Some s'"
  shows "in_order (if sensor_sequence s' = sensor_sequence s then n else Suc n) s'"
proof (cases "sensor_pc s")
  case (S_Make b)
  then have s': "s' = s\<lparr>sensor_sequence := sensor_sequence s + 1, sensor_pc := S_Tick b (fault_mode (xStats s))\<rparr>"
    using assms(1,3) by (auto simp: prvSensorTask_def)
  obtain fs where fs: "logged (log_entries s) fs" "n < 2 ^ 32 \<longrightarrow> ordered n (map f_sequence fs @ pipeline s)"
    and seq: "sensor_sequence s = of_nat n" and g: "genuine s"
    using assms(2) by (auto simp: in_order_def)
  have "pipeline s' = pipeline s @ [of_nat (Suc n)]" and "genuine s'"
    using g S_Make seq by (simp_all add: s' pipeline_def genuine_def add.commute)
  moreover have "Suc n < 2 ^ 32 \<longrightarrow> ordered (Suc n) (map f_sequence fs @ pipeline s @ [of_nat (Suc n)])"
    using fs(2) ordered_snoc [of n "map f_sequence fs @ pipeline s"] by auto
  ultimately show ?thesis
    using fs(1) seq by (auto simp: in_order_def s' add.commute)
next
  case (S_Send b x)
  have seq: "sensor_sequence s' = sensor_sequence s"
    using S_Send assms(3) by (auto simp: prvSensorTask_def split: prod.splits)
  show ?thesis
  proof (cases "length (xSensorQueue s) < 6")
    case True
    then show ?thesis
      using S_Send assms in_order_same [OF assms(2), of s' "pipeline s" "[]" "[]"] seq
      by (auto simp: prvSensorTask_def spec_push_def genuine_def pipeline_def in_order_def)
  next
    case False
    then show ?thesis
      using S_Send assms in_order_same [OF assms(2), of s' "pipeline s'" "[s_sequence x]" "[]"] seq
      by (auto simp: prvSensorTask_def spec_push_def genuine_def pipeline_def in_order_def)
  qed
next
  case (S_Tick b mode)
  then show ?thesis
    using assms in_order_same [OF assms(2), of s' "pipeline s" "[]" "[]"]
    by (auto simp: prvSensorTask_def genuine_def pipeline_def in_order_def)
qed (use assms in_order_same [OF assms(2), of s' "pipeline s" "[]" "[]"] in
  \<open>auto simp: prvSensorTask_def section_defs genuine_def pipeline_def in_order_def split: batch.splits\<close>)


lemma processor_in_order:
  assumes "state_mutex s" and "in_order n s" and "prvProcessorTask list_rtos g s = Some s'"
  shows "in_order n s'"
proof (cases "processor_pc s")
  case (P_Send f)
  show ?thesis
  proof (cases "length (xTelemetryQueue s) < 6")
    case True
    then show ?thesis
      using P_Send assms in_order_same [OF assms(2), of s' "pipeline s" "[]" "[]"]
      by (auto simp: prvProcessorTask_def spec_push_def genuine_def pipeline_def in_order_def)
  next
    case False
    let ?a = "map f_sequence (logger_frame (logger_pc s)) @ map f_sequence (xTelemetryQueue s)"
      and ?z = "map s_sequence (xSensorQueue s) @ sensor_number (sensor_sequence s) (sensor_pc s)"
    show ?thesis
      using False P_Send assms in_order_same [OF assms(2), of s' ?a "[f_sequence f]" ?z]
      by (auto simp: prvProcessorTask_def spec_push_def genuine_def pipeline_def in_order_def)
  qed
next
  case (P_Process x)
  then show ?thesis
    using assms in_order_same [OF assms(2), of s' "pipeline s" "[]" "[]"]
    by (auto simp: prvProcessorTask_def genuine_def pipeline_def in_order_def genuine_processed)
qed (use assms in_order_same [OF assms(2), of s' "pipeline s" "[]" "[]"] in
  \<open>auto simp: prvProcessorTask_def section_defs genuine_def pipeline_def in_order_def spec_pop_Some\<close>)

lemma logger_in_order:
  assumes "state_mutex s" and "xConsoleMutex s" and "length g = 256" and "in_order n s"
    and "prvLoggerTask list_rtos g s = Some s'"
  shows "in_order n s'"
proof (cases "logger_pc s")
  case (L_Print f)
  then have s': "s' = (print_text Logger (\<lambda>m fd. prvPrintFrame m fd g f) s)\<lparr>logger_pc := L_Receive\<rparr>"
    using assms(5) by (auto simp: prvLoggerTask_def)
  obtain fs where fs: "logged (log_entries s) fs" "n < 2 ^ 32 \<longrightarrow> ordered n (map f_sequence fs @ pipeline s)"
    and seq: "sensor_sequence s = of_nat n" and g: "genuine s"
    using assms(4) by (auto simp: in_order_def)
  have "log_entries s' = log_entries s @ [Inr (console_ops True (xLogFd s) (frame_line f))]"
    using assms(2,3) by (simp add: s' print_frame_eq)
  then have "logged (log_entries s') (fs @ [f])"
    using logged_snoc [OF fs(1)] g L_Print by (simp add: genuine_def)
  moreover have "pipeline s = f_sequence f # pipeline s'" and "genuine s'"
    using g L_Print by (simp_all add: s' pipeline_def genuine_def)
  ultimately show ?thesis
    using fs(2) seq by (auto simp: in_order_def s' intro!: exI [of _ "fs @ [f]"])
qed (use assms in_order_same [OF assms(4), of s' "pipeline s" "[]" "[]"] in
  \<open>auto simp: prvLoggerTask_def section_defs genuine_def pipeline_def in_order_def spec_pop_Some\<close>)

lemma watchdog_in_order:
  assumes "state_mutex s" and "in_order n s" and "prvWatchdogTask list_rtos x g s = Some s'"
  shows "in_order n s'"
  by (cases "watchdog_pc s")
    (use assms in_order_same [OF assms(2), of s' "pipeline s" "[]" "[]"] in
      \<open>auto simp: prvWatchdogTask_def section_defs genuine_def pipeline_def in_order_def\<close>)

lemma diagnostics_in_order:
  assumes "state_mutex s" and "in_order n s" and "prvDiagnosticsTask list_rtos env s = Some s'"
  shows "in_order n s'"
proof -
  obtain a todo where a: "diag_todo s = a # todo"
    using assms(3) by (cases "diag_todo s") (auto simp: prvDiagnosticsTask_def)
  note same = in_order_same [OF assms(2), of s' "pipeline s" "[]" "[]"]
  show ?thesis
  proof (cases a)
    case A_ResetSensorQueue
    let ?a = "map f_sequence (logger_frame (logger_pc s)) @ map f_sequence (xTelemetryQueue s)
        @ processor_number (processor_pc s)"
    show ?thesis
      using A_ResetSensorQueue a assms in_order_same [OF assms(2), of s' ?a "map s_sequence (xSensorQueue s)"
          "sensor_number (sensor_sequence s) (sensor_pc s)"]
      by (auto simp: prvDiagnosticsTask_def genuine_def pipeline_def in_order_def)
  next
    case A_ResetTelemetryQueue
    let ?z = "processor_number (processor_pc s) @ map s_sequence (xSensorQueue s)
        @ sensor_number (sensor_sequence s) (sensor_pc s)"
    show ?thesis
      using A_ResetTelemetryQueue a assms in_order_same [OF assms(2), of s'
          "map f_sequence (logger_frame (logger_pc s))" "map f_sequence (xTelemetryQueue s)" ?z]
      by (auto simp: prvDiagnosticsTask_def genuine_def pipeline_def in_order_def)
  qed (use a assms same in \<open>auto simp: prvDiagnosticsTask_def genuine_def pipeline_def in_order_def\<close>)
qed

lemma perform_in_order:
  assumes "sane s" and "in_order n s" and "choice_ok c" and "perform list_rtos c s = Some s'"
  shows "in_order (if sensor_sequence s' = sensor_sequence s then n else Suc n) s'"
proof -
  have m: "state_mutex s" "xConsoleMutex s" using assms(1) by (simp_all add: sane_def)
  have kept: ?thesis if "in_order n s'"
    using that assms(2) by (simp add: in_order_def)
  show ?thesis
  proof (cases c)
    case Run_sensor
    then show ?thesis using sensor_in_order [OF m(1) assms(2)] assms(4) by simp
  next
    case (Run_processor g)
    then show ?thesis using kept processor_in_order [OF m(1) assms(2)] assms(4) by simp
  next
    case (Run_logger g)
    then show ?thesis using kept logger_in_order [OF m _ assms(2)] assms(3,4) by simp
  next
    case (Run_watchdog x g)
    then show ?thesis using kept watchdog_in_order [OF m(1) assms(2)] assms(4) by simp
  next
    case (Run_diagnostics env)
    then show ?thesis using kept diagnostics_in_order [OF m(1) assms(2)] assms(4) by simp
  qed (use kept assms in_order_same [OF assms(2), of s' "pipeline s" "[]" "[]"] in
    \<open>auto simp: prvSensorTimerCallback_def genuine_def pipeline_def in_order_def\<close>)
qed

lemma reach_in_order: "fw_reach list_rtos n s \<Longrightarrow> sane s \<and> in_order n s"
proof (induction rule: list_reach_induct)
  case (Start env s)
  then show ?case
    by (auto simp: main_list boot_def sane_def in_order_def genuine_def pipeline_def log_entries_def
        banner_entries_def banner_def logged_def ordered_def)
next
  case (Step n s c s')
  then show ?case using sane_step [of s c s'] perform_in_order [of s n c s'] by simp
qed

lemma log_entries_view [simp]: "log_entries (view V s) = log_entries s"
  by (simp add: log_entries_def)

lemma unreset_view [simp]: "unreset (view V s) = unreset s"
  by (simp add: unreset_def)

text \<open>The number of samples between the numbering in the sensor task and the line in the log.\<close>

definition in_flight :: "('sq, 'tq, 'eg, 'sem) rtos \<Rightarrow> ('sq, 'tq, 'eg, 'sem) sys \<Rightarrow> nat" where
  "in_flight K s =
     (case sensor_pc s of S_Tick b m \<Rightarrow> 1 | S_Send b x \<Rightarrow> 1 | S_Drop b \<Rightarrow> 1 | _ \<Rightarrow> 0)
     + uxQueueMessagesWaiting (sensor_api K) (xSensorQueue s)
     + (case processor_pc s of P_Receive \<Rightarrow> 0 | P_Update f \<Rightarrow> 0 | _ \<Rightarrow> 1)
     + uxQueueMessagesWaiting (telemetry_api K) (xTelemetryQueue s)
     + (case logger_pc s of L_Receive \<Rightarrow> 0 | _ \<Rightarrow> 1)"

lemma in_flight_view:
  assumes "rtos_contract K V" and "queues_ok V s"
  shows "in_flight list_rtos (view V s) = in_flight K s"
  using queue_contract_reset(3) [OF rtos_contractD(1) [OF assms(1)] queues_okD(1) [OF assms(2)]]
    queue_contract_reset(3) [OF rtos_contractD(2) [OF assms(1)] queues_okD(2) [OF assms(2)]]
  by (simp add: in_flight_def)

lemma accounts_total:
  assumes "accounts s"
  shows "sensor_sequence s = sensor_drops (xStats s) + telemetry_drops (xStats s)
    + of_nat (length (log_entries s)) + of_nat (in_flight list_rtos s)"
proof -
  have s: "unsettled (sensor_pc s) = uncounted_sample (sensor_pc s) +
      of_nat (case sensor_pc s of S_Tick b m \<Rightarrow> 1 | S_Send b x \<Rightarrow> 1 | S_Drop b \<Rightarrow> 1 | _ \<Rightarrow> 0)"
    by (cases "sensor_pc s") simp_all
  have p: "in_processor (processor_pc s) = uncounted_frame (processor_pc s) +
      of_nat (case processor_pc s of P_Receive \<Rightarrow> 0 | P_Update f \<Rightarrow> 0 | _ \<Rightarrow> 1)"
    by (cases "processor_pc s") simp_all
  have l: "in_logger (logger_pc s) = of_nat (case logger_pc s of L_Receive \<Rightarrow> 0 | _ \<Rightarrow> 1)"
    by (cases "logger_pc s") simp_all
  show ?thesis
    using assms unfolding accounts_def Let_def s p l in_flight_def by (simp add: algebra_simps)
qed

subsection \<open>Properties\<close>

text \<open>In every reachable state of the firmware over any kernel that keeps the contract, both queues
  hold at most six messages and the lock of the statistics is free, so no task ever waits for it
  between two steps.\<close>

theorem queues_bounded:
  assumes "rtos_contract K V" and "fw_reach K n s"
  shows "uxQueueMessagesWaiting (sensor_api K) (xSensorQueue s) \<le> 6
    \<and> uxQueueMessagesWaiting (telemetry_api K) (xTelemetryQueue s) \<le> 6
    \<and> available V (state_mutex s) \<and> sensor_sequence s = of_nat n"
proof -
  have v: "fw_reach list_rtos n (view V s)" "queues_ok V s"
    using fw_reach_view [OF assms(2,1)] by simp_all
  show ?thesis
    using reach_in_order [OF v(1)]
      queue_contract_reset(3,4) [OF rtos_contractD(1) [OF assms(1)] queues_okD(1) [OF v(2)]]
      queue_contract_reset(3,4) [OF rtos_contractD(2) [OF assms(1)] queues_okD(2) [OF v(2)]]
    by (simp add: sane_def in_order_def)
qed

theorem queues_bounded_witness:
  "uxQueueMessagesWaiting (sensor_api list_rtos) (xSensorQueue first_period) \<le> 6"
proof -
  obtain m where "fw_reach list_rtos m first_period" using first_period_reached by auto
  from queues_bounded [OF list_rtos_contract this] show ?thesis by simp
qed

text \<open>C1: No sample is lost without a trace: in every reachable state before the self-test's reset, the
  number of samples made is the two drop counters plus the lines in the log plus what is in flight,
  modulo \<open>2^32\<close>, over every interleaving of the tasks.\<close>

theorem samples_accounted:
  assumes "rtos_contract K V" and "fw_reach K n s" and "A_ResetStats \<in> set (diag_todo s)"
  shows "of_nat n = sensor_drops (xStats s) + telemetry_drops (xStats s)
    + of_nat (length (log_entries s)) + of_nat (in_flight K s)"
proof -
  have v: "fw_reach list_rtos n (view V s)" "queues_ok V s"
    using fw_reach_view [OF assms(2,1)] by simp_all
  have "accounts (view V s)"
    using reach_accounts [OF v(1)] assms(3) by (simp add: unreset_def)
  from accounts_total [OF this] show ?thesis
    using reach_in_order [OF v(1)] in_flight_view [OF assms(1) v(2)] by (simp add: in_order_def)
qed

theorem samples_accounted_witness:
  "\<exists>m. fw_reach list_rtos m first_period \<and> of_nat m = (1 :: u32)"
proof -
  obtain m where m: "fw_reach list_rtos m first_period" using first_period_reached by auto
  from samples_accounted [OF list_rtos_contract this] show ?thesis
    using first_period_facts m self_test_resets
    by (auto simp: in_flight_def idle_def)
qed

text \<open>C2: The log is in order and genuine: for fewer than \<open>2^32\<close> samples, the logger's lines are the
  lines of frames that were derived from generated samples, their sequence numbers strictly increase
  from line to line (no duplicate, no reordering, over every interleaving and also across a reset),
  and every number still in the pipeline is larger.\<close>

theorem log_in_order:
  assumes "rtos_contract K V" and "fw_reach K n s" and "n < 2 ^ 32"
  shows "\<exists>fs. list_all2 (\<lambda>r f. \<exists>fd. r = Inr (console_ops True fd (frame_line f))) (log_entries s) fs
    \<and> list_all genuine_frame fs
    \<and> sorted_wrt (<) (map (unat \<circ> f_sequence) fs @ map unat (pipeline (view V s)))"
proof -
  have v: "fw_reach list_rtos n (view V s)"
    using fw_reach_view [OF assms(2,1)] by simp
  obtain fs where "logged (log_entries s) fs" and "ordered n (map f_sequence fs @ pipeline (view V s))"
    using reach_in_order [OF v] assms(3) by (auto simp: in_order_def)
  then show ?thesis
    by (auto simp: logged_def ordered_def list_all2_conv_all_nth list_all_length intro!: exI [of _ fs])
qed

theorem log_in_order_witness:
  "\<exists>fs. list_all2 (\<lambda>r f. \<exists>fd. r = Inr (console_ops True fd (frame_line f))) (log_entries first_period) fs
    \<and> length fs = 1 \<and> list_all genuine_frame fs"
proof -
  obtain m where m: "fw_reach list_rtos m first_period" "m \<le> 40" using first_period_reached by auto
  from log_in_order [OF list_rtos_contract m(1)] m(2) obtain fs where
    "list_all2 (\<lambda>r f. \<exists>fd. r = Inr (console_ops True fd (frame_line f))) (log_entries first_period) fs"
    "list_all genuine_frame fs" by auto
  then show ?thesis
    using first_period_facts(3) by (intro exI [of _ fs]) (auto dest: list_all2_lengthD)
qed

text \<open>C11: End to end, from the generator to the text: every line the logger ever writes is the line of a
  frame that either is marked invalid and carries the sensor fault's fixed values, or is valid and
  has engine speed 1114 to 1519, throttle 13.6 to 18.9 percent and speed 6.6 to 27.8 km/h.\<close>

theorem logged_frames_in_bounds:
  assumes "rtos_contract K V" and "fw_reach K n s" and "r \<in> set (log_entries s)"
  shows "\<exists>fd f. r = Inr (console_ops True fd (frame_line f))
    \<and> (if f_valid f then uint (f_rpm f) \<in> {1114..1519} \<and> uint (f_throttle_pct_x10 f) \<in> {136..189}
         \<and> uint (f_speed_kmh_x10 f) \<in> {66..278}
       else f_rpm f = 2735 \<and> f_throttle_pct_x10 f = 330 \<and> f_speed_kmh_x10 f = 840)"
proof -
  obtain fs where "logged (log_entries s) fs"
    using reach_in_order [OF conjunct1 [OF fw_reach_view [OF assms(2,1)]]] by (auto simp: in_order_def)
  then obtain fd f where r: "r = Inr (console_ops True fd (frame_line f))" and "genuine_frame f"
    using assms(3) unfolding logged_def list_all2_conv_all_nth in_set_conv_nth by auto
  then obtain mode tick tick' where "f = prvProcessSample tick' (prvMakeSample mode tick (f_sequence f))"
    by (auto simp: genuine_frame_def)
  with r show ?thesis
    using frame_bounds [of tick' mode tick "f_sequence f"] by (auto split: if_splits)
qed

theorem logged_frames_in_bounds_witness:
  "\<exists>fd f. Inr (console_ops True (- 1) (frame_line (next_frame start_state))) = (Inr (console_ops True fd (frame_line f)) :: c_ub + console_op list)
    \<and> (if f_valid f then uint (f_rpm f) \<in> {1114..1519} \<and> uint (f_throttle_pct_x10 f) \<in> {136..189}
         \<and> uint (f_speed_kmh_x10 f) \<in> {66..278}
       else f_rpm f = 2735 \<and> f_throttle_pct_x10 f = 330 \<and> f_speed_kmh_x10 f = 840)"
proof -
  obtain m where "fw_reach list_rtos m first_period" using first_period_reached by auto
  from logged_frames_in_bounds [OF list_rtos_contract this] show ?thesis
    by (simp add: first_period_facts(3))
qed

end
