(* ===== verification/FwDrain.thy ===== *)
theory FwDrain
  imports FwPipeline
begin

text \<open>
  Progress of the pipeline. Between two kicks of the timer the sensor, processor and logger tasks
  can only make a bounded number of steps, whatever their order (\<open>work\<close> decreases with each), and as
  long as a sample is in flight one of them can step: the pipeline always drains.
\<close>

subsection \<open>The work that is left\<close>

text \<open>The weights are the most steps that can follow: a message in the sensor queue is worth the
  processor's ten steps and the logger's four.\<close>

fun after_batch :: "batch \<Rightarrow> nat" where
  "after_batch Single = 0"
| "after_batch (Burst i) = 18 * (2 - i)"

fun sensor_work :: "sensor_pc \<Rightarrow> nat" where
  "sensor_work S_Take = 0"
| "sensor_work S_Count = 57"
| "sensor_work S_Beat = 56"
| "sensor_work S_Mode = 55"
| "sensor_work (S_Make b) = 18 + after_batch b"
| "sensor_work (S_Tick b mode) = 17 + after_batch b"
| "sensor_work (S_Send b x) = 16 + after_batch b"
| "sensor_work (S_Update b x) = 1 + after_batch b"
| "sensor_work (S_Drop b) = 1 + after_batch b"

fun processor_work :: "processor_pc \<Rightarrow> nat" where
  "processor_work P_Receive = 0"
| "processor_work (P_Count x) = 13"
| "processor_work (P_Beat x) = 12"
| "processor_work (P_Invalid x) = 11"
| "processor_work (P_Mode x) = 10"
| "processor_work (P_Stall x) = 9"
| "processor_work (P_Delay n x) = 8"
| "processor_work (P_Process x) = 7"
| "processor_work (P_Send f) = 6"
| "processor_work (P_Update f) = 1"
| "processor_work P_Drop = 1"

fun logger_work :: "logger_pc \<Rightarrow> nat" where
  "logger_work L_Receive = 0"
| "logger_work (L_Count f) = 3"
| "logger_work (L_Beat f) = 2"
| "logger_work (L_Print f) = 1"

definition work :: "list_sys \<Rightarrow> nat" where
  "work s = (if sensor_kick s then 58 else 0) + sensor_work (sensor_pc s) + 14 * length (xSensorQueue s)
     + processor_work (processor_pc s) + 4 * length (xTelemetryQueue s) + logger_work (logger_pc s)"

fun is_worker :: "choice \<Rightarrow> bool" where
  "is_worker Run_sensor = True"
| "is_worker (Run_processor g) = True"
| "is_worker (Run_logger g) = True"
| "is_worker _ = False"

lemma sensor_next_work [simp]: "sensor_work (sensor_next b) \<le> after_batch b"
  by (cases b) auto

lemma worker_step_decreases:
  assumes "state_mutex s" and "is_worker c" and "perform list_rtos c s = Some s'"
  shows "work s' < work s"
proof (cases c)
  case Run_sensor
  have "sensor_work (sensor_next b) < Suc (after_batch b)" for b
    using sensor_next_work [of b] by linarith
  then show ?thesis
    using assms Run_sensor by (cases "sensor_pc s")
      (auto simp: work_def prvSensorTask_def section_defs spec_push_def split: if_splits)
next
  case (Run_processor g)
  then show ?thesis
    using assms by (cases "processor_pc s")
      (auto simp: work_def prvProcessorTask_def section_defs spec_push_def spec_pop_Some split: if_splits)
next
  case (Run_logger g)
  then show ?thesis
    using assms by (cases "logger_pc s")
      (auto simp: work_def prvLoggerTask_def section_defs spec_pop_Some)
qed (use assms(2) in auto)

text \<open>A worker can step unless all three wait with nothing to wait for.\<close>

lemma sensor_blocked:
  fixes s :: list_sys
  assumes "state_mutex s" and "prvSensorTask list_rtos s = None"
  shows "sensor_pc s = S_Take \<and> \<not> sensor_kick s"
  using assms by (cases "sensor_pc s") (auto simp: prvSensorTask_def section_defs split: prod.splits)

lemma spec_pop_None: "spec_pop q = None \<longleftrightarrow> q = []"
  by (cases q) auto

lemma processor_blocked:
  fixes s :: list_sys
  assumes "state_mutex s" and "prvProcessorTask list_rtos g s = None"
  shows "processor_pc s = P_Receive \<and> xSensorQueue s = []"
  using assms by (cases "processor_pc s") (auto simp: prvProcessorTask_def section_defs spec_pop_None split: prod.splits)

lemma logger_blocked:
  fixes s :: list_sys
  assumes "state_mutex s" and "prvLoggerTask list_rtos g s = None"
  shows "logger_pc s = L_Receive \<and> xTelemetryQueue s = []"
  using assms by (cases "logger_pc s") (auto simp: prvLoggerTask_def section_defs spec_pop_None)

lemma worker_enabled:
  assumes "state_mutex s" and "work s \<noteq> 0"
  shows "\<exists>c. is_worker c \<and> (\<forall>g. c = Run_processor g \<or> c = Run_logger g \<longrightarrow> g = h) \<and> perform list_rtos c s \<noteq> None"
proof (rule ccontr)
  assume no: "\<not> ?thesis"
  have "prvSensorTask list_rtos s = None" and "prvProcessorTask list_rtos h s = None"
    and "prvLoggerTask list_rtos h s = None"
    using no is_worker.simps(1-3) perform.simps(3-5) by (metis choice.distinct choice.inject)+
  then show False
    using assms sensor_blocked [of s] processor_blocked [of s h] logger_blocked [of s h]
    by (simp add: work_def)
qed

lemma work_bound:
  assumes "sane s"
  shows "work s \<le> 239"
proof -
  have b: "after_batch b \<le> 36" for b by (cases b) auto
  have "sensor_work (sensor_pc s) \<le> 57"
  proof (cases "sensor_pc s")
    case (S_Make x)
    then show ?thesis using b [of x] by simp
  next
    case (S_Tick x mode)
    then show ?thesis using b [of x] by simp
  next
    case (S_Send x y)
    then show ?thesis using b [of x] by simp
  next
    case (S_Update x y)
    then show ?thesis using b [of x] by simp
  next
    case (S_Drop x)
    then show ?thesis using b [of x] by simp
  qed simp_all
  moreover have "processor_work (processor_pc s) \<le> 13" by (cases "processor_pc s") auto
  moreover have "logger_work (logger_pc s) \<le> 3" by (cases "logger_pc s") auto
  ultimately show ?thesis using assms by (simp add: work_def sane_def)
qed

lemma worker_runs_on:
  assumes "state_mutex s" and "is_worker c" and "perform list_rtos c s = Some s'"
  shows "exit_status s' = exit_status s"
proof (cases c)
  case Run_sensor
  then show ?thesis
    using assms by (cases "sensor_pc s") (auto simp: prvSensorTask_def section_defs split: prod.splits)
next
  case (Run_processor g)
  then show ?thesis
    using assms by (cases "processor_pc s") (auto simp: prvProcessorTask_def section_defs split: prod.splits)
next
  case (Run_logger g)
  then show ?thesis
    using assms by (cases "logger_pc s") (auto simp: prvLoggerTask_def section_defs)
qed (use assms(2) in auto)

lemma worker_run:
  assumes "run_schedule list_rtos cs s = Some s'" and "list_all is_worker cs" and "sane s"
  shows "length cs + work s' \<le> work s \<and> sane s'"
  using assms
proof (induction cs arbitrary: s)
  case (Cons c cs)
  from Cons.prems(1) obtain t where t: "perform list_rtos c s = Some t" "run_schedule list_rtos cs t = Some s'"
    by (auto split: if_splits bind_splits)
  have "work t < work s" and "sane t"
    using worker_step_decreases [of s c t] sane_step [OF Cons.prems(3) t(1)] t(1) Cons.prems(2,3)
    by (simp_all add: sane_def)
  then show ?case using Cons.IH [OF t(2)] Cons.prems(2) by simp
qed simp

lemma drained: "work s = 0 \<Longrightarrow> in_flight list_rtos s = 0"
  by (cases "sensor_pc s"; cases "processor_pc s"; cases "logger_pc s")
    (simp_all add: work_def in_flight_def split: if_splits)

lemma drain_list:
  assumes "sane s" and "exit_status s = None" and "length (h :: string) = 256"
  shows "\<exists>cs s'. list_all is_worker cs \<and> list_all choice_ok cs \<and> run_schedule list_rtos cs s = Some s' \<and> work s' = 0"
  using assms(1,2)
proof (induction "work s" arbitrary: s rule: less_induct)
  case less
  show ?case
  proof (cases "work s = 0")
    case True
    then show ?thesis by (intro exI [of _ "[]"] exI [of _ s]) simp
  next
    case False
    have m: "state_mutex s" using less.prems by (simp add: sane_def)
    obtain c t where c: "is_worker c" "perform list_rtos c s = Some t"
      "\<forall>g. c = Run_processor g \<or> c = Run_logger g \<longrightarrow> g = h"
      using worker_enabled [OF m False, of h] by auto
    have ok: "choice_ok c" using c(1,3) assms(3) by (cases c) auto
    obtain cs s' where "list_all is_worker cs" "list_all choice_ok cs"
      "run_schedule list_rtos cs t = Some s'" "work s' = 0"
      using less.hyps [OF worker_step_decreases [OF m c(1,2)] sane_step [OF less.prems(1) c(2)]]
        worker_runs_on [OF m c(1,2)] less.prems(2) by auto
    then show ?thesis
      using c ok less.prems(2) by (intro exI [of _ "c # cs"] exI [of _ s']) simp
  qed
qed

subsection \<open>Properties\<close>


definition loaded :: list_sys where
  "loaded = sampled (start_state\<lparr>sensor_kick := True\<rparr>)"

lemma loaded_reached: "\<exists>m. fw_reach list_rtos m loaded" "in_flight list_rtos loaded = 1" "exit_status loaded = None"
proof -
  have "run_schedule list_rtos (replicate 8 Run_sensor) (start_state\<lparr>sensor_kick := True\<rparr>) = Some loaded"
    unfolding loaded_def by (rule sensor_run) (simp_all add: start_state_def boot_def zero_stats_def)
  then have "run_schedule list_rtos (Run_timer # replicate 8 Run_sensor) start_state = Some loaded"
    using start_idle(1) by (simp add: prvSensorTimerCallback_def idle_def del: replicate.simps)
  then show "\<exists>m. fw_reach list_rtos m loaded"
    using run_schedule_reach [OF _ _ start_reached] by (fastforce simp: list_all_iff)
qed (simp_all add: loaded_def sampled_def start_state_def boot_def in_flight_def Let_def)


end
