(* ===== verification/FwPeriod.thy ===== *)
theory FwPeriod
  imports FwDrain
begin

unbundle bit_operations_syntax

text \<open>
  One timer period under every interleaving: after a kick from the idle state the sensor, processor and
  logger tasks may take their steps in any order, and where none of them can go on the state is always
  the same. The invariant counts how far each of the three has come.
\<close>

subsection \<open>How far the three tasks have come\<close>

definition sensor_stage :: "FaultMode \<Rightarrow> SensorSample \<Rightarrow> nat \<Rightarrow> sensor_pc" where
  "sensor_stage mode x a =
     [S_Take, S_Count, S_Beat, S_Mode, S_Make Single, S_Tick Single mode, S_Send Single x, S_Update Single x, S_Take] ! a"

definition processor_stage :: "SensorSample \<Rightarrow> TelemetryFrame \<Rightarrow> nat \<Rightarrow> processor_pc" where
  "processor_stage x f p =
     [P_Receive, P_Count x, P_Beat x, P_Invalid x, P_Mode x, P_Stall x, P_Delay 450 x, P_Process x, P_Send f, P_Update f,
      P_Receive] ! p"

definition logger_stage :: "TelemetryFrame \<Rightarrow> nat \<Rightarrow> logger_pc" where
  "logger_stage f l = [L_Receive, L_Count f, L_Beat f, L_Print f, L_Receive] ! l"

definition stage_stats :: "list_sys \<Rightarrow> nat \<Rightarrow> nat \<Rightarrow> nat \<Rightarrow> AppStats" where
  "stage_stats s a p l = (xStats s)\<lparr>
     sensor_samples := sensor_samples (xStats s) + (if 8 \<le> a then 1 else 0),
     telemetry_frames := telemetry_frames (xStats s) + (if 10 \<le> p then 1 else 0),
     sensor_faults := sensor_faults (xStats s) + (if 4 \<le> p \<and> \<not> s_valid (next_sample s) then 1 else 0),
     task_sensor_beats := task_sensor_beats (xStats s) + (if 2 \<le> a then 1 else 0),
     task_processor_beats := task_processor_beats (xStats s) + (if 2 \<le> p then 1 else 0),
     task_logger_beats := task_logger_beats (xStats s) + (if 2 \<le> l then 1 else 0),
     last_sample := if 8 \<le> a then next_sample s else last_sample (xStats s),
     last_frame := if 10 \<le> p then next_frame s else last_frame (xStats s)\<rparr>"

definition stage_bits :: "list_sys \<Rightarrow> nat \<Rightarrow> nat \<Rightarrow> nat \<Rightarrow> u32" where
  "stage_bits s a p l = heartbeat_events s OR (if 3 \<le> a then 1 else 0) OR (if 3 \<le> p then 2 else 0) OR (if 3 \<le> l then 4 else 0)"

lemma stage_stats_same [simp]:
  "stage_stats s (Suc 0) p l = stage_stats s 0 p l" "stage_stats s 3 p l = stage_stats s 2 p l"
  "stage_stats s 4 p l = stage_stats s 2 p l" "stage_stats s 5 p l = stage_stats s 2 p l"
  "stage_stats s 6 p l = stage_stats s 2 p l" "stage_stats s 7 p l = stage_stats s 2 p l"
  "stage_stats s a (Suc 0) l = stage_stats s a 0 l" "stage_stats s a 3 l = stage_stats s a 2 l"
  "stage_stats s a 5 l = stage_stats s a 4 l" "stage_stats s a 6 l = stage_stats s a 4 l"
  "stage_stats s a 7 l = stage_stats s a 4 l" "stage_stats s a 8 l = stage_stats s a 4 l"
  "stage_stats s a 9 l = stage_stats s a 4 l" "stage_stats s a p (Suc 0) = stage_stats s a p 0"
  "stage_stats s a p 3 = stage_stats s a p 2" "stage_stats s a p 4 = stage_stats s a p 2"
  by (simp_all add: stage_stats_def)

lemma stage_stats_step:
  "task_sensor_beats_update (\<lambda>n. n + 1) (stage_stats s 0 p l) = stage_stats s 2 p l"
  "(stage_stats s 2 p l)\<lparr>sensor_samples := sensor_samples (stage_stats s 2 p l) + 1, last_sample := next_sample s\<rparr>
     = stage_stats s 8 p l"
  "task_processor_beats_update (\<lambda>n. n + 1) (stage_stats s a 0 l) = stage_stats s a 2 l"
  "\<not> s_valid (next_sample s) \<Longrightarrow> sensor_faults_update (\<lambda>n. n + 1) (stage_stats s a 2 l) = stage_stats s a 4 l"
  "s_valid (next_sample s) \<Longrightarrow> stage_stats s a 2 l = stage_stats s a 4 l"
  "(stage_stats s a 4 l)\<lparr>telemetry_frames := telemetry_frames (stage_stats s a 4 l) + 1, last_frame := next_frame s\<rparr>
     = stage_stats s a 10 l"
  "task_logger_beats_update (\<lambda>n. n + 1) (stage_stats s a p 0) = stage_stats s a p 2"
  by (simp_all add: stage_stats_def split del: if_split)

lemma stage_stats_mode [simp]: "fault_mode (stage_stats s a p l) = fault_mode (xStats s)"
  by (simp add: stage_stats_def)

lemma stage_bits_same [simp]:
  "stage_bits s (Suc 0) p l = stage_bits s 0 p l" "stage_bits s 2 p l = stage_bits s 0 p l"
  "stage_bits s 4 p l = stage_bits s 3 p l" "stage_bits s 5 p l = stage_bits s 3 p l" "stage_bits s 6 p l = stage_bits s 3 p l"
  "stage_bits s 7 p l = stage_bits s 3 p l" "stage_bits s 8 p l = stage_bits s 3 p l"
  "stage_bits s a (Suc 0) l = stage_bits s a 0 l" "stage_bits s a 2 l = stage_bits s a 0 l" "stage_bits s a 4 l = stage_bits s a 3 l"
  "stage_bits s a 5 l = stage_bits s a 3 l" "stage_bits s a 6 l = stage_bits s a 3 l" "stage_bits s a 7 l = stage_bits s a 3 l"
  "stage_bits s a 8 l = stage_bits s a 3 l" "stage_bits s a 9 l = stage_bits s a 3 l" "stage_bits s a 10 l = stage_bits s a 3 l"
  "stage_bits s a p (Suc 0) = stage_bits s a p 0" "stage_bits s a p 2 = stage_bits s a p 0" "stage_bits s a p 4 = stage_bits s a p 3"
  by (simp_all add: stage_bits_def)

lemma stage_bits_step:
  "stage_bits s 0 p l OR EVT_SENSOR = stage_bits s 3 p l"
  "stage_bits s a 0 l OR EVT_PROCESSOR = stage_bits s a 3 l"
  "stage_bits s a p 0 OR EVT_LOGGER = stage_bits s a p 3"
  by (simp_all add: stage_bits_def EVT_SENSOR_def EVT_PROCESSOR_def EVT_LOGGER_def or.assoc or.commute or.left_commute
      split del: if_split)

text \<open>\<open>s\<close> is the state in which the period began and \<open>t\<close> one during it.\<close>

definition during :: "list_sys \<Rightarrow> nat \<Rightarrow> nat \<Rightarrow> nat \<Rightarrow> list_sys \<Rightarrow> bool" where
  "during s a p l t \<longleftrightarrow> a \<le> 8 \<and> p \<le> 10 \<and> l \<le> 4 \<and> (0 < p \<longrightarrow> 7 \<le> a) \<and> (0 < l \<longrightarrow> 9 \<le> p)
     \<and> (p = 3 \<longrightarrow> \<not> s_valid (next_sample s))
     \<and> sensor_kick t = (a = 0) \<and> sensor_pc t = sensor_stage (fault_mode (xStats s)) (next_sample s) a
     \<and> processor_pc t = processor_stage (next_sample s) (next_frame s) p \<and> logger_pc t = logger_stage (next_frame s) l
     \<and> xSensorQueue t = (if 7 \<le> a \<and> p = 0 then [next_sample s] else [])
     \<and> xTelemetryQueue t = (if 9 \<le> p \<and> l = 0 then [next_frame s] else [])
     \<and> sensor_sequence t = sensor_sequence s + (if 5 \<le> a then 1 else 0)
     \<and> xTickCount t = xTickCount s \<and> state_mutex t \<and> xConsoleMutex t \<and> exit_status t = None \<and> xLogFd t = xLogFd s
     \<and> log_entries t = log_entries s @ (if l = 4 then [Inr (console_ops True (xLogFd s) (frame_line (next_frame s)))] else [])
     \<and> heartbeat_events t = stage_bits s a p l
     \<and> xStats t = stage_stats s a p l"

lemma le_8_cases: "a \<le> 8 \<Longrightarrow> a = 0 \<or> a = 1 \<or> a = 2 \<or> a = 3 \<or> a = 4 \<or> a = 5 \<or> a = 6 \<or> a = 7 \<or> a = (8 :: nat)"
  by arith

lemma le_10_cases: "p \<le> 10 \<Longrightarrow> p = 0 \<or> p = 1 \<or> p = 2 \<or> p = 3 \<or> p = 4 \<or> p = 5 \<or> p = 6 \<or> p = 7 \<or> p = 8 \<or> p = 9 \<or> p = (10 :: nat)"
  by arith

lemma le_4_cases: "l \<le> 4 \<Longrightarrow> l = 0 \<or> l = 1 \<or> l = 2 \<or> l = 3 \<or> l = (4 :: nat)"
  by arith

lemma sensor_during:
  assumes "during s a p l t" and "fault_mode (xStats s) \<noteq> FAULT_OVERFLOW" and "prvSensorTask list_rtos t = Some t'"
  shows "\<exists>a'. during s a' p l t'"
proof -
  note defs = during_def sensor_stage_def stage_stats_step stage_bits_step prvSensorTask_def section_defs spec_push_def
  have x: "prvMakeSample (fault_mode (xStats s)) (xTickCount s) (sensor_sequence s + 1) = next_sample s"
    by (simp add: next_sample_def)
  have "a \<le> 8" using assms(1) by (simp add: during_def)
  from le_8_cases [OF this] consider "a = 0" | "a = 1" | "a = 2" | "a = 3" | "a = 4" | "a = 5" | "a = 6" | "a = 7" | "a = 8"
    by blast
  then show ?thesis
  proof cases
    case 1
    with assms have "during s 1 p l t'" by (clarsimp simp: defs split del: if_split)
    then show ?thesis ..
  next
    case 2
    with assms have "during s 2 p l t'" by (clarsimp simp: defs split del: if_split)
    then show ?thesis ..
  next
    case 3
    with assms have "during s 3 p l t'" by (clarsimp simp: defs split del: if_split)
    then show ?thesis ..
  next
    case 4
    with assms have "during s 4 p l t'" by (clarsimp simp: defs split del: if_split)
    then show ?thesis ..
  next
    case 5
    with assms have "during s 5 p l t'" by (clarsimp simp: defs split del: if_split)
    then show ?thesis ..
  next
    case 6
    with assms x have "during s 6 p l t'" by (clarsimp simp: defs split del: if_split)
    then show ?thesis ..
  next
    case 7
    with assms have "during s 7 p l t'" by (clarsimp simp: defs split del: if_split)
    then show ?thesis ..
  next
    case 8
    with assms have "during s 8 p l t'" by (clarsimp simp: defs split del: if_split)
    then show ?thesis ..
  next
    case 9
    with assms show ?thesis by (simp add: defs)
  qed
qed

lemma logger_during:
  assumes "during s a p l t" and "length g = 256" and "prvLoggerTask list_rtos g t = Some t'"
  shows "\<exists>l'. during s a p l' t'"
proof -
  note defs = during_def logger_stage_def stage_stats_step stage_bits_step prvLoggerTask_def section_defs spec_pop_Some
    print_text_def log_entries_def print_frame_eq [OF assms(2)]
  have "l \<le> 4" using assms(1) by (simp add: during_def)
  from le_4_cases [OF this] consider "l = 0" | "l = 1" | "l = 2" | "l = 3" | "l = 4" by blast
  then show ?thesis
  proof cases
    case 1
    with assms have "during s a p 1 t'" by (clarsimp simp: defs split: if_splits)
    then show ?thesis ..
  next
    case 2
    with assms have "during s a p 2 t'" by (clarsimp simp: defs split del: if_split)
    then show ?thesis ..
  next
    case 3
    with assms have "during s a p 3 t'" by (clarsimp simp: defs split del: if_split)
    then show ?thesis ..
  next
    case 4
    with assms have "during s a p 4 t'" by (clarsimp simp: defs split del: if_split)
    then show ?thesis ..
  next
    case 5
    with assms show ?thesis by (simp add: defs)
  qed
qed

lemma processor_during:
  assumes "during s a p l t" and "prvProcessorTask list_rtos g t = Some t'"
  shows "\<exists>p'. during s a p' l t'"
proof -
  note defs = during_def processor_stage_def stage_stats_step stage_bits_step prvProcessorTask_def section_defs spec_pop_Some
    spec_push_def print_text_def log_entries_def
  have f: "prvProcessSample (xTickCount s) (next_sample s) = next_frame s" by (simp add: next_frame_def)
  have "p \<le> 10" using assms(1) by (simp add: during_def)
  from le_10_cases [OF this] consider "p = 0" | "p = 1" | "p = 2" | "p = 3" | "p = 4" | "p = 5" | "p = 6" | "p = 7"
    | "p = 8" | "p = 9" | "p = 10" by blast
  then show ?thesis
  proof cases
    case 1
    with assms have "during s a 1 l t'" by (clarsimp simp: defs split: if_splits)
    then show ?thesis ..
  next
    case 2
    with assms have "during s a 2 l t'" by (clarsimp simp: defs split del: if_split)
    then show ?thesis ..
  next
    case 3
    with assms have "during s a (if s_valid (next_sample s) then 4 else 3) l t'" by (clarsimp simp: defs)
    then show ?thesis ..
  next
    case 4
    with assms have "during s a 4 l t'" by (clarsimp simp: defs split del: if_split)
    then show ?thesis ..
  next
    case 5
    with assms have "during s a (if fault_mode (xStats s) = FAULT_STALL \<and> s_sequence (next_sample s) mod 6 = 0 then 5 else 7) l t'"
      by (clarsimp simp: defs)
    then show ?thesis ..
  next
    case 6
    with assms have "during s a 6 l t'" by (clarsimp simp: defs split del: if_split)
    then show ?thesis ..
  next
    case 7
    with assms have "during s a 7 l t'" by (clarsimp simp: defs split del: if_split)
    then show ?thesis ..
  next
    case 8
    with assms f have "during s a 8 l t'" by (clarsimp simp: defs split del: if_split)
    then show ?thesis ..
  next
    case 9
    with assms have "during s a 9 l t'" by (clarsimp simp: defs split del: if_split)
    then show ?thesis ..
  next
    case 10
    with assms have "during s a 10 l t'" by (clarsimp simp: defs split del: if_split)
    then show ?thesis ..
  next
    case 11
    with assms show ?thesis by (simp add: defs)
  qed
qed

lemma worker_during:
  assumes "during s a p l t" and "fault_mode (xStats s) \<noteq> FAULT_OVERFLOW" and "is_worker c" and "choice_ok c"
    and "perform list_rtos c t = Some t'"
  shows "\<exists>a p l. during s a p l t'"
proof (cases c)
  case Run_sensor
  with assms sensor_during [OF assms(1,2), of t'] show ?thesis by auto
next
  case (Run_processor g)
  with assms processor_during [OF assms(1), of g t'] show ?thesis by auto
next
  case (Run_logger g)
  with assms logger_during [OF assms(1), of g t'] show ?thesis by auto
qed (use assms(3) in simp_all)

lemma during_run:
  assumes "fault_mode (xStats s) \<noteq> FAULT_OVERFLOW"
  shows "during s a p l t \<Longrightarrow> list_all is_worker cs \<Longrightarrow> list_all choice_ok cs \<Longrightarrow> run_schedule list_rtos cs t = Some t' \<Longrightarrow>
    length cs + work t' \<le> work t \<and> (\<exists>a p l. during s a p l t')"
proof (induction cs arbitrary: a p l t)
  case (Cons c cs)
  from Cons.prems(4) obtain u where u: "perform list_rtos c t = Some u" "run_schedule list_rtos cs u = Some t'"
    by (auto split: if_splits bind_splits)
  have w: "work u < work t"
    using worker_step_decreases [OF _ _ u(1)] Cons.prems(1,2) by (simp add: during_def)
  obtain b q m where "during s b q m u"
    using worker_during [OF Cons.prems(1) assms _ _ u(1)] Cons.prems(2,3) by auto
  from Cons.IH [OF this _ _ u(2)] Cons.prems(2,3) w show ?case by auto
qed auto

lemma during_start: "idle s \<Longrightarrow> during s 0 0 0 (s\<lparr>sensor_kick := True\<rparr>) \<and> work (s\<lparr>sensor_kick := True\<rparr>) = 58"
  by (simp add: during_def idle_def sensor_stage_def processor_stage_def logger_stage_def stage_stats_def stage_bits_def
      log_entries_def work_def)

text \<open>Where none of the three can go on, all of them have come to the end.\<close>

lemma during_stuck:
  assumes "during s a p l t" and "\<And>c. is_worker c \<Longrightarrow> perform list_rtos c t = None"
  shows "during s 8 10 4 t"
proof -
  have m: "state_mutex t" using assms(1) by (simp add: during_def)
  note b = sensor_blocked [OF m] processor_blocked [OF m, of blank] logger_blocked [OF m, of blank]
  have "prvSensorTask list_rtos t = None" "prvProcessorTask list_rtos blank t = None" "prvLoggerTask list_rtos blank t = None"
    using assms(2) [of Run_sensor] assms(2) [of "Run_processor blank"] assms(2) [of "Run_logger blank"] by simp_all
  note b = b(1) [OF this(1)] b(2) [OF this(2)] b(3) [OF this(3)]
  have le: "a \<le> 8" "p \<le> 10" "l \<le> 4" using assms(1) by (simp_all add: during_def)
  have "a = 8" using le_8_cases [OF le(1)] b(1) assms(1) by (elim disjE) (simp_all add: during_def sensor_stage_def)
  moreover from this have "p = 10" using le_10_cases [OF le(2)] b(2) assms(1)
    by (elim disjE) (simp_all add: during_def processor_stage_def)
  moreover from this have "l = 4" using le_4_cases [OF le(3)] b(3) assms(1)
    by (elim disjE) (simp_all add: during_def logger_stage_def)
  ultimately show ?thesis using assms(1) by simp
qed

lemma idle_stuck: "idle t \<Longrightarrow> is_worker c \<Longrightarrow> perform list_rtos c t = None"
  by (cases c) (simp_all add: idle_def prvSensorTask_def prvProcessorTask_def prvLoggerTask_def)

subsection \<open>Properties\<close>

text \<open>What one period leaves: every task waits again, one line was logged, and the counters have moved by one.\<close>

definition period_done :: "('sq, 'tq, 'eg, 'sem) rtos_view \<Rightarrow> ('sq, 'tq, 'eg, 'sem) sys \<Rightarrow> ('sq, 'tq, 'eg, 'sem) sys \<Rightarrow> bool" where
  "period_done V s s' \<longleftrightarrow> idle (view V s') \<and> sensor_sequence s' = sensor_sequence s + 1
    \<and> log_entries s' = log_entries s @ [Inr (console_ops True (xLogFd s) (frame_line (next_frame s)))]
    \<and> xStats s' = (xStats s)\<lparr>sensor_samples := sensor_samples (xStats s) + 1,
        telemetry_frames := telemetry_frames (xStats s) + 1,
        sensor_faults := sensor_faults (xStats s) + (if s_valid (next_sample s) then 0 else 1),
        task_sensor_beats := task_sensor_beats (xStats s) + 1,
        task_processor_beats := task_processor_beats (xStats s) + 1,
        task_logger_beats := task_logger_beats (xStats s) + 1,
        last_sample := next_sample s, last_frame := next_frame s\<rparr>
    \<and> event_bits V (heartbeat_events s') = event_bits V (heartbeat_events s) OR 7"

lemma period_done_view:
  assumes "during (view V s) 8 10 4 (view V s')"
  shows "period_done V s s'"
  using assms by (simp add: during_def period_done_def idle_def sensor_stage_def processor_stage_def logger_stage_def
      stage_stats_def stage_bits_def log_entries_def)



end
