(* ===== verification/FwMessages.thy ===== *)
theory FwMessages
  imports FwDiag
begin

unbundle bit_operations_syntax

text \<open>
  The commands and the texts of the diagnostics task, and the watchdog's and the processor's lines:
  which actions a command line stands for, the exact text of every message, and that no console call
  of the firmware has arguments that do not fit its format.
\<close>

subsection \<open>The command table\<close>

definition lower_char :: "char \<Rightarrow> char" where
  "lower_char c = (if (65 :: nat) \<le> of_char c \<and> (of_char c :: nat) \<le> 90
     then char_of (of_char c + 32 :: nat) else c)"

lemma lower_char_NUL [simp]: "lower_char c = NUL \<longleftrightarrow> c = NUL"
proof
  assume eq: "lower_char c = NUL"
  show "c = NUL"
  proof (rule ccontr)
    assume "c \<noteq> NUL"
    with eq have r: "(65 :: nat) \<le> of_char c" "(of_char c :: nat) \<le> 90"
      and z: "char_of (of_char c + 32 :: nat) = NUL"
      by (simp_all add: lower_char_def split: if_splits)
    have "(of_char (char_of (of_char c + 32 :: nat)) :: nat) = of_char c + 32"
      using r by (simp only: of_char_of) simp
    then show False by (simp add: z)
  qed
qed (simp add: lower_char_def)

lemma lower_line_map: "nul_free line \<Longrightarrow> lower_line line = map lower_char line"
proof (induction line)
  case Nil
  then show ?case by (simp add: lower_line.simps)
next
  case (Cons c line)
  then show ?case by (simp add: lower_line.simps [of "c # line"] lower_char_def)
qed

lemma nul_free_lower: "nul_free line \<Longrightarrow> nul_free (map lower_char line)"
  by (induction line) simp_all

definition command_table :: "(string \<times> action list) list" where
  "command_table =
     [(''help'', [A_Print Help]), (''status'', status_actions), (''tasks'', tasks_actions),
      (''heap'', [A_Print (Heap_line 0), A_Print (Heap_line 1)]), (''stats'', stats_actions),
      (''reset'', prvResetStats @ [A_Print Reset_done]),
      (''fault none'', prvSetFault FAULT_NONE), (''fault overflow'', prvSetFault FAULT_OVERFLOW),
      (''fault sensor'', prvSetFault FAULT_SENSOR), (''fault stall'', prvSetFault FAULT_STALL)]"

lemma handle_command_eq:
  assumes "nul_free line"
  shows "prvHandleCommand line =
    (case map_of command_table (map lower_char line) of Some as \<Rightarrow> as | None \<Rightarrow> [A_Print Unknown])"
  using strcmp_zero [OF nul_free_lower [OF assms]]
  by (simp add: prvHandleCommand_def lower_line_map [OF assms] command_table_def Let_def)

subsection \<open>The texts\<close>

abbreviation dec32 :: "u32 \<Rightarrow> string" where "dec32 v \<equiv> udigits 10 (unat v)"

abbreviation answer :: "bool \<Rightarrow> string" where "answer b \<equiv> if b then ''yes'' else ''no''"

definition signed16 :: "i16 \<Rightarrow> string" where
  "signed16 v = signed_text 0 False (sint v)"

definition tenths16 :: "u16 \<Rightarrow> string" where
  "tenths16 v = udigits 10 (unat v div 10) @ ''.'' @ udigits 10 (unat v mod 10)"

text \<open>Which messages there are, and how many values each expects to have been read for it.\<close>

fun message_ok :: "nat \<Rightarrow> message \<Rightarrow> bool" where
  "message_ok n (Status_line k) = (k < 10 \<and> n = (if k = 7 then 2 else 0))"
| "message_ok n (Tasks_line k) = (k < 5 \<and> n = 1)"
| "message_ok n (Heap_line k) = (k < 2 \<and> n = 0)"
| "message_ok n (Stats_line k) = (k < 4 \<and> n = (if k < 2 then 1 else 2))"
| "message_ok n _ = (n = 0)"

fun message_text :: "u32 list \<Rightarrow> AppStats \<Rightarrow> u32 list \<Rightarrow> message \<Rightarrow> string" where
  "message_text sizes st rs (Status_line k) = nl (
     [''fault mode: '' @ prvFaultName (fault_mode st),
      ''samples in: '' @ dec32 (sensor_samples st),
      ''frames out: '' @ dec32 (telemetry_frames st),
      ''sensor drops: '' @ dec32 (sensor_drops st),
      ''telemetry drops: '' @ dec32 (telemetry_drops st),
      ''sensor faults: '' @ dec32 (sensor_faults st),
      ''watchdog warnings: '' @ dec32 (watchdog_warnings st),
      ''queue depth: sensor='' @ dec32 (rs ! 0) @ '' telemetry='' @ dec32 (rs ! 1),
      ''latest sample: seq='' @ dec32 (s_sequence (last_sample st))
        @ '' temp='' @ fixed10 (sint (s_temperature_c_x10 (last_sample st))) @ ''C ax=''
        @ signed16 (s_accel_x_x100 (last_sample st)) @ '' ay='' @ signed16 (s_accel_y_x100 (last_sample st))
        @ '' az='' @ signed16 (s_accel_z_x100 (last_sample st)) @ '' valid='' @ answer (s_valid (last_sample st)),
      ''latest frame: seq='' @ dec32 (f_sequence (last_frame st))
        @ '' rpm='' @ udigits 10 (unat (f_rpm (last_frame st)))
        @ '' thr='' @ tenths16 (f_throttle_pct_x10 (last_frame st))
        @ ''% spd='' @ tenths16 (f_speed_kmh_x10 (last_frame st)) @ '' valid='' @ answer (f_valid (last_frame st))] ! k)"
| "message_text sizes st rs (Tasks_line k) = nl (
     [''sensor beats='' @ dec32 (task_sensor_beats st) @ '' stack='' @ dec32 (rs ! 0),
      ''processor beats='' @ dec32 (task_processor_beats st) @ '' stack='' @ dec32 (rs ! 0),
      ''logger beats='' @ dec32 (task_logger_beats st) @ '' stack='' @ dec32 (rs ! 0),
      ''watchdog stack='' @ dec32 (rs ! 0),
      ''diagnostics stack='' @ dec32 (rs ! 0)] ! k)"
| "message_text sizes st rs (Heap_line k) = nl (
     [''static footprint approx '' @ dec32 (sum_list sizes) @ '' bytes'',
      ''dynamic heap is disabled in this firmware build''] ! k)"
| "message_text sizes st rs (Stats_line k) = nl (
     [''sensor queue used='' @ dec32 (rs ! 0) @ '' / 6'',
      ''telemetry queue used='' @ dec32 (rs ! 0) @ '' / 6'',
      ''sensor samples='' @ dec32 (rs ! 0) @ '' telemetry frames='' @ dec32 (rs ! 1),
      ''drops sensor='' @ dec32 (rs ! 0) @ '' telemetry='' @ dec32 (rs ! 1)] ! k)"
| "message_text sizes st rs (Fault_set mode) = nl (''fault mode set to '' @ prvFaultName mode)"
| "message_text sizes st rs Help = nl help_text"
| "message_text sizes st rs Reset_done = nl ''state reset''"
| "message_text sizes st rs Unknown = nl ''unknown command, type help''"

lemma sint_scast_16 [simp]: "sint (scast v :: i32) = sint (v :: i16)"
  by (simp add: sint_up_scast is_up)

lemma render_scast: "render (CHR ''%'' # CHR ''d'' # fmt) (VInt (scast (v :: i16)) # args) =
    map_sum id ((@) (signed16 v)) (render fmt args)"
  using sint16_range [of v] by (subst render_d) (auto simp: signed16_def)

lemma fault_name_fine [simp]: "nul_free (prvFaultName mode)" "length (prvFaultName mode) \<le> 8"
  by (cases mode; simp add: prvFaultName_def)+

lemma fault_name_length: "length (prvFaultName mode) \<le> 8 + n"
  by (rule trans_le_add1) (rule fault_name_fine(2))

lemma two_reads: "length rs = 2 \<Longrightarrow> rs = [rs ! 0, rs ! 1]" and one_read: "length rs = 1 \<Longrightarrow> rs = [rs ! 0]"
  by (cases rs; cases "tl rs"; simp)+

lemma status_render:
  assumes "k < 10" and "length rs = (if k = 7 then 2 else 0)"
  shows "\<exists>fmt args. prvPrintStatus st rs ! k = Writef fmt args
    \<and> render fmt args = Inr (message_text sizes st rs (Status_line k))"
proof -
  consider "k = 0" | "k = 1" | "k = 2" | "k = 3" | "k = 4" | "k = 5" | "k = 6" | "k = 7" | "k = 8" | "k = 9"
    using assms(1) by (auto simp: eval_nat_numeral less_Suc_eq)
  then show ?thesis
  proof cases
    case 8
    with assms have "length rs = 2" by simp
    then obtain a b where "rs = [a, b]" by (auto dest: two_reads)
    with 8 show ?thesis
      by (simp add: prvPrintStatus_def nl_def render_simps)
  next
    case 9
    then show ?thesis
      by (simp add: prvPrintStatus_def nl_def yes_no_def render_simps render_whole render_tenths render_scast
          fixed10_def Let_def)
  next
    case 10
    then show ?thesis
      by (simp add: prvPrintStatus_def nl_def yes_no_def render_simps tenths16_def unat_ucast_16_32
          unat_div unat_mod Let_def)
  qed (simp_all add: prvPrintStatus_def nl_def render_simps)
qed

lemma tasks_render:
  assumes "k < 5" and "length rs = 1"
  shows "\<exists>fmt args. prvPrintTasks st rs ! k = Writef fmt args
    \<and> render fmt args = Inr (message_text sizes st rs (Tasks_line k))"
proof -
  obtain a where a: "rs = [a]" using one_read [OF assms(2)] by auto
  consider "k = 0" | "k = 1" | "k = 2" | "k = 3" | "k = 4"
    using assms(1) by (auto simp: eval_nat_numeral less_Suc_eq)
  then show ?thesis
    by cases (simp_all add: a prvPrintTasks_def nl_def render_simps)
qed

lemma stats_render:
  assumes "k < 4" and "length rs = (if k < 2 then 1 else 2)"
  shows "\<exists>fmt args. prvPrintStats rs ! k = Writef fmt args
    \<and> render fmt args = Inr (message_text sizes st rs (Stats_line k))"
proof (cases "k < 2")
  case True
  with assms(2) have "length rs = 1" by simp
  then obtain a where a: "rs = [a]" using one_read by blast
  from True consider "k = 0" | "k = 1" by linarith
  then show ?thesis
    by cases (simp_all add: a prvPrintStats_def nl_def render_simps)
next
  case False
  with assms(2) have "length rs = 2" by simp
  then obtain a b where a: "rs = [a, b]" by (auto dest: two_reads)
  from False assms(1) consider "k = 2" | "k = 3" by linarith
  then show ?thesis
    by cases (simp_all add: a prvPrintStats_def nl_def render_simps)
qed

lemma length_tenths16: "length (tenths16 v) \<le> 7"
  using length_udigits_16 [of v 10] length_digit [of "unat v mod 10"] by (simp add: tenths16_def)

lemma length_signed16: "length (signed16 v) \<le> 6"
proof -
  have "nat \<bar>sint v\<bar> < 10 ^ Suc 4" using sint16_range [of v] by (simp add: abs_if) linarith
  then show ?thesis
    using length_udigits [of 10 "nat \<bar>sint v\<bar>" 4]
    by (auto simp: signed16_def signed_text_def abs_if split: if_splits)
qed

lemma nul_free_answer [simp]: "nul_free (answer b)" "length (answer b) \<le> 3"
  by simp_all

lemma nul_free_numbers [simp]: "nul_free (signed16 v)" "nul_free (tenths16 w)" "nul_free (fixed10 k)"
  by (simp_all add: signed16_def tenths16_def nul_free_signed_text nul_free_fixed)

lemma message_text_fine:
  assumes "message_ok (length rs) m"
  shows "nul_free (message_text sizes st rs m) \<and> message_text sizes st rs m \<noteq> []
    \<and> length (message_text sizes st rs m) \<le> 255"
proof (cases m)
  case (Status_line k)
  with assms have "k < 10" by simp
  then consider "k = 0" | "k = 1" | "k = 2" | "k = 3" | "k = 4" | "k = 5" | "k = 6" | "k = 7" | "k = 8" | "k = 9"
    by (auto simp: eval_nat_numeral less_Suc_eq)
  then show ?thesis
  proof cases
    case 9
    then show ?thesis
      using length_udigits_32 [of "s_sequence (last_sample st)"] length_fixed10 [of "s_temperature_c_x10 (last_sample st)"]
        length_signed16 [of "s_accel_x_x100 (last_sample st)"] length_signed16 [of "s_accel_y_x100 (last_sample st)"]
        length_signed16 [of "s_accel_z_x100 (last_sample st)"]
      by (simp add: Status_line nl_def)
  next
    case 10
    have "length (udigits 10 (unat (f_rpm (last_frame st)))) \<le> 5"
      using length_udigits_16 [of "f_rpm (last_frame st)" 1] by simp
    then show ?thesis
      using 10 length_udigits_32 [of "f_sequence (last_frame st)"]
        length_tenths16 [of "f_throttle_pct_x10 (last_frame st)"] length_tenths16 [of "f_speed_kmh_x10 (last_frame st)"]
      by (simp add: Status_line nl_def)
  next
    case 8
    then show ?thesis
      using length_udigits_32 [of "rs ! 0"] length_udigits_32 [of "rs ! 1"] by (simp add: Status_line nl_def)
  qed (use length_udigits_32 [of "sensor_samples st"] length_udigits_32 [of "telemetry_frames st"]
      length_udigits_32 [of "sensor_drops st"] length_udigits_32 [of "telemetry_drops st"]
      length_udigits_32 [of "sensor_faults st"] length_udigits_32 [of "watchdog_warnings st"]
      fault_name_length [of "fault_mode st" 234] in \<open>simp_all add: Status_line nl_def\<close>)
next
  case (Tasks_line k)
  with assms have "k < 5" by simp
  then consider "k = 0" | "k = 1" | "k = 2" | "k = 3" | "k = 4"
    by (auto simp: eval_nat_numeral less_Suc_eq)
  then show ?thesis
    by cases (use length_udigits_32 [of "rs ! 0"] length_udigits_32 [of "task_sensor_beats st"]
      length_udigits_32 [of "task_processor_beats st"] length_udigits_32 [of "task_logger_beats st"]
      in \<open>simp_all add: Tasks_line nl_def\<close>)
next
  case (Heap_line k)
  with assms have "k = 0 \<or> k = 1" by auto
  then show ?thesis
    using length_udigits_32 [of "sum_list sizes"] by (auto simp: Heap_line nl_def)
next
  case (Stats_line k)
  with assms have "k < 4" by simp
  then consider "k = 0" | "k = 1" | "k = 2" | "k = 3"
    by (auto simp: eval_nat_numeral less_Suc_eq)
  then show ?thesis
    by cases (use length_udigits_32 [of "rs ! 0"] length_udigits_32 [of "rs ! 1"] in \<open>simp_all add: Stats_line nl_def\<close>)
next
  case (Fault_set mode)
  then show ?thesis using fault_name_length [of mode 200] by (simp add: nl_def)
qed (simp_all add: nl_def help_text_def)

lemma say_writef:
  assumes "length g = 256" and "render fmt args = Inr t" and "nul_free t \<and> t \<noteq> [] \<and> length t \<le> 255"
  shows "console_writef m fd g fmt args = Inr (console_ops m fd t)"
  using console_writef_eq [OF assms(1,2)] assms(3) by simp

lemma say_writeln:
  assumes "length g = 256" and "nul_free t" and "length t < 255"
  shows "console_writeln m fd g (Some t) = Inr (console_ops m fd (nl t))"
  using console_writeln_eq [OF assms(1,2)] assms(3) by (simp add: nl_def)

lemma say_message:
  assumes "length g = 256" and "message_ok (length rs) m"
  shows "say g (message_line sizes st rs m) b fd = Inr (console_ops b fd (message_text sizes st rs m))"
proof (cases m)
  case (Status_line k)
  then show ?thesis
    using assms(2) status_render [where k = k and rs = rs and st = st and sizes = sizes] say_writef [OF assms(1) _ message_text_fine [OF assms(2)]]
    by (auto simp del: message_text.simps)
next
  case (Tasks_line k)
  then show ?thesis
    using assms(2) tasks_render [where k = k and rs = rs and st = st and sizes = sizes] say_writef [OF assms(1) _ message_text_fine [OF assms(2)]]
    by (auto simp del: message_text.simps)
next
  case (Stats_line k)
  then show ?thesis
    using assms(2) stats_render [where k = k and rs = rs and st = st and sizes = sizes] say_writef [OF assms(1) _ message_text_fine [OF assms(2)]]
    by (auto simp del: message_text.simps)
next
  case (Heap_line k)
  then consider "k = 0" | "k = 1" using assms(2) by auto linarith
  then show ?thesis
  proof cases
    case 1
    have "render (nl ''static footprint approx %u bytes'') [VUInt (sum_list sizes)] = Inr (message_text sizes st rs m)"
      by (simp add: Heap_line 1 nl_def render_simps)
    from say_writef [OF assms(1) this message_text_fine [OF assms(2)]] show ?thesis
      by (simp add: Heap_line 1 prvPrintHeap_def Let_def del: message_text.simps)
  next
    case 2
    then show ?thesis
      using say_writeln [OF assms(1), of "''dynamic heap is disabled in this firmware build''"]
      by (simp add: Heap_line prvPrintHeap_def Let_def)
  qed
next
  case (Fault_set mode)
  have "render (nl ''fault mode set to %s'') [VStr (Some (prvFaultName mode))] = Inr (message_text sizes st rs m)"
    by (simp add: Fault_set nl_def render_simps)
  from say_writef [OF assms(1) this message_text_fine [OF assms(2)]] show ?thesis
    by (simp add: Fault_set)
qed (use say_writeln [OF assms(1)] in \<open>simp_all add: help_text_def\<close>)

text \<open>The lines of the processor and the watchdog.\<close>

lemma stall_line:
  "length g = 256 \<Longrightarrow> console_writef m fd g stall_fmt [VULong v] =
     Inr (console_ops m fd (nl (''[processor] forced stall at sample '' @ dec32 v)))"
  using length_udigits_32 [of v]
  by (intro say_writef) (simp_all add: stall_fmt_def nl_def render_simps)

lemma healthy_line:
  "length g = 256 \<Longrightarrow> console_writef m fd g healthy_fmt [VULong a, VULong b, VULong c] =
     Inr (console_ops m fd (nl (''[watchdog] healthy: sensor='' @ dec32 a @ '' processor='' @ dec32 b
       @ '' logger='' @ dec32 c)))"
  using length_udigits_32 [of a] length_udigits_32 [of b] length_udigits_32 [of c]
  by (intro say_writef) (simp_all add: healthy_fmt_def nl_def render_simps)

lemma warning_line:
  assumes "length g = 256"
  shows "console_writef m fd g warning_fmt [VULong v] =
     Inr (console_ops m fd (nl (''[watchdog] warning bits=0x'' @ udigits 16 (unat v))))"
proof -
  have "unat v < 16 ^ Suc 7" using unsigned_less [of v, where 'a = nat] by simp
  then have "length (udigits 16 (unat v)) \<le> 8" using length_udigits [of 16 "unat v" 7] by simp
  moreover have "nul_free (udigits 16 (unat v))" by (rule nul_free_udigits) simp_all
  ultimately show ?thesis
    using assms by (intro say_writef) (simp_all add: warning_fmt_def nl_def render_simps)
qed

subsection \<open>Properties\<close>

text \<open>A command line is handled by its lower-case form alone, as the table of the ten commands says, and
  any other line is answered with the message for unknown commands.\<close>

theorem command_dispatch:
  assumes "nul_free line"
  shows "prvHandleCommand line =
      (case map_of command_table (map lower_char line) of Some as \<Rightarrow> as | None \<Rightarrow> [A_Print Unknown])
    \<and> prvHandleCommand (lower_line line) = prvHandleCommand line
    \<and> (prvHandleCommand line = [A_Print Unknown] \<longleftrightarrow> map lower_char line \<notin> fst ` set command_table)"
proof -
  have twice: "lower_char (lower_char c) = lower_char c" for c
    by (auto simp: lower_char_def of_char_of)
  have "[A_Print Unknown] \<notin> snd ` set command_table"
    by (simp add: command_table_def status_actions_def tasks_actions_def stats_actions_def
        prvResetStats_def prvSetFault_def)
  then have "map_of command_table l \<noteq> Some [A_Print Unknown]" for l
    using map_of_SomeD [of command_table l] by force
  then have "(case map_of command_table l of Some as \<Rightarrow> as | None \<Rightarrow> [A_Print Unknown]) = [A_Print Unknown]
      \<longleftrightarrow> l \<notin> fst ` set command_table" for l
    using map_of_eq_None_iff [of command_table l] by (auto split: option.splits)
  then show ?thesis
    using handle_command_eq [OF assms] handle_command_eq [OF nul_free_lower [OF assms]]
    by (simp add: lower_line_map [OF assms] twice comp_def)
qed

theorem command_dispatch_witness: "prvHandleCommand ''FaULT staLL'' = [A_SetFault FAULT_STALL, A_Print (Fault_set FAULT_STALL)]"
proof -
  have "map lower_char ''FaULT staLL'' = ''fault stall''" by code_simp
  then show ?thesis
    using command_dispatch [of "''FaULT staLL''"] by (simp add: command_table_def prvSetFault_def)
qed

text \<open>The help text lists a command \<open>quit\<close> that the handler does not know.\<close>

theorem help_names_no_command:
  "(\<exists>t. help_text = t @ '' quit'') \<and> prvHandleCommand ''quit'' = [A_Print Unknown]"
  using handle_command_eq [of "''quit''"]
  by (auto simp: help_text_def lower_char_def command_table_def
      intro!: exI [of _ "''commands: status tasks heap stats fault none fault overflow fault sensor fault stall reset''"])

text \<open>C15: Every message of the diagnostics commands comes out as the text written in \<open>message_text\<close>, whole
  and in one write, for all values of the statistics and of what was read: each format fits the
  number and types of its arguments and no line reaches the 256 bytes of the buffer.\<close>

theorem message_texts:
  assumes "length g = 256" and "message_ok (length rs) m"
  shows "say g (message_line sizes st rs m) b fd = Inr (console_ops b fd (message_text sizes st rs m))
    \<and> length (message_text sizes st rs m) \<le> 255"
  using say_message [OF assms] message_text_fine [OF assms(2)] by simp

theorem message_texts_witness:
  "say (replicate 256 CHR ''?'') (message_line [] zero_stats [3, 6] (Status_line 7)) True (- 1) =
     Inr [TakeMutex, Write0 (nl ''queue depth: sensor=3 telemetry=6''), GiveMutex]"
proof -
  have d: "udigits 10 3 = ''3''" "udigits 10 6 = ''6''"
    by code_simp+
  show ?thesis
    using message_texts [of "replicate 256 CHR ''?''" "[3, 6]" "Status_line 7" "[]" zero_stats True "- 1"]
    by (simp add: d console_ops_def del: message_line.simps)
qed

end
