(* ===== verification/FwOutput.thy ===== *)
theory FwOutput
  imports FwPipeline FwMessages
begin

unbundle bit_operations_syntax

text \<open>
  Properties of the whole firmware that rest on the texts and the command table: no console call of
  any task ever has undefined behaviour, and what each command does to the system's state.
\<close>

declare do_action.simps(1) [simp del]

subsection \<open>Every console call is defined\<close>

text \<open>The script reads the values a message needs, no more and no fewer, before it prints it.\<close>

fun script_ok :: "nat \<Rightarrow> action list \<Rightarrow> bool" where
  "script_ok n [] = True"
| "script_ok n (A_Read v # as) = script_ok (Suc n) as"
| "script_ok n (A_Print m # as) = (message_ok n m \<and> script_ok 0 as)"
| "script_ok n (_ # as) = script_ok n as"

lemma self_test_script: "script_ok 0 self_test"
  by code_simp

definition defined_output :: "list_sys \<Rightarrow> bool" where
  "defined_output s \<longleftrightarrow> script_ok (length (diag_reads s)) (diag_todo s) \<and> (\<forall>e \<in> set (printed s). \<not> isl (snd e))"

lemma task_output:
  assumes "state_mutex s" and "choice_ok c" and "perform list_rtos c s = Some s'"
    and "\<forall>env. c \<noteq> Run_diagnostics env"
  shows "diag_reads s' = diag_reads s \<and> diag_todo s' = diag_todo s
    \<and> (\<exists>es. printed s' = printed s @ es \<and> (\<forall>e \<in> set es. \<not> isl (snd e)))"
proof (cases c)
  case Run_sensor
  then show ?thesis
    using assms(1,3) by (cases "sensor_pc s") (auto simp: prvSensorTask_def section_defs split: prod.splits)
next
  case (Run_processor g)
  then show ?thesis
    using assms(1-3) by (cases "processor_pc s")
      (auto simp: prvProcessorTask_def section_defs stall_line split: prod.splits)
next
  case (Run_logger g)
  then show ?thesis
    using assms(1-3) by (cases "logger_pc s") (auto simp: prvLoggerTask_def section_defs print_frame_eq)
next
  case (Run_watchdog x g)
  then show ?thesis
    using assms(1-3) by (cases "watchdog_pc s")
      (auto simp: prvWatchdogTask_def section_defs healthy_line warning_line)
qed (use assms in \<open>auto simp: prvSensorTimerCallback_def\<close>)

lemma diagnostics_output:
  assumes "state_mutex s" and "defined_output s" and "length (stack_garbage env) = 256"
    and "prvDiagnosticsTask list_rtos env s = Some s'"
  shows "defined_output s'"
proof -
  obtain a todo where a: "diag_todo s = a # todo"
    using assms(4) by (cases "diag_todo s") (auto simp: prvDiagnosticsTask_def)
  show ?thesis
  proof (cases a)
    case (A_Print m)
    then have "message_ok (length (diag_reads s)) m" using assms(2) a by (simp add: defined_output_def)
    then show ?thesis
      using assms(2,3,4) a A_Print by (auto simp: prvDiagnosticsTask_def defined_output_def say_message)
  qed (use assms(1,2,4) a in \<open>auto simp: prvDiagnosticsTask_def defined_output_def\<close>)
qed

lemma reach_defined: "fw_reach list_rtos n s \<Longrightarrow> sane s \<and> defined_output s"
proof (induction rule: list_reach_induct)
  case (Start env s)
  have "\<not> isl (console_writeln True (- 1) (stack_garbage env) (Some t))" if "t \<in> set banner" for t
    using say_writeln [OF Start(1), of t True "- 1"] that by (auto simp: banner_def)
  then show ?case
    using Start(2) by (auto simp: main_list boot_def sane_def defined_output_def self_test_script banner_entries_def)
next
  case (Step n s c s')
  show ?case
  proof (cases "\<exists>env. c = Run_diagnostics env")
    case True
    then show ?thesis
      using Step sane_step [of s c s'] diagnostics_output [of s _ s'] by (auto simp: sane_def)
  next
    case False
    then obtain es where "diag_reads s' = diag_reads s" "diag_todo s' = diag_todo s"
      "printed s' = printed s @ es" "\<forall>e \<in> set es. \<not> isl (snd e)"
      using Step task_output [of s c s'] by (auto simp: sane_def)
    then show ?thesis
      using Step sane_step [of s c s'] by (simp add: defined_output_def ball_Un)
  qed
qed

subsection \<open>What a command does\<close>

text \<open>A state apart from what it printed and the diagnostics task's locals.\<close>

definition same_system :: "list_sys \<Rightarrow> list_sys \<Rightarrow> bool" where
  "same_system s s' \<longleftrightarrow> xStats s' = xStats s \<and> xSensorQueue s' = xSensorQueue s
     \<and> xTelemetryQueue s' = xTelemetryQueue s \<and> heartbeat_events s' = heartbeat_events s
     \<and> sensor_kick s' = sensor_kick s \<and> state_mutex s' = state_mutex s \<and> xLogFd s' = xLogFd s
     \<and> sensor_sequence s' = sensor_sequence s \<and> sensor_pc s' = sensor_pc s
     \<and> processor_pc s' = processor_pc s \<and> logger_pc s' = logger_pc s \<and> watchdog_pc s' = watchdog_pc s
     \<and> exit_status s' = exit_status s"

fun quiet :: "action \<Rightarrow> bool" where
  "quiet A_Snapshot = True"
| "quiet (A_Read v) = True"
| "quiet (A_Print m) = True"
| "quiet _ = False"

lemma quiet_run:
  assumes "list_all quiet as" and "state_mutex s"
  shows "\<exists>s'. run_actions list_rtos env as s = Some s' \<and> same_system s s'"
  using assms
proof (induction as arbitrary: s)
  case Nil
  then show ?case by (simp add: same_system_def)
next
  case (Cons a as)
  then obtain t where t: "do_action list_rtos env a s = Some t" "same_system s t"
    by (cases a) (auto simp: same_system_def)
  then obtain s' where "run_actions list_rtos env as t = Some s'" "same_system t s'"
    using Cons.IH [of t] Cons.prems by (auto simp: same_system_def)
  then show ?case using t by (auto simp: same_system_def)
qed

text \<open>The effect that \<open>line\<close> is meant to have on the state.\<close>

definition command_effect :: "string \<Rightarrow> list_sys \<Rightarrow> list_sys" where
  "command_effect line s =
     (let set_mode = (\<lambda>mode. s\<lparr>xStats := (xStats s)\<lparr>fault_mode := mode\<rparr>\<rparr>) in
      if line = ''reset''
      then s\<lparr>xStats := zero_stats, xSensorQueue := [], xTelemetryQueue := [],
             heartbeat_events := heartbeat_events s AND NOT 7\<rparr>
      else if line = ''fault none'' then set_mode FAULT_NONE
      else if line = ''fault overflow'' then set_mode FAULT_OVERFLOW
      else if line = ''fault sensor'' then set_mode FAULT_SENSOR
      else if line = ''fault stall'' then set_mode FAULT_STALL
      else s)"

lemma zero_stats_mode: "zero_stats\<lparr>fault_mode := FAULT_NONE\<rparr> = zero_stats"
  by (simp add: zero_stats_def)

lemma command_list:
  assumes "nul_free line" and m: "state_mutex s"
  shows "\<exists>s'. run_actions list_rtos env (prvHandleCommand line) s = Some s'
    \<and> same_system (command_effect (map lower_char line) s) s'"
proof -
  let ?l = "map lower_char line"
  consider "?l = ''reset''" | mode where "?l = ''fault '' @ prvFaultName mode"
    | "?l \<noteq> ''reset''" "\<forall>mode. ?l \<noteq> ''fault '' @ prvFaultName mode" by blast
  then show ?thesis
  proof cases
    case 1
    then show ?thesis
      using m by (simp add: handle_command_eq [OF assms(1)] command_table_def prvResetStats_def
          command_effect_def same_system_def zero_stats_mode)
  next
    case (2 mode)
    then show ?thesis
      using m by (cases mode) (simp_all add: handle_command_eq [OF assms(1)] command_table_def prvSetFault_def
          prvFaultName_def command_effect_def same_system_def Let_def)
  next
    case 3
    have n: "?l \<noteq> ''fault none''" "?l \<noteq> ''fault overflow''" "?l \<noteq> ''fault sensor''" "?l \<noteq> ''fault stall''"
      using 3(2) [rule_format, of FAULT_NONE] 3(2) [rule_format, of FAULT_OVERFLOW]
        3(2) [rule_format, of FAULT_SENSOR] 3(2) [rule_format, of FAULT_STALL]
      by (simp_all add: prvFaultName_def)
    have "list_all quiet (prvHandleCommand line)"
      using 3(1) n by (simp add: handle_command_eq [OF assms(1)] command_table_def status_actions_def
          tasks_actions_def stats_actions_def list_all_iff)
    moreover have "command_effect ?l s = s"
      using 3(1) n by (simp add: command_effect_def Let_def)
    ultimately show ?thesis using quiet_run [OF _ m] by simp
  qed
qed

subsection \<open>Properties\<close>

text \<open>C12: No console call of the whole firmware has undefined behaviour, in any reachable state and for any
  interleaving: no format is read past its end, no argument has the wrong type, nothing overflows,
  and the script of the diagnostics task always has the values at hand that a message needs.\<close>

theorem output_always_defined:
  assumes "rtos_contract K V" and "fw_reach K n s" and "(t, r) \<in> set (printed s)"
  shows "\<exists>ops. r = Inr ops"
proof -
  have "defined_output (view V s)"
    using reach_defined [OF conjunct1 [OF fw_reach_view [OF assms(2,1)]]] by simp
  then show ?thesis using assms(3) by (cases r) (auto simp: defined_output_def)
qed

theorem output_always_defined_witness:
  "\<exists>ops. console_writeln True (- 1) blank (Some ''type help for commands'') = Inr ops"
proof -
  have "(Main, console_writeln True (- 1) blank (Some ''type help for commands'')) \<in> set (printed start_state)"
    by (simp add: start_state_def banner_entries_def banner_def)
  from output_always_defined [OF list_rtos_contract start_reached this] show ?thesis .
qed

text \<open>C13: What a command line does to the system, over any kernel that keeps the contract: \<open>reset\<close> zeroes
  the statistics and the fault mode, empties both queues and clears the heartbeats; the four \<open>fault\<close>
  commands set the mode and nothing else; every other line, known or not, leaves the statistics, the
  queues, the heartbeats, the sequence number and all tasks as they were. No command blocks.\<close>

theorem command_effects:
  assumes "rtos_contract K V" and "queues_ok V s" and "available V (state_mutex s)" and "nul_free line"
  shows "\<exists>s'. run_actions K env (prvHandleCommand line) s = Some s'
    \<and> same_system (command_effect (map lower_char line) (view V s)) (view V s')"
proof -
  obtain t where t: "run_actions list_rtos env (prvHandleCommand line) (view V s) = Some t"
    "same_system (command_effect (map lower_char line) (view V s)) t"
    using command_list [OF assms(4), of "view V s" env] assms(3) by auto
  then obtain s' where "run_actions K env (prvHandleCommand line) s = Some s'" "view V s' = t"
    using actions_simulate [OF assms(1,2), of env "prvHandleCommand line"] by (auto simp: simulates_def)
  with t(2) show ?thesis by auto
qed

theorem command_effects_witness:
  "\<exists>s'. run_actions list_rtos
       \<lparr>stack_marks = \<lambda>_. 0, object_sizes = [], open_answer = - 1, stack_garbage = blank\<rparr>
       (prvHandleCommand ''RESET'') kicked = Some s'
    \<and> xSensorQueue s' = [] \<and> fault_mode (xStats s') = FAULT_NONE"
proof -
  have l: "map lower_char ''RESET'' = ''reset''" by code_simp
  show ?thesis
    using command_effects [OF list_rtos_contract, of kicked "''RESET''"
        "\<lparr>stack_marks = \<lambda>_. 0, object_sizes = [], open_answer = - 1, stack_garbage = blank\<rparr>"] unfolding l
    by (auto simp: kicked_def queues_ok_def start_state_def boot_def view_def command_effect_def
        same_system_def zero_stats_def nul_free_def)
qed

end
