(* ===== verification/FwWatchdog.thy ===== *)
theory FwWatchdog
  imports FwPipeline FwMessages
begin

unbundle bit_operations_syntax

text \<open>
  The watchdog: a report that the system is healthy is backed by a beat of each of the three tasks,
  beats are never used for two reports, and every warning is counted. The invariant keeps the number
  of each task's beats as a natural number beside the 32-bit counter, and bounds it by the number of
  samples made, so that the counters cannot have wrapped.
\<close>

declare do_action.simps(1) [simp del]

definition written :: "c_ub + console_op list \<Rightarrow> string" where
  "written r = (case r of Inl e \<Rightarrow> [] | Inr ops \<Rightarrow> concat (map (\<lambda>x. case x of Write0 t \<Rightarrow> t | _ \<Rightarrow> []) ops))"

definition healthy_report :: "task \<times> (c_ub + console_op list) \<Rightarrow> bool" where
  "healthy_report e \<longleftrightarrow> fst e = Watchdog \<and> take 19 (written (snd e)) = ''[watchdog] healthy:''"

text \<open>The wake-ups that found all three bits: reported, or about to be.\<close>

definition healthy_count :: "('sq, 'tq, 'eg, 'sem) sys \<Rightarrow> nat" where
  "healthy_count s = length (filter healthy_report (printed s))
     + (case watchdog_pc s of W_Read1 \<Rightarrow> 1 | W_Read2 a \<Rightarrow> 1 | W_Read3 a b \<Rightarrow> 1 | W_Healthy a b c \<Rightarrow> 1 | _ \<Rightarrow> 0)"

definition warning_report :: "task \<times> (c_ub + console_op list) \<Rightarrow> bool" where
  "warning_report e \<longleftrightarrow> fst e = Watchdog \<and> take 19 (written (snd e)) = ''[watchdog] warning ''"

definition warning_count :: "('sq, 'tq, 'eg, 'sem) sys \<Rightarrow> nat" where
  "warning_count s = length (filter warning_report (printed s)) + (case watchdog_pc s of W_Warn v \<Rightarrow> 1 | _ \<Rightarrow> 0)"

lemma written_console_ops [simp]: "written (Inr (console_ops m fd t)) = t"
  by (simp add: written_def console_ops_def)

lemma report_task: "t \<noteq> Watchdog \<Longrightarrow> \<not> healthy_report (t, r)" "t \<noteq> Watchdog \<Longrightarrow> \<not> warning_report (t, r)"
  by (simp_all add: healthy_report_def warning_report_def)

fun sensor_new :: "sensor_pc \<Rightarrow> nat" where
  "sensor_new S_Beat = 1"
| "sensor_new S_Mode = 1"
| "sensor_new (S_Make Single) = 1"
| "sensor_new (S_Make (Burst i)) = (if i = 0 then 1 else 0)"
| "sensor_new _ = 0"

definition ahead :: "list_sys \<Rightarrow> nat" where
  "ahead s = length (xSensorQueue s) + length (sensor_number (sensor_sequence s) (sensor_pc s))"

definition beats_inv :: "nat \<Rightarrow> nat \<Rightarrow> nat \<Rightarrow> nat \<Rightarrow> list_sys \<Rightarrow> bool" where
  "beats_inv n a b c s \<longleftrightarrow> (let st = xStats s; ev = heartbeat_events s; h = healthy_count s in
     task_sensor_beats st = of_nat a \<and> task_processor_beats st = of_nat b \<and> task_logger_beats st = of_nat c
   \<and> watchdog_warnings st = of_nat (warning_count s)
   \<and> h + of_bool (bit ev 0) + (case sensor_pc s of S_Beat \<Rightarrow> 1 | _ \<Rightarrow> 0) \<le> a
   \<and> h + of_bool (bit ev 1) + (case processor_pc s of P_Beat x \<Rightarrow> 1 | _ \<Rightarrow> 0) \<le> b
   \<and> h + of_bool (bit ev 2) + (case logger_pc s of L_Beat f \<Rightarrow> 1 | _ \<Rightarrow> 0) \<le> c
   \<and> a \<le> n + sensor_new (sensor_pc s)
   \<and> b + (case processor_pc s of P_Count x \<Rightarrow> 1 | _ \<Rightarrow> 0) + ahead s \<le> n
   \<and> c + (case logger_pc s of L_Count x \<Rightarrow> 1 | _ \<Rightarrow> 0) + length (xTelemetryQueue s)
       + length (processor_number (processor_pc s)) + ahead s \<le> n)"

lemma bits_of_events [simp]:
  "bit (EVT_SENSOR) n \<longleftrightarrow> n = 0" "bit (EVT_PROCESSOR) n \<longleftrightarrow> n = 1" "bit (EVT_LOGGER) n \<longleftrightarrow> n = 2"
proof -
  have e: "EVT_SENSOR = 2 ^ 0" "EVT_PROCESSOR = 2 ^ 1" "EVT_LOGGER = 2 ^ 2"
    by (simp_all add: EVT_SENSOR_def EVT_PROCESSOR_def EVT_LOGGER_def)
  show "bit (EVT_SENSOR) n \<longleftrightarrow> n = 0" "bit (EVT_PROCESSOR) n \<longleftrightarrow> n = 1" "bit (EVT_LOGGER) n \<longleftrightarrow> n = 2"
    unfolding e bit_exp_iff by auto
qed

lemma bits_of_seven:
  "bit (7 :: u32) 0" "bit (7 :: u32) 1" "bit (7 :: u32) 2"
  by simp_all

lemma all_set: "v AND 7 = (7 :: u32) \<Longrightarrow> bit v 0 \<and> bit v 1 \<and> bit v 2"
  by (metis bit_and_iff bits_of_seven)

lemma cleared_bits: "\<not> bit (v AND NOT (7 :: u32)) 0" "\<not> bit (v AND NOT (7 :: u32)) 1" "\<not> bit (v AND NOT (7 :: u32)) 2"
  by (simp_all add: bit_and_iff bit_not_iff)

lemma count_print:
  "healthy_count (print_text t r s) = healthy_count s + of_bool (healthy_report (t, r (xConsoleMutex s) (xLogFd s)))"
  "warning_count (print_text t r s) = warning_count s + of_bool (warning_report (t, r (xConsoleMutex s) (xLogFd s)))"
  by (simp_all add: healthy_count_def warning_count_def)

lemma count_update [simp]:
  "healthy_count (s\<lparr>xStats := st\<rparr>) = healthy_count s" "warning_count (s\<lparr>xStats := st\<rparr>) = warning_count s"
  "healthy_count (s\<lparr>xSensorQueue := q\<rparr>) = healthy_count s" "warning_count (s\<lparr>xSensorQueue := q\<rparr>) = warning_count s"
  "healthy_count (s\<lparr>xTelemetryQueue := r\<rparr>) = healthy_count s" "warning_count (s\<lparr>xTelemetryQueue := r\<rparr>) = warning_count s"
  "healthy_count (s\<lparr>heartbeat_events := e\<rparr>) = healthy_count s" "warning_count (s\<lparr>heartbeat_events := e\<rparr>) = warning_count s"
  "healthy_count (s\<lparr>sensor_kick := m\<rparr>) = healthy_count s" "warning_count (s\<lparr>sensor_kick := m\<rparr>) = warning_count s"
  "healthy_count (s\<lparr>xLogFd := fd\<rparr>) = healthy_count s" "warning_count (s\<lparr>xLogFd := fd\<rparr>) = warning_count s"
  "healthy_count (s\<lparr>xTickCount := n\<rparr>) = healthy_count s" "warning_count (s\<lparr>xTickCount := n\<rparr>) = warning_count s"
  "healthy_count (s\<lparr>sensor_sequence := n\<rparr>) = healthy_count s" "warning_count (s\<lparr>sensor_sequence := n\<rparr>) = warning_count s"
  "healthy_count (s\<lparr>sensor_pc := pc\<rparr>) = healthy_count s" "warning_count (s\<lparr>sensor_pc := pc\<rparr>) = warning_count s"
  "healthy_count (s\<lparr>processor_pc := pp\<rparr>) = healthy_count s" "warning_count (s\<lparr>processor_pc := pp\<rparr>) = warning_count s"
  "healthy_count (s\<lparr>logger_pc := lp\<rparr>) = healthy_count s" "warning_count (s\<lparr>logger_pc := lp\<rparr>) = warning_count s"
  "healthy_count (s\<lparr>diag_snapshot := st\<rparr>) = healthy_count s" "warning_count (s\<lparr>diag_snapshot := st\<rparr>) = warning_count s"
  "healthy_count (s\<lparr>diag_reads := ns\<rparr>) = healthy_count s" "warning_count (s\<lparr>diag_reads := ns\<rparr>) = warning_count s"
  "healthy_count (s\<lparr>diag_todo := todo\<rparr>) = healthy_count s" "warning_count (s\<lparr>diag_todo := todo\<rparr>) = warning_count s"
  "healthy_count (s\<lparr>exit_status := x\<rparr>) = healthy_count s" "warning_count (s\<lparr>exit_status := x\<rparr>) = warning_count s"
  by (simp_all add: healthy_count_def warning_count_def)

lemma sensor_next_new [simp]: "sensor_new (sensor_next b) = 0" "(case sensor_next b of S_Beat \<Rightarrow> (1 :: nat) | _ \<Rightarrow> 0) = 0"
  by (cases b; simp)+

text \<open>The invariant is opened only once the step has been computed.\<close>

lemma sensor_beats:
  assumes "state_mutex s" and "beats_inv n a b c s" and "prvSensorTask list_rtos s = Some s'"
  shows "beats_inv (if sensor_sequence s' = sensor_sequence s then n else Suc n)
    (if sensor_pc s = S_Count then Suc a else a) b c s'"
proof (cases "sensor_pc s")
  case (S_Make x)
  then show ?thesis
    using assms by (cases x; clarsimp simp: prvSensorTask_def; simp add: beats_inv_def Let_def ahead_def split: if_splits)
qed (use assms in \<open>clarsimp simp: prvSensorTask_def section_defs spec_push_def split: if_splits;
    simp add: beats_inv_def Let_def ahead_def bit_or_iff\<close>)+

lemma processor_beats:
  assumes "state_mutex s" and "beats_inv n a b c s" and "prvProcessorTask list_rtos g s = Some s'"
  shows "beats_inv n a (case processor_pc s of P_Count x \<Rightarrow> Suc b | _ \<Rightarrow> b) c s'"
  using assms
  by (cases "processor_pc s";
      clarsimp simp: prvProcessorTask_def section_defs spec_push_def spec_pop_Some split: if_splits;
      simp add: beats_inv_def Let_def ahead_def count_print report_task bit_or_iff)

lemma logger_beats:
  assumes "state_mutex s" and "beats_inv n a b c s" and "prvLoggerTask list_rtos g s = Some s'"
  shows "beats_inv n a b (case logger_pc s of L_Count x \<Rightarrow> Suc c | _ \<Rightarrow> c) s'"
  using assms
  by (cases "logger_pc s"; clarsimp simp: prvLoggerTask_def section_defs spec_pop_Some;
      simp add: beats_inv_def Let_def ahead_def count_print report_task bit_or_iff)

lemma healthy_line_report:
  assumes "length g = 256"
  shows "healthy_report (Watchdog, console_writef m fd g healthy_fmt [VULong a, VULong b, VULong c])"
    and "\<not> warning_report (Watchdog, console_writef m fd g healthy_fmt [VULong a, VULong b, VULong c])"
  by (simp_all add: healthy_report_def warning_report_def healthy_line [OF assms] nl_def)

lemma warning_line_report:
  assumes "length g = 256"
  shows "\<not> healthy_report (Watchdog, console_writef m fd g warning_fmt [VULong v])"
    and "warning_report (Watchdog, console_writef m fd g warning_fmt [VULong v])"
  by (simp_all add: healthy_report_def warning_report_def warning_line [OF assms] nl_def)

lemma watchdog_beats:
  assumes "state_mutex s" and "length g = 256" and "beats_inv n a b c s"
    and "prvWatchdogTask list_rtos x g s = Some s'"
  shows "beats_inv n a b c s'"
proof (cases "watchdog_pc s")
  case W_Wait
  let ?v = "heartbeat_events s"
  show ?thesis
  proof (cases "?v AND 7 = 7")
    case True
    then have s': "s' = s\<lparr>heartbeat_events := ?v AND NOT 7, watchdog_pc := if ?v = 7 then W_Read1 else W_Count ?v\<rparr>"
      using W_Wait assms(4) by (auto simp: prvWatchdogTask_def spec_wait_bits_def)
    show ?thesis
      using assms(3) W_Wait all_set [OF True]
      by (auto simp: s' beats_inv_def Let_def ahead_def healthy_count_def warning_count_def bit_and_iff bit_not_iff)
  next
    case False
    then have s': "s' = s\<lparr>watchdog_pc := W_Count ?v\<rparr>"
      using W_Wait assms(4) by (auto simp: prvWatchdogTask_def spec_wait_bits_def split: if_splits)
    show ?thesis
      using assms(3) W_Wait by (simp add: s' beats_inv_def Let_def ahead_def healthy_count_def warning_count_def)
  qed
qed (use assms in \<open>clarsimp simp: prvWatchdogTask_def section_defs;
    simp add: beats_inv_def Let_def ahead_def healthy_count_def warning_count_def healthy_line_report warning_line_report\<close>)+

lemma beats_same:
  assumes "beats_inv n a b c s" and "xStats s' = (xStats s)\<lparr>fault_mode := mode\<rparr> \<or> xStats s' = xStats s"
    and "heartbeat_events s' = heartbeat_events s" and "sensor_sequence s' = sensor_sequence s"
    and "sensor_pc s' = sensor_pc s" and "processor_pc s' = processor_pc s" and "logger_pc s' = logger_pc s"
    and "xSensorQueue s' = xSensorQueue s" and "xTelemetryQueue s' = xTelemetryQueue s"
    and "healthy_count s' = healthy_count s" and "warning_count s' = warning_count s"
  shows "beats_inv n a b c s'"
  using assms by (elim disjE) (simp_all add: beats_inv_def Let_def ahead_def)

lemma beats_cleared:
  assumes "beats_inv n a b c s" and "\<not> bit e 0" and "\<not> bit e 1" and "\<not> bit e 2"
  shows "beats_inv n a b c (s\<lparr>heartbeat_events := e\<rparr>)"
proof -
  have drop: "(h :: nat) + k \<le> m" if "h + of_bool p + k \<le> m" for h k m p
    using that by simp
  show ?thesis
    using assms unfolding beats_inv_def Let_def ahead_def
    by (auto dest: drop)
qed

lemma diagnostics_beats:
  assumes "state_mutex s" and "unreset s \<Longrightarrow> beats_inv n a b c s" and "one_reset (diag_todo s)"
    and "prvDiagnosticsTask list_rtos env s = Some s'" and "unreset s'"
  shows "beats_inv n a b c s'"
proof -
  obtain x todo where a: "diag_todo s = x # todo"
    using assms(4) by (cases "diag_todo s") (auto simp: prvDiagnosticsTask_def)
  moreover have "diag_todo s' = todo"
    using perform_todo [of "Run_diagnostics env" s s'] assms(1,4) a by simp
  ultimately have "beats_inv n a b c s" and "x \<notin> {A_ResetStats, A_ResetSensorQueue, A_ResetTelemetryQueue}"
    using assms(2,3,5) by (auto simp: unreset_def)
  then show ?thesis
  proof (cases "x = A_ClearHeartbeats")
    case True
    then have "s' = s\<lparr>diag_todo := todo, heartbeat_events := heartbeat_events s AND NOT 7\<rparr>"
      using assms(4) a by (auto simp: prvDiagnosticsTask_def)
    then show ?thesis
      using beats_cleared [OF beats_same [OF \<open>beats_inv n a b c s\<close>, of "s\<lparr>diag_todo := todo\<rparr>" FAULT_NONE]
          cleared_bits [of "heartbeat_events s"]] by simp
  next
    case False
    note other = this
    show ?thesis
    proof (cases "\<exists>mode. x = A_SetFault mode")
      case True
      then obtain mode where "s' = s\<lparr>diag_todo := todo, xStats := (xStats s)\<lparr>fault_mode := mode\<rparr>\<rparr>"
        using assms(1,4) a by (auto simp: prvDiagnosticsTask_def)
      then show ?thesis
        by (intro beats_same [OF \<open>beats_inv n a b c s\<close>, where mode = mode]) simp_all
    next
      case False
      then have "xStats s' = xStats s \<and> heartbeat_events s' = heartbeat_events s \<and> sensor_sequence s' = sensor_sequence s
        \<and> sensor_pc s' = sensor_pc s \<and> processor_pc s' = processor_pc s \<and> logger_pc s' = logger_pc s
        \<and> xSensorQueue s' = xSensorQueue s \<and> xTelemetryQueue s' = xTelemetryQueue s
        \<and> healthy_count s' = healthy_count s \<and> warning_count s' = warning_count s"
        using other \<open>x \<notin> _\<close> assms(1,4) a
        by (cases x) (auto simp: prvDiagnosticsTask_def count_print report_task)
      then show ?thesis
        by (intro beats_same [OF \<open>beats_inv n a b c s\<close>, where mode = FAULT_NONE]) simp_all
    qed
  qed
qed

lemma perform_beats:
  assumes "state_mutex s" and "unreset s \<Longrightarrow> \<exists>a b c. beats_inv n a b c s" and "one_reset (diag_todo s)"
    and "choice_ok ch" and "perform list_rtos ch s = Some s'" and "unreset s'"
  shows "\<exists>a b c. beats_inv (if sensor_sequence s' = sensor_sequence s then n else Suc n) a b c s'"
proof -
  have up: ?thesis if "beats_inv n a b c s'" and "sensor_sequence s' = sensor_sequence s" for a b c
    using that by auto
  have "unreset s"
    using assms(6) perform_todo [OF assms(5,1)] by (cases ch; cases "diag_todo s") (auto simp: unreset_def)
  then obtain a b c where i: "beats_inv n a b c s" using assms(2) by blast
  show ?thesis
  proof (cases ch)
    case Run_tick
    have "beats_inv n a b c s'"
      by (rule beats_same [OF i, where mode = FAULT_NONE]) (use Run_tick assms(5) in auto)
    then show ?thesis by (rule up) (use Run_tick assms(5) in auto)
  next
    case Run_timer
    have "beats_inv n a b c s'"
      by (rule beats_same [OF i, where mode = FAULT_NONE]) (use Run_timer assms(5) in \<open>auto simp: prvSensorTimerCallback_def\<close>)
    then show ?thesis by (rule up) (use Run_timer assms(5) in \<open>auto simp: prvSensorTimerCallback_def\<close>)
  next
    case Run_sensor
    then show ?thesis using sensor_beats [OF assms(1) i] assms(5) by fastforce
  next
    case (Run_processor g)
    then have "sensor_sequence s' = sensor_sequence s"
      using assms(1,5) by (cases "processor_pc s") (auto simp: prvProcessorTask_def section_defs split: prod.splits)
    then show ?thesis using processor_beats [OF assms(1) i, of g s'] assms(5) Run_processor up by simp
  next
    case (Run_logger g)
    then have "sensor_sequence s' = sensor_sequence s"
      using assms(1,5) by (cases "logger_pc s") (auto simp: prvLoggerTask_def section_defs)
    then show ?thesis using logger_beats [OF assms(1) i, of g s'] assms(5) Run_logger up by simp
  next
    case (Run_watchdog x g)
    then have "sensor_sequence s' = sensor_sequence s"
      using assms(1,5) by (cases "watchdog_pc s") (auto simp: prvWatchdogTask_def section_defs)
    then show ?thesis using watchdog_beats [OF assms(1) _ i, of g x s'] assms(4,5) Run_watchdog up by simp
  next
    case (Run_diagnostics env)
    then obtain x todo where "diag_todo s = x # todo"
      using assms(5) by (cases "diag_todo s") (auto simp: prvDiagnosticsTask_def)
    then have "sensor_sequence s' = sensor_sequence s"
      using assms(1,5) Run_diagnostics by (cases x) (auto simp: prvDiagnosticsTask_def)
    then show ?thesis
      using diagnostics_beats [OF assms(1) _ assms(3) _ assms(6), of n a b c env] i assms(5) Run_diagnostics up by simp
  qed
qed

lemma reach_beats:
  "fw_reach list_rtos n s \<Longrightarrow> sane s \<and> one_reset (diag_todo s) \<and> (unreset s \<longrightarrow> (\<exists>a b c. beats_inv n a b c s))"
proof (induction rule: list_reach_induct)
  case (Start env s)
  have "beats_inv 0 0 0 0 s"
    using Start(2) by (auto simp: main_list boot_def beats_inv_def Let_def ahead_def zero_stats_def healthy_count_def
        warning_count_def healthy_report_def warning_report_def banner_entries_def banner_def)
  then show ?case
    using Start(2) by (auto simp: main_list boot_def sane_def self_test_resets)
next
  case (Step n s c s')
  then have m: "state_mutex s" by (simp add: sane_def)
  have "one_reset (diag_todo s')"
    using Step perform_todo [OF Step(4) m] by (auto simp: one_reset_tl split: choice.splits)
  with Step show ?case
    using sane_step [of s c s'] perform_beats [OF m _ _ Step(2) Step(4)] by auto
qed

text \<open>The watchdog's run when all three bits are set, and a state that is reached by it.\<close>

lemma healthy_run:
  assumes "state_mutex s" and "exit_status s = None" and "watchdog_pc s = W_Wait" and "heartbeat_events s = 7"
  shows "run_schedule list_rtos (replicate 5 (Run_watchdog False g)) s =
    Some ((print_text Watchdog (\<lambda>m fd. console_writef m fd g healthy_fmt
        [VULong (task_sensor_beats (xStats s)), VULong (task_processor_beats (xStats s)),
         VULong (task_logger_beats (xStats s))]) s)\<lparr>heartbeat_events := 0\<rparr>)"
  using assms
  by (simp add: eval_nat_numeral prvWatchdogTask_def spec_wait_bits_def print_text_def)

definition reported :: list_sys where
  "reported = (print_text Watchdog (\<lambda>m fd. console_writef m fd blank healthy_fmt
        [VULong (task_sensor_beats (xStats first_period)), VULong (task_processor_beats (xStats first_period)),
         VULong (task_logger_beats (xStats first_period))]) first_period)\<lparr>heartbeat_events := 0\<rparr>"

lemma first_period_more:
  "watchdog_pc first_period = W_Wait" "heartbeat_events first_period = 7"
  "filter healthy_report (printed first_period) = []"
  using period_result(5) [OF start_idle(1), of blank]
  by (simp_all add: first_period_def blank_def start_state_def boot_def delivered_def processed_def sampled_def
      Let_def report_task banner_entries_def banner_def zero_stats_def)

lemma reported_reached: "\<exists>m \<le> 45. fw_reach list_rtos m reported"
proof -
  obtain m where m: "m \<le> 40" "fw_reach list_rtos m first_period" using first_period_reached by auto
  have "run_schedule list_rtos (replicate 5 (Run_watchdog False blank)) first_period = Some reported"
    unfolding reported_def using first_period_more first_period_facts(1)
    by (intro healthy_run) (simp_all add: idle_def)
  then obtain k where "fw_reach list_rtos k reported" "k \<le> m + 5"
    using run_schedule_reach [OF _ _ m(2)] by (fastforce simp: list_all_iff blank_def)
  then show ?thesis using m(1) by (intro exI [of _ k]) simp
qed

subsection \<open>Properties\<close>

text \<open>C4: The watchdog's reports before the self-test's reset: the number of lines that call the system healthy
  is at most the number of beats of each of the three tasks, so no report reuses a beat and a task
  that stops beating stops the reports; and the warning counter is exactly the number of warning
  lines printed or about to be, whatever the interleaving, for fewer than \<open>2^32 - 1\<close> samples.\<close>

theorem watchdog_sound:
  assumes "rtos_contract K V" and "fw_reach K n s" and "A_ResetStats \<in> set (diag_todo s)" and "n + 1 < 2 ^ 32"
  shows "let h = length (filter healthy_report (printed s)); st = xStats s in
    h \<le> unat (task_sensor_beats st) \<and> h \<le> unat (task_processor_beats st) \<and> h \<le> unat (task_logger_beats st)
    \<and> unat (task_sensor_beats st) \<le> n + 1 \<and> watchdog_warnings st = of_nat (warning_count s)"
proof -
  have "fw_reach list_rtos n (view V s)" using fw_reach_view [OF assms(2,1)] by simp
  from reach_beats [OF this] assms(3) obtain a b c where i: "beats_inv n a b c (view V s)"
    by (auto simp: unreset_def)
  have "sensor_new pc \<le> 1" for pc by (cases pc rule: sensor_new.cases) auto
  then have n: "a \<le> n + 1" "b \<le> n" "c \<le> n"
    using i by (auto simp: beats_inv_def Let_def intro: order_trans)
  then have u: "unat (of_nat a :: u32) = a" "unat (of_nat b :: u32) = b" "unat (of_nat c :: u32) = c"
    using assms(4) by (auto simp: unat_of_nat)
  have w: "warning_count (view V s) = warning_count s" and h: "length (filter healthy_report (printed s)) \<le> healthy_count (view V s)"
    by (simp_all add: warning_count_def healthy_count_def)
  show ?thesis
    using i u n(1) h w unfolding beats_inv_def Let_def by auto
qed

theorem watchdog_sound_witness:
  "length (filter healthy_report (printed reported)) = 1 \<and> 1 \<le> unat (task_logger_beats (xStats reported))"
proof -
  obtain m where m: "m \<le> 45" "fw_reach list_rtos m reported" using reported_reached by auto
  have one: "length (filter healthy_report (printed reported)) = 1"
    using first_period_more(3) healthy_line_report(1) [of blank]
    by (simp add: reported_def blank_def)
  have "diag_todo reported = self_test"
    using first_period_facts(2) by (simp add: reported_def)
  then show ?thesis
    using watchdog_sound [OF list_rtos_contract m(2)] m(1) one self_test_resets(2) by (simp add: Let_def)
qed

end
