(* ===== verification/EcuSim.thy ===== *)
theory EcuSim
  imports MsgQueue
begin

text \<open>
  The simulator of the host build, \<open>src/src/ecu_sim.c\<close>: four threads around the two queues of
  \<open>MsgQueue\<close>, a snapshot of counters, a fault mode and a heartbeat table. The type \<open>'f\<close> is the C
  type \<open>double\<close>; its operations, the mathematical library and the byte layout of the two structs that
  go through the queues are the fields of the parameter \<open>'f host\<close>.

  A thread is a function from its program point and the shared state to the next ones. One step is
  one critical section, one access to an atomic or unlocked variable, one wait or one sleep; the code
  between two of them touches the thread's own variables only and belongs to the step before. The two
  calls of \<open>queue_count\<close> inside a critical section take the queues' own locks in turn; they are part
  of the section's step. The clock's answer is an argument of the step. A print is recorded as the
  call that is made, with its format and arguments.
\<close>

subsection \<open>Data\<close>

datatype HostFaultMode = FAULT_NONE | FAULT_QUEUE_OVERFLOW | FAULT_SENSOR_FAILURE | FAULT_PROCESS_STALL

datatype TaskId = TASK_SENSOR | TASK_PROCESSOR | TASK_LOGGER | TASK_WATCHDOG

record 'f HostSample =
  hs_sequence :: u64
  hs_temperature_c :: 'f
  hs_accel_x :: 'f
  hs_accel_y :: 'f
  hs_accel_z :: 'f
  hs_speed_kmh :: 'f
  hs_fault_code :: i32
  hs_timestamp :: timespec

record 'f HostFrame =
  hf_sequence :: u64
  hf_temperature_c :: 'f
  hf_accel_x :: 'f
  hf_accel_y :: 'f
  hf_accel_z :: 'f
  hf_speed_kmh :: 'f
  hf_rpm :: 'f
  hf_throttle_pct :: 'f
  hf_fault_code :: i32
  hf_timestamp :: timespec

record 'f EcuSnapshot =
  sn_sensor_samples :: u64
  sn_telemetry_frames :: u64
  sn_sensor_drops :: u64
  sn_telemetry_drops :: u64
  sn_watchdog_warnings :: u64
  sn_sensor_beats :: u64
  sn_processor_beats :: u64
  sn_logger_beats :: u64
  sn_watchdog_beats :: u64
  sn_sensor_queue_depth :: nat
  sn_telemetry_queue_depth :: nat
  sn_temperature_c :: 'f
  sn_accel_x :: 'f
  sn_accel_y :: 'f
  sn_accel_z :: 'f
  sn_speed_kmh :: 'f
  sn_rpm :: 'f
  sn_throttle_pct :: 'f
  sn_fault_mode :: HostFaultMode

record 'f EcuSim =
  stop_requested :: bool
  running :: bool
  last_beat :: "TaskId \<Rightarrow> timespec"
  beat_initialized :: "TaskId \<Rightarrow> bool"
  sensor_queue :: "MsgQueue option"
  telemetry_queue :: "MsgQueue option"
  snapshot :: "'f EcuSnapshot"
  sim_fault_mode :: HostFaultMode
  sim_sequence :: u64
  sim_speed_kmh :: 'f
  started :: bool

text \<open>
  The parameter: the operations on \<open>double\<close> the code uses (\<open>fp_lit m d\<close> is the literal whose digits
  are \<open>m\<close> with \<open>d\<close> of them after the point, \<open>fp_zero\<close> the value of zeroed memory), and the layout of
  the structs.
\<close>

record 'f host =
  fp_lit :: "int \<Rightarrow> nat \<Rightarrow> 'f"
  fp_zero :: 'f
  fp_of_u64 :: "u64 \<Rightarrow> 'f"
  fp_add :: "'f \<Rightarrow> 'f \<Rightarrow> 'f"
  fp_mul :: "'f \<Rightarrow> 'f \<Rightarrow> 'f"
  fp_div :: "'f \<Rightarrow> 'f \<Rightarrow> 'f"
  fp_sin :: "'f \<Rightarrow> 'f"
  fp_sqrt :: "'f \<Rightarrow> 'f"
  fp_fmin :: "'f \<Rightarrow> 'f \<Rightarrow> 'f"
  fp_fmax :: "'f \<Rightarrow> 'f \<Rightarrow> 'f"
  sizeof_sample :: nat
  sample_bytes :: "'f HostSample \<Rightarrow> u8 list"
  sample_of :: "u8 list \<Rightarrow> 'f HostSample"
  sizeof_frame :: nat
  frame_bytes :: "'f HostFrame \<Rightarrow> u8 list"
  frame_of :: "u8 list \<Rightarrow> 'f HostFrame"
  sizeof_snapshot :: nat

text \<open>A print call with its arguments at the types of the call.\<close>

datatype 'f c_arg = C_ull u64 | C_double 'f | C_int i32 | C_long int | C_size nat | C_string string

datatype 'f out = Printf string "'f c_arg list" | Puts string | Fputs string | Eprintf string

abbreviation newline :: "'f out" where "newline \<equiv> Printf [CHR 0x0A] []"

subsection \<open>Time\<close>

definition prvDiffMs :: "timespec \<Rightarrow> timespec \<Rightarrow> int" where
  "prvDiffMs a b =
     (let sec = tv_sec a - tv_sec b;
          nsec = tv_nsec a - tv_nsec b
      in sec * 1000 + nsec sdiv 1000000)"

definition zero_time :: timespec where
  "zero_time = \<lparr>tv_sec = 0, tv_nsec = 0\<rparr>"

subsection \<open>Heartbeats\<close>

definition prvBeat :: "timespec \<Rightarrow> TaskId \<Rightarrow> 'f EcuSim \<Rightarrow> 'f EcuSim" where
  "prvBeat ts task s =
     (let s = s\<lparr>last_beat := (last_beat s)(task := ts)\<rparr>;
          s = s\<lparr>beat_initialized := (beat_initialized s)(task := True)\<rparr>;
          n = snapshot s
      in s\<lparr>snapshot :=
           (case task of
              TASK_SENSOR \<Rightarrow> n\<lparr>sn_sensor_beats := sn_sensor_beats n + 1\<rparr>
            | TASK_PROCESSOR \<Rightarrow> n\<lparr>sn_processor_beats := sn_processor_beats n + 1\<rparr>
            | TASK_LOGGER \<Rightarrow> n\<lparr>sn_logger_beats := sn_logger_beats n + 1\<rparr>
            | TASK_WATCHDOG \<Rightarrow> n\<lparr>sn_watchdog_beats := sn_watchdog_beats n + 1\<rparr>)\<rparr>)"

definition prvClearBeats :: "'f EcuSim \<Rightarrow> 'f EcuSim" where
  "prvClearBeats s = s\<lparr>beat_initialized := \<lambda>_. False, last_beat := \<lambda>_. zero_time\<rparr>"

subsection \<open>Samples and frames\<close>

definition ecu_get_fault :: "'f EcuSim option \<Rightarrow> HostFaultMode" where
  "ecu_get_fault sim = (case sim of None \<Rightarrow> FAULT_NONE | Some s \<Rightarrow> sim_fault_mode s)"

text \<open>\<open>base + amp * sin (phase * k)\<close>, the shape of the five channels; the first has no factor \<open>k\<close>.\<close>

definition channel :: "'f host \<Rightarrow> 'f \<Rightarrow> 'f \<Rightarrow> 'f \<Rightarrow> 'f" where
  "channel K base amp x = fp_add K base (fp_mul K amp (fp_sin K x))"

definition prvMakeSensorSample :: "'f host \<Rightarrow> timespec \<Rightarrow> 'f EcuSim \<Rightarrow> u64 \<Rightarrow> 'f HostSample" where
  "prvMakeSensorSample K now sim seq =
     (let lit = fp_lit K;
          phase = fp_div K (fp_of_u64 K seq) (lit 60 1);
          s = \<lparr>hs_sequence = seq,
               hs_temperature_c = channel K (lit 720 1) (lit 80 1) phase,
               hs_accel_x = channel K (lit 3 1) (lit 2 1) (fp_mul K phase (lit 13 1)),
               hs_accel_y = channel K (lit (- 1) 1) (lit 15 2) (fp_mul K phase (lit 9 1)),
               hs_accel_z = channel K (lit 98 1) (lit 2 1) (fp_mul K phase (lit 17 1)),
               hs_speed_kmh = channel K (lit 600 1) (lit 200 1) (fp_mul K phase (lit 5 1)),
               hs_fault_code = 0,
               hs_timestamp = now\<rparr>
      in if ecu_get_fault (Some sim) = FAULT_SENSOR_FAILURE
         then s\<lparr>hs_temperature_c := lit 1550 1, hs_accel_x := lit 42 1, hs_accel_y := lit 42 1,
                hs_accel_z := lit 42 1, hs_fault_code := 1\<rparr>
         else s)"

definition host_prvProcessSample :: "'f host \<Rightarrow> timespec \<Rightarrow> 'f HostSample \<Rightarrow> 'f HostFrame" where
  "host_prvProcessSample K now s =
     (let lit = fp_lit K; add = fp_add K; mul = fp_mul K;
          accel_mag = fp_sqrt K (add (add (mul (hs_accel_x s) (hs_accel_x s))
                                          (mul (hs_accel_y s) (hs_accel_y s)))
                                     (mul (hs_accel_z s) (hs_accel_z s)))
      in \<lparr>hf_sequence = hs_sequence s,
          hf_temperature_c = hs_temperature_c s,
          hf_accel_x = hs_accel_x s,
          hf_accel_y = hs_accel_y s,
          hf_accel_z = hs_accel_z s,
          hf_speed_kmh = hs_speed_kmh s,
          hf_rpm = add (add (lit 7000 1) (mul (hs_temperature_c s) (lit 175 1)))
                       (mul accel_mag (lit 1250 1)),
          hf_throttle_pct = fp_fmax K (lit 0 1) (fp_fmin K (lit 1000 1)
             (add (add (lit 120 1) (mul accel_mag (lit 140 1)))
                  (fp_div K (hs_temperature_c s) (lit 60 1)))),
          hf_fault_code = hs_fault_code s,
          hf_timestamp = now\<rparr>)"

subsection \<open>The snapshot\<close>

definition with_depths :: "'f EcuSim \<Rightarrow> 'f EcuSnapshot \<Rightarrow> 'f EcuSnapshot" where
  "with_depths s n = n\<lparr>sn_sensor_queue_depth := queue_count (sensor_queue s),
                       sn_telemetry_queue_depth := queue_count (telemetry_queue s)\<rparr>"

definition prvUpdateFromSample :: "'f HostSample \<Rightarrow> 'f EcuSim \<Rightarrow> 'f EcuSim" where
  "prvUpdateFromSample x s =
     (let n = snapshot s;
          n = n\<lparr>sn_sensor_samples := sn_sensor_samples n + 1,
                sn_temperature_c := hs_temperature_c x,
                sn_accel_x := hs_accel_x x,
                sn_accel_y := hs_accel_y x,
                sn_accel_z := hs_accel_z x,
                sn_speed_kmh := hs_speed_kmh x\<rparr>
      in s\<lparr>snapshot := with_depths s n\<rparr>)"

definition prvUpdateFromFrame :: "'f HostFrame \<Rightarrow> 'f EcuSim \<Rightarrow> 'f EcuSim" where
  "prvUpdateFromFrame f s =
     (let n = snapshot s;
          n = n\<lparr>sn_telemetry_frames := sn_telemetry_frames n + 1,
                sn_temperature_c := hf_temperature_c f,
                sn_accel_x := hf_accel_x f,
                sn_accel_y := hf_accel_y f,
                sn_accel_z := hf_accel_z f,
                sn_speed_kmh := hf_speed_kmh f,
                sn_rpm := hf_rpm f,
                sn_throttle_pct := hf_throttle_pct f\<rparr>
      in s\<lparr>snapshot := with_depths s n\<rparr>)"

definition host_prvIncrementDrop :: "bool \<Rightarrow> 'f EcuSim \<Rightarrow> 'f EcuSim" where
  "host_prvIncrementDrop sensor_q s =
     (let n = snapshot s
      in s\<lparr>snapshot := (if sensor_q then n\<lparr>sn_sensor_drops := sn_sensor_drops n + 1\<rparr>
                        else n\<lparr>sn_telemetry_drops := sn_telemetry_drops n + 1\<rparr>)\<rparr>)"

definition prvLog :: "string \<Rightarrow> 'f c_arg list \<Rightarrow> 'f out list" where
  "prvLog fmt args = [Printf fmt args, newline]"

subsection \<open>The sensor thread\<close>

text \<open>A sample belongs to a burst, at its position, or is the only one of a pass, in the mode read.\<close>

datatype burst = Burst nat | Single HostFaultMode

datatype 'f sensor_thread =
    ES_Start
  | ES_While
  | ES_Mode
  | ES_For nat
  | ES_Inject HostFaultMode
  | ES_Sequence burst
  | ES_Make burst u64
  | ES_Push burst "'f HostSample"
  | ES_Drop burst
  | ES_Update burst "'f HostSample"
  | ES_Beat int
  | ES_Sleep int
  | ES_Return

fun after_sample :: "burst \<Rightarrow> 'f sensor_thread" where
  "after_sample (Burst i) = ES_For (Suc i)"
| "after_sample (Single mode) = ES_Beat (if mode = FAULT_PROCESS_STALL then 90 else 180)"

fun prvSensorThread :: "'f host \<Rightarrow> timespec \<Rightarrow> 'f sensor_thread \<Rightarrow> 'f EcuSim \<Rightarrow>
    ('f sensor_thread \<times> 'f EcuSim \<times> 'f out list) option" where
  "prvSensorThread K now ES_Start s = Some (ES_While, prvBeat now TASK_SENSOR s, [])"
| "prvSensorThread K now ES_While s = Some (if stop_requested s then ES_Return else ES_Mode, s, [])"
| "prvSensorThread K now ES_Mode s =
     (let mode = ecu_get_fault (Some s)
      in Some (if mode = FAULT_QUEUE_OVERFLOW then ES_For 0 else ES_Inject mode, s, []))"
| "prvSensorThread K now (ES_For i) s =
     Some (if i < 4 \<and> \<not> stop_requested s then ES_Sequence (Burst i) else ES_Beat 25, s, [])"
| "prvSensorThread K now (ES_Inject mode) s =
     Some (ES_Sequence (Single mode), s,
       if mode = FAULT_SENSOR_FAILURE \<and> sim_sequence s mod 10 = 0
       then prvLog ''[sensor] injected invalid reading'' [] else [])"
| "prvSensorThread K now (ES_Sequence b) s =
     (let s = s\<lparr>sim_sequence := sim_sequence s + 1\<rparr> in Some (ES_Make b (sim_sequence s), s, []))"
| "prvSensorThread K now (ES_Make b seq) s = Some (ES_Push b (prvMakeSensorSample K now s seq), s, [])"
| "prvSensorThread K now (ES_Push b x) s =
     (let (pushed, q, _) = queue_push (sensor_queue s) (Some (sample_bytes K x))
      in Some (if pushed then ES_Update b x else ES_Drop b, s\<lparr>sensor_queue := q\<rparr>, []))"
| "prvSensorThread K now (ES_Drop b) s = Some (after_sample b, host_prvIncrementDrop True s, [])"
| "prvSensorThread K now (ES_Update b x) s = Some (after_sample b, prvUpdateFromSample x s, [])"
| "prvSensorThread K now (ES_Beat ms) s = Some (ES_Sleep ms, prvBeat now TASK_SENSOR s, [])"
| "prvSensorThread K now (ES_Sleep ms) s = Some (ES_While, s, [])"
| "prvSensorThread K now ES_Return s = None"

subsection \<open>Waiting for a message\<close>

text \<open>
  \<open>queue_pop\<close> with a timeout, cut at its wait: entering the call and waking up test the count, a
  wait that times out fails without testing it. \<open>Blocked\<close> is a caller that goes (back) to sleep.
  The lemma says that this is the wait loop of \<open>queue_pop\<close>, one event at a time.
\<close>

definition pop_attempt :: "int \<Rightarrow> bool \<Rightarrow> MsgQueue \<Rightarrow> pop_result" where
  "pop_attempt timeout_ms expired q = (if expired then Failed q else fst (pop_wait timeout_ms q []))"

lemma pop_wait_is_attempts:
  assumes "0 \<le> t" and "q_count q = 0"
  shows "fst (pop_wait t q (Woken now q' # evs)) =
      (case pop_attempt t False q' of Blocked \<Rightarrow> fst (pop_wait t q' evs) | r \<Rightarrow> r)"
    and "fst (pop_wait t q (TimedOut now q' # evs)) = pop_attempt t True q'"
  using assms by (auto simp: pop_attempt_def split: prod.splits)

subsection \<open>The processor thread\<close>

datatype 'f processor_thread =
    EP_Start
  | EP_While
  | EP_Pop
  | EP_Wait
  | EP_Missed
  | EP_Fault "'f HostSample"
  | EP_Log "'f HostSample"
  | EP_Sleep "'f HostSample"
  | EP_Process "'f HostSample"
  | EP_Push "'f HostFrame"
  | EP_Drop
  | EP_Update "'f HostFrame"
  | EP_Beat
  | EP_Return

definition processor_pop :: "'f host \<Rightarrow> bool \<Rightarrow> 'f EcuSim \<Rightarrow>
    ('f processor_thread \<times> 'f EcuSim \<times> 'f out list) option" where
  "processor_pop K expired s =
     (case sensor_queue s of
        None \<Rightarrow> Some (EP_Missed, s, [])
      | Some q \<Rightarrow>
          (case pop_attempt 250 expired q of
             Got x q \<Rightarrow> Some (EP_Fault (sample_of K x), s\<lparr>sensor_queue := Some q\<rparr>, [])
           | Failed q \<Rightarrow> Some (EP_Missed, s, [])
           | Blocked \<Rightarrow> None))"

fun prvProcessorThread :: "'f host \<Rightarrow> timespec \<Rightarrow> bool \<Rightarrow> 'f processor_thread \<Rightarrow> 'f EcuSim \<Rightarrow>
    ('f processor_thread \<times> 'f EcuSim \<times> 'f out list) option" where
  "prvProcessorThread K now expired EP_Start s = Some (EP_While, prvBeat now TASK_PROCESSOR s, [])"
| "prvProcessorThread K now expired EP_While s =
     Some (if stop_requested s then EP_Return else EP_Pop, s, [])"
| "prvProcessorThread K now expired EP_Pop s =
     (case processor_pop K False s of None \<Rightarrow> Some (EP_Wait, s, []) | r \<Rightarrow> r)"
| "prvProcessorThread K now expired EP_Wait s = processor_pop K expired s"
| "prvProcessorThread K now expired EP_Missed s = Some (EP_While, prvBeat now TASK_PROCESSOR s, [])"
| "prvProcessorThread K now expired (EP_Fault x) s =
     Some (if ecu_get_fault (Some s) = FAULT_PROCESS_STALL \<and> hs_sequence x mod 8 = 0
           then EP_Log x else EP_Process x, s, [])"
| "prvProcessorThread K now expired (EP_Log x) s =
     Some (EP_Sleep x, s, prvLog ''[processor] deliberate stall on sample %llu'' [C_ull (hs_sequence x)])"
| "prvProcessorThread K now expired (EP_Sleep x) s = Some (EP_Process x, s, [])"
| "prvProcessorThread K now expired (EP_Process x) s =
     Some (EP_Push (host_prvProcessSample K now x), s, [])"
| "prvProcessorThread K now expired (EP_Push f) s =
     (let (pushed, q, _) = queue_push (telemetry_queue s) (Some (frame_bytes K f))
      in Some (if pushed then EP_Update f else EP_Drop, s\<lparr>telemetry_queue := q\<rparr>, []))"
| "prvProcessorThread K now expired EP_Drop s = Some (EP_Beat, host_prvIncrementDrop False s, [])"
| "prvProcessorThread K now expired (EP_Update f) s = Some (EP_Beat, prvUpdateFromFrame f s, [])"
| "prvProcessorThread K now expired EP_Beat s = Some (EP_While, prvBeat now TASK_PROCESSOR s, [])"
| "prvProcessorThread K now expired EP_Return s = None"

subsection \<open>The logger thread\<close>

datatype 'f logger_thread =
    EL_Start
  | EL_While
  | EL_Pop
  | EL_Wait
  | EL_Missed
  | EL_Print "'f HostFrame"
  | EL_Beat
  | EL_Return

definition telemetry_fmt :: string where
  "telemetry_fmt =
     ''[telemetry] seq=%llu temp=%.1fC ax=%.2fg ay=%.2fg az=%.2fg '' @
     ''spd=%.1fkm/h rpm=%.0f throttle=%.1f%% fault=%d'' @ [CHR 0x0A]"

definition telemetry_line :: "'f HostFrame \<Rightarrow> 'f out" where
  "telemetry_line f = Printf telemetry_fmt
     [C_ull (hf_sequence f), C_double (hf_temperature_c f), C_double (hf_accel_x f),
      C_double (hf_accel_y f), C_double (hf_accel_z f), C_double (hf_speed_kmh f),
      C_double (hf_rpm f), C_double (hf_throttle_pct f), C_int (hf_fault_code f)]"

definition logger_pop :: "'f host \<Rightarrow> bool \<Rightarrow> 'f EcuSim \<Rightarrow>
    ('f logger_thread \<times> 'f EcuSim \<times> 'f out list) option" where
  "logger_pop K expired s =
     (case telemetry_queue s of
        None \<Rightarrow> Some (EL_Missed, s, [])
      | Some q \<Rightarrow>
          (case pop_attempt 300 expired q of
             Got x q \<Rightarrow> Some (EL_Print (frame_of K x), s\<lparr>telemetry_queue := Some q\<rparr>, [])
           | Failed q \<Rightarrow> Some (EL_Missed, s, [])
           | Blocked \<Rightarrow> None))"

fun prvLoggerThread :: "'f host \<Rightarrow> timespec \<Rightarrow> bool \<Rightarrow> 'f logger_thread \<Rightarrow> 'f EcuSim \<Rightarrow>
    ('f logger_thread \<times> 'f EcuSim \<times> 'f out list) option" where
  "prvLoggerThread K now expired EL_Start s = Some (EL_While, prvBeat now TASK_LOGGER s, [])"
| "prvLoggerThread K now expired EL_While s =
     Some (if stop_requested s then EL_Return else EL_Pop, s, [])"
| "prvLoggerThread K now expired EL_Pop s =
     (case logger_pop K False s of None \<Rightarrow> Some (EL_Wait, s, []) | r \<Rightarrow> r)"
| "prvLoggerThread K now expired EL_Wait s = logger_pop K expired s"
| "prvLoggerThread K now expired EL_Missed s = Some (EL_While, prvBeat now TASK_LOGGER s, [])"
| "prvLoggerThread K now expired (EL_Print f) s = Some (EL_Beat, s, [telemetry_line f])"
| "prvLoggerThread K now expired EL_Beat s = Some (EL_While, prvBeat now TASK_LOGGER s, [])"
| "prvLoggerThread K now expired EL_Return s = None"

subsection \<open>The watchdog thread\<close>

text \<open>The three checks of a pass, with the name and the deadline each is given.\<close>

datatype watch =
  Watch (watched: TaskId) (watch_name: string) (deadline_ms: int)

definition watch_list :: "watch list" where
  "watch_list = [Watch TASK_SENSOR ''sensor'' 900, Watch TASK_PROCESSOR ''processor'' 900,
     Watch TASK_LOGGER ''logger'' 1200]"

datatype watchdog_thread =
    EW_Start
  | EW_While
  | EW_Look "watch list"
  | EW_Age "watch list" timespec
  | EW_Count "watch list" int
  | EW_Log "watch list" int
  | EW_Beat
  | EW_Sleep
  | EW_Return

text \<open>\<open>prvWarnIfOverdue\<close> on the head of the list, in its four steps; each ends at the next check.\<close>

definition next_watch :: "watch list \<Rightarrow> watchdog_thread" where
  "next_watch ws = (case ws of [] \<Rightarrow> EW_Beat | _ \<Rightarrow> EW_Look ws)"

definition host_warning_fmt :: string where
  "host_warning_fmt = ''[watchdog] %s heartbeat overdue by %ldms''"

fun prvWarnIfOverdue :: "timespec \<Rightarrow> watchdog_thread \<Rightarrow> 'f EcuSim \<Rightarrow>
    (watchdog_thread \<times> 'f EcuSim \<times> 'f out list) option" where
  "prvWarnIfOverdue now (EW_Look (w # ws)) s =
     Some (if \<not> beat_initialized s (watched w) then next_watch ws
           else EW_Age (w # ws) (last_beat s (watched w)), s, [])"
| "prvWarnIfOverdue now (EW_Age (w # ws) beat) s =
     (let age = prvDiffMs now beat
      in Some (if age > deadline_ms w then EW_Count (w # ws) age else next_watch ws, s, []))"
| "prvWarnIfOverdue now (EW_Count (w # ws) age) s =
     (let n = snapshot s
      in Some (EW_Log (w # ws) age,
           s\<lparr>snapshot := n\<lparr>sn_watchdog_warnings := sn_watchdog_warnings n + 1\<rparr>\<rparr>, []))"
| "prvWarnIfOverdue now (EW_Log (w # ws) age) s =
     Some (next_watch ws, s, prvLog host_warning_fmt [C_string (watch_name w), C_long (age - deadline_ms w)])"
| "prvWarnIfOverdue now _ s = None"

fun prvWatchdogThread :: "timespec \<Rightarrow> watchdog_thread \<Rightarrow> 'f EcuSim \<Rightarrow>
    (watchdog_thread \<times> 'f EcuSim \<times> 'f out list) option" where
  "prvWatchdogThread now EW_Start s = Some (EW_While, prvBeat now TASK_WATCHDOG s, [])"
| "prvWatchdogThread now EW_While s =
     Some (if stop_requested s then EW_Return else next_watch watch_list, s, [])"
| "prvWatchdogThread now EW_Beat s = Some (EW_Sleep, prvBeat now TASK_WATCHDOG s, [])"
| "prvWatchdogThread now EW_Sleep s = Some (EW_While, s, [])"
| "prvWatchdogThread now EW_Return s = None"
| "prvWatchdogThread now at s = prvWarnIfOverdue now at s"

subsection \<open>The public interface\<close>

definition zero_snapshot :: "'f host \<Rightarrow> 'f EcuSnapshot" where
  "zero_snapshot K =
     \<lparr>sn_sensor_samples = 0, sn_telemetry_frames = 0, sn_sensor_drops = 0, sn_telemetry_drops = 0,
      sn_watchdog_warnings = 0, sn_sensor_beats = 0, sn_processor_beats = 0, sn_logger_beats = 0,
      sn_watchdog_beats = 0, sn_sensor_queue_depth = 0, sn_telemetry_queue_depth = 0,
      sn_temperature_c = fp_zero K, sn_accel_x = fp_zero K, sn_accel_y = fp_zero K,
      sn_accel_z = fp_zero K, sn_speed_kmh = fp_zero K, sn_rpm = fp_zero K,
      sn_throttle_pct = fp_zero K, sn_fault_mode = FAULT_NONE\<rparr>"

definition prvInitSnapshot :: "'f host \<Rightarrow> 'f EcuSim \<Rightarrow> 'f EcuSim" where
  "prvInitSnapshot K s =
     s\<lparr>snapshot := with_depths s ((zero_snapshot K)\<lparr>sn_fault_mode := sim_fault_mode s\<rparr>)\<rparr>"

text \<open>What the allocator and the initialisers answer in \<open>ecu_create\<close>, and what is given back.\<close>

record ecu_env =
  calloc_sim :: bool
  state_mutex_init :: int
  log_mutex_init :: int
  beat_mutex_init :: int
  sensor_queue_env :: create_env
  telemetry_queue_env :: create_env

datatype ecu_release =
  Queue_release release | Destroy_state_mutex | Destroy_log_mutex | Destroy_beat_mutex | Free_sim

definition ecu_release_all :: "'f EcuSim \<Rightarrow> ecu_release list" where
  "ecu_release_all s =
     map Queue_release (queue_destroy (sensor_queue s)) @
     map Queue_release (queue_destroy (telemetry_queue s)) @
     [Destroy_state_mutex, Destroy_log_mutex, Destroy_beat_mutex, Free_sim]"

text \<open>The block as \<open>calloc\<close> returns it.\<close>

definition calloc_EcuSim :: "'f host \<Rightarrow> 'f EcuSim" where
  "calloc_EcuSim K =
     \<lparr>stop_requested = False, running = False, last_beat = \<lambda>_. zero_time, beat_initialized = \<lambda>_. False,
      sensor_queue = None, telemetry_queue = None, snapshot = zero_snapshot K,
      sim_fault_mode = FAULT_NONE, sim_sequence = 0, sim_speed_kmh = fp_zero K, started = False\<rparr>"

text \<open>
  \<open>ecu_create\<close> and what was released on the way out, in order. On its error paths it calls
  \<open>ecu_destroy\<close>, whose \<open>ecu_stop\<close> returns at once because nothing was started.
\<close>

definition ecu_create :: "'f host \<Rightarrow> ecu_env \<Rightarrow> 'f EcuSim option \<times> ecu_release list" where
  "ecu_create K env =
     (if \<not> calloc_sim env then (None, [])
      else
        let s = calloc_EcuSim K
        in if state_mutex_init env \<noteq> 0 \<or> log_mutex_init env \<noteq> 0 \<or> beat_mutex_init env \<noteq> 0
           then (None, ecu_release_all s)
           else
             let (sq, sr) = queue_create (sensor_queue_env env) (Some ''sensor'') (sizeof_sample K) 24;
                 (tq, tr) = queue_create (telemetry_queue_env env) (Some ''telemetry'') (sizeof_frame K) 24;
                 s = s\<lparr>sensor_queue := sq, telemetry_queue := tq\<rparr>
             in if sq = None \<or> tq = None
                then (None, map Queue_release (sr @ tr) @ ecu_release_all s)
                else (Some (prvInitSnapshot K (s\<lparr>sim_fault_mode := FAULT_NONE\<rparr>)), []))"

text \<open>
  The calls that other threads can observe half-way are sequences of actions, each one store, one
  critical section or one call of the thread library.
\<close>

datatype ecu_action =
    A_Stop_requested bool
  | A_Running bool
  | A_Started bool
  | A_Spawn TaskId
  | A_Join TaskId
  | A_Clear_sensor_queue
  | A_Clear_telemetry_queue
  | A_Init_snapshot
  | A_Clear_beats
  | A_Set_fault HostFaultMode
  | A_Release

definition ecu_start :: "'f EcuSim option \<Rightarrow> ecu_action list" where
  "ecu_start sim =
     (case sim of
        None \<Rightarrow> []
      | Some s \<Rightarrow>
          if started s then []
          else [A_Stop_requested False, A_Running True, A_Started True, A_Spawn TASK_SENSOR,
                A_Spawn TASK_PROCESSOR, A_Spawn TASK_LOGGER, A_Spawn TASK_WATCHDOG])"

definition ecu_stop :: "'f EcuSim option \<Rightarrow> ecu_action list" where
  "ecu_stop sim =
     (case sim of
        None \<Rightarrow> []
      | Some s \<Rightarrow>
          if \<not> started s then []
          else [A_Stop_requested True] @
               (if sensor_queue s \<noteq> None then [A_Clear_sensor_queue] else []) @
               (if telemetry_queue s \<noteq> None then [A_Clear_telemetry_queue] else []) @
               map A_Join [TASK_SENSOR, TASK_PROCESSOR, TASK_LOGGER, TASK_WATCHDOG] @
               [A_Started False, A_Running False])"

definition ecu_destroy :: "'f EcuSim option \<Rightarrow> ecu_action list" where
  "ecu_destroy sim = (case sim of None \<Rightarrow> [] | Some s \<Rightarrow> ecu_stop sim @ [A_Release])"

definition ecu_reset :: "'f EcuSim option \<Rightarrow> ecu_action list" where
  "ecu_reset sim =
     (case sim of
        None \<Rightarrow> []
      | Some s \<Rightarrow> [A_Init_snapshot, A_Clear_sensor_queue, A_Clear_telemetry_queue, A_Clear_beats])"

definition ecu_set_fault :: "'f EcuSim option \<Rightarrow> HostFaultMode \<Rightarrow> ecu_action list" where
  "ecu_set_fault sim mode = (case sim of None \<Rightarrow> [] | Some s \<Rightarrow> [A_Set_fault mode])"

definition ecu_snapshot :: "'f EcuSim option \<Rightarrow> 'f EcuSnapshot option" where
  "ecu_snapshot sim = (case sim of None \<Rightarrow> None | Some s \<Rightarrow> Some (with_depths s (snapshot s)))"

definition ecu_is_running :: "'f EcuSim option \<Rightarrow> bool" where
  "ecu_is_running sim = (case sim of None \<Rightarrow> False | Some s \<Rightarrow> running s)"

fun fault_mode_name :: "HostFaultMode \<Rightarrow> string" where
  "fault_mode_name FAULT_QUEUE_OVERFLOW = ''queue-overflow''"
| "fault_mode_name FAULT_SENSOR_FAILURE = ''sensor-failure''"
| "fault_mode_name FAULT_PROCESS_STALL = ''process-stall''"
| "fault_mode_name FAULT_NONE = ''none''"

subsection \<open>The threads together\<close>

text \<open>
  The object, where its threads are (\<open>Return\<close> before they are created and after they have
  returned), what was printed and what was released. \<open>sim\<close> is \<open>None\<close> once the object is freed.
\<close>

record 'f host_sys =
  sim :: "'f EcuSim option"
  sensor_at :: "'f sensor_thread"
  processor_at :: "'f processor_thread"
  logger_at :: "'f logger_thread"
  watchdog_at :: watchdog_thread
  outs :: "'f out list"
  released :: "ecu_release list"

fun thread_returned :: "TaskId \<Rightarrow> 'f host_sys \<Rightarrow> bool" where
  "thread_returned TASK_SENSOR y = (sensor_at y = ES_Return)"
| "thread_returned TASK_PROCESSOR y = (processor_at y = EP_Return)"
| "thread_returned TASK_LOGGER y = (logger_at y = EL_Return)"
| "thread_returned TASK_WATCHDOG y = (watchdog_at y = EW_Return)"

fun spawn :: "TaskId \<Rightarrow> 'f host_sys \<Rightarrow> 'f host_sys" where
  "spawn TASK_SENSOR y = y\<lparr>sensor_at := ES_Start\<rparr>"
| "spawn TASK_PROCESSOR y = y\<lparr>processor_at := EP_Start\<rparr>"
| "spawn TASK_LOGGER y = y\<lparr>logger_at := EL_Start\<rparr>"
| "spawn TASK_WATCHDOG y = y\<lparr>watchdog_at := EW_Start\<rparr>"

text \<open>One step of a thread; \<open>None\<close> where it has returned or sleeps, or where the object is gone.\<close>

definition thread_step :: "'f host \<Rightarrow> TaskId \<Rightarrow> timespec \<Rightarrow> bool \<Rightarrow> 'f host_sys \<Rightarrow> 'f host_sys option" where
  "thread_step K task now expired y =
     (case sim y of
        None \<Rightarrow> None
      | Some s \<Rightarrow>
          (case task of
             TASK_SENSOR \<Rightarrow>
               map_option (\<lambda>(at, s, out). y\<lparr>sim := Some s, sensor_at := at, outs := outs y @ out\<rparr>)
                 (prvSensorThread K now (sensor_at y) s)
           | TASK_PROCESSOR \<Rightarrow>
               map_option (\<lambda>(at, s, out). y\<lparr>sim := Some s, processor_at := at, outs := outs y @ out\<rparr>)
                 (prvProcessorThread K now expired (processor_at y) s)
           | TASK_LOGGER \<Rightarrow>
               map_option (\<lambda>(at, s, out). y\<lparr>sim := Some s, logger_at := at, outs := outs y @ out\<rparr>)
                 (prvLoggerThread K now expired (logger_at y) s)
           | TASK_WATCHDOG \<Rightarrow>
               map_option (\<lambda>(at, s, out). y\<lparr>sim := Some s, watchdog_at := at, outs := outs y @ out\<rparr>)
                 (prvWatchdogThread now (watchdog_at y) s)))"

text \<open>One action of a caller; \<open>None\<close> where a join has to wait, or where the object is gone.\<close>

definition do_ecu_action :: "'f host \<Rightarrow> ecu_action \<Rightarrow> 'f host_sys \<Rightarrow> 'f host_sys option" where
  "do_ecu_action K a y =
     (case sim y of
        None \<Rightarrow> None
      | Some s \<Rightarrow>
          (case a of
             A_Stop_requested b \<Rightarrow> Some (y\<lparr>sim := Some (s\<lparr>stop_requested := b\<rparr>)\<rparr>)
           | A_Running b \<Rightarrow> Some (y\<lparr>sim := Some (s\<lparr>running := b\<rparr>)\<rparr>)
           | A_Started b \<Rightarrow> Some (y\<lparr>sim := Some (s\<lparr>started := b\<rparr>)\<rparr>)
           | A_Spawn task \<Rightarrow> Some (spawn task y)
           | A_Join task \<Rightarrow> (if thread_returned task y then Some y else None)
           | A_Clear_sensor_queue \<Rightarrow>
               Some (y\<lparr>sim := Some (s\<lparr>sensor_queue := fst (queue_clear (sensor_queue s))\<rparr>)\<rparr>)
           | A_Clear_telemetry_queue \<Rightarrow>
               Some (y\<lparr>sim := Some (s\<lparr>telemetry_queue := fst (queue_clear (telemetry_queue s))\<rparr>)\<rparr>)
           | A_Init_snapshot \<Rightarrow>
               Some (y\<lparr>sim := Some ((prvInitSnapshot K s)\<lparr>sim_sequence := 0, sim_speed_kmh := fp_lit K 0 1\<rparr>)\<rparr>)
           | A_Clear_beats \<Rightarrow> Some (y\<lparr>sim := Some (prvClearBeats s)\<rparr>)
           | A_Set_fault mode \<Rightarrow>
               Some (y\<lparr>sim := Some (s\<lparr>sim_fault_mode := mode,
                  snapshot := (snapshot s)\<lparr>sn_fault_mode := mode\<rparr>\<rparr>)\<rparr>)
           | A_Release \<Rightarrow> Some (y\<lparr>sim := None, released := released y @ ecu_release_all s\<rparr>)))"

end
