(* ===== verification/HostMain.thy ===== *)
theory HostMain
  imports EcuSim
begin

text \<open>
  The command line of the host build, \<open>src/src/host_main.c\<close>, and the whole host program: the main
  thread beside the four threads of \<open>EcuSim\<close>. The main thread is the list of the actions it still has
  to do; a call of the simulator's interface is replaced by the actions it makes when its turn
  comes, and reading a line by the actions of the command. The standard input is the string of the
  characters still to be read. A C string is the list of its characters before the NUL.
\<close>

abbreviation LF :: char where "LF \<equiv> CHR 0x0A"
abbreviation CR :: char where "CR \<equiv> CHR 0x0D"

subsection \<open>Lines\<close>

text \<open>\<open>fgets\<close> with room for \<open>Suc n\<close> characters: at most \<open>n\<close>, through the first newline.\<close>

fun fgets_chars :: "nat \<Rightarrow> string \<Rightarrow> string \<times> string" where
  "fgets_chars 0 inp = ([], inp)"
| "fgets_chars (Suc n) [] = ([], [])"
| "fgets_chars (Suc n) (c # inp) =
     (if c = LF then ([c], inp) else apfst ((#) c) (fgets_chars n inp))"

definition fgets :: "nat \<Rightarrow> string \<Rightarrow> (string \<times> string) option" where
  "fgets n inp = (if inp = [] then None else Some (fgets_chars (n - 1) inp))"

text \<open>The loop overwrites the line ends at the end of the string by NULs, from the last character.\<close>

fun trim_loop :: "string \<Rightarrow> nat \<Rightarrow> string" where
  "trim_loop s 0 = []"
| "trim_loop s (Suc len) = (if s ! len = LF \<or> s ! len = CR then trim_loop s len else take (Suc len) s)"

definition trim_newline :: "string \<Rightarrow> string" where
  "trim_newline s = trim_loop s (length s)"

definition tolower :: "char \<Rightarrow> char" where
  "tolower c = (let n = of_char c :: nat in if 65 \<le> n \<and> n \<le> 90 then char_of (n + 32) else c)"

fun lowercase :: "string \<Rightarrow> string" where
  "lowercase [] = []"
| "lowercase (c # s) = tolower c # lowercase s"

subsection \<open>Printing\<close>

definition quoted :: "string \<Rightarrow> string" where
  "quoted s = [CHR 0x27] @ s @ [CHR 0x27]"

definition print_help :: "'f out list" where
  "print_help = map Puts
     [''Commands:'',
      ''  status           show counters and latest values'',
      ''  tasks            show task heartbeat health'',
      ''  heap             show simulated memory footprint'',
      ''  stats            show queue depths and frame counts'',
      ''  fault none       clear injected faults'',
      ''  fault overflow   stress the sensor queue'',
      ''  fault sensor     inject bad sensor readings'',
      ''  fault process    slow the processing path'',
      ''  reset            clear counters and queues'',
      ''  help             show this help'',
      ''  quit             exit cleanly'']"

definition line_of :: "string \<Rightarrow> 'f c_arg list \<Rightarrow> 'f out" where
  "line_of fmt args = Printf (fmt @ [LF]) args"

definition print_status :: "'f EcuSnapshot \<Rightarrow> 'f out list" where
  "print_status n =
     [line_of ''Fault mode       : %s'' [C_string (fault_mode_name (sn_fault_mode n))],
      line_of ''Sensor samples   : %llu'' [C_ull (sn_sensor_samples n)],
      line_of ''Telemetry frames : %llu'' [C_ull (sn_telemetry_frames n)],
      line_of ''Sensor drops     : %llu'' [C_ull (sn_sensor_drops n)],
      line_of ''Telemetry drops  : %llu'' [C_ull (sn_telemetry_drops n)],
      line_of ''Watchdog warnings: %llu'' [C_ull (sn_watchdog_warnings n)],
      line_of ''Latest temp      : %.1f C'' [C_double (sn_temperature_c n)],
      line_of ''Latest accel     : x=%.2f y=%.2f z=%.2f g''
        [C_double (sn_accel_x n), C_double (sn_accel_y n), C_double (sn_accel_z n)],
      line_of ''Latest speed     : %.1f km/h'' [C_double (sn_speed_kmh n)],
      line_of ''Latest rpm       : %.0f'' [C_double (sn_rpm n)],
      line_of ''Latest throttle  : %.1f %%'' [C_double (sn_throttle_pct n)]]"

definition print_tasks :: "'f EcuSnapshot \<Rightarrow> 'f out list" where
  "print_tasks n =
     [line_of ''sensor beats   : %llu'' [C_ull (sn_sensor_beats n)],
      line_of ''processor beats: %llu'' [C_ull (sn_processor_beats n)],
      line_of ''logger beats   : %llu'' [C_ull (sn_logger_beats n)],
      line_of ''watchdog beats : %llu'' [C_ull (sn_watchdog_beats n)],
      line_of ''watchdog alerts: %llu'' [C_ull (sn_watchdog_warnings n)]]"

definition print_heap :: "'f host \<Rightarrow> 'f EcuSnapshot \<Rightarrow> 'f out list" where
  "print_heap K n =
     (let footprint = sizeof_snapshot K + 24 * sizeof_sample K + 24 * sizeof_frame K
      in [line_of ''Simulated static footprint: about %zu bytes'' [C_size footprint],
          line_of ''Current queues: sensor=%zu telemetry=%zu''
            [C_size (sn_sensor_queue_depth n), C_size (sn_telemetry_queue_depth n)],
          line_of ''Queue footprint is fixed in this build; no dynamic heap growth.'' []])"

definition print_stats :: "'f EcuSnapshot \<Rightarrow> 'f out list" where
  "print_stats n =
     [line_of ''Sensor queue depth   : %zu'' [C_size (sn_sensor_queue_depth n)],
      line_of ''Telemetry queue depth: %zu'' [C_size (sn_telemetry_queue_depth n)],
      line_of ''Frames in            : %llu'' [C_ull (sn_sensor_samples n)],
      line_of ''Frames out           : %llu'' [C_ull (sn_telemetry_frames n)]]"

definition parse_fault :: "string \<Rightarrow> HostFaultMode" where
  "parse_fault v =
     (if v = ''overflow'' then FAULT_QUEUE_OVERFLOW
      else if v = ''sensor'' then FAULT_SENSOR_FAILURE
      else if v = ''process'' then FAULT_PROCESS_STALL
      else FAULT_NONE)"

subsection \<open>The main thread\<close>

datatype view_kind = Status | Tasks | Heap | Stats

datatype ecu_call = C_start | C_stop | C_reset | C_set_fault HostFaultMode | C_destroy

datatype 'f main_action =
    M_Call ecu_call
  | M_Do ecu_action
  | M_Show view_kind
  | M_Out "'f out"
  | M_Read
  | M_Return int

fun call_actions :: "ecu_call \<Rightarrow> 'f EcuSim option \<Rightarrow> ecu_action list" where
  "call_actions C_start s = ecu_start s"
| "call_actions C_stop s = ecu_stop s"
| "call_actions C_reset s = ecu_reset s"
| "call_actions (C_set_fault mode) s = ecu_set_fault s mode"
| "call_actions C_destroy s = ecu_destroy s"

fun show_view :: "'f host \<Rightarrow> view_kind \<Rightarrow> 'f EcuSnapshot \<Rightarrow> 'f out list" where
  "show_view K Status n = print_status n"
| "show_view K Tasks n = print_tasks n"
| "show_view K Heap n = print_heap K n"
| "show_view K Stats n = print_stats n"

text \<open>From the prompt on, and from the end of the loop on.\<close>

definition main_loop :: "'f main_action list" where
  "main_loop = [M_Out (Fputs ''ecu> ''), M_Read]"

definition main_shutdown :: "'f main_action list" where
  "main_shutdown = [M_Out (Puts ''Shutting down...''), M_Call C_stop, M_Call C_destroy, M_Return 0]"

text \<open>The dispatch on a line that was trimmed and put in lower case.\<close>

definition main_command :: "string \<Rightarrow> 'f main_action list" where
  "main_command line =
     (if line = [] then main_loop
      else if line = ''quit'' \<or> line = ''exit'' then main_shutdown
      else if line = ''help'' then map M_Out print_help @ main_loop
      else if line = ''status'' then M_Show Status # main_loop
      else if line = ''tasks'' then M_Show Tasks # main_loop
      else if line = ''heap'' then M_Show Heap # main_loop
      else if line = ''stats'' then M_Show Stats # main_loop
      else if line = ''reset'' then M_Call C_reset # M_Out (Puts ''State reset.'') # main_loop
      else if take 6 line = ''fault '' then
        (let mode = parse_fault (drop 6 line)
         in M_Call (C_set_fault mode)
              # M_Out (line_of ''Fault mode set to %s.'' [C_string (fault_mode_name mode)]) # main_loop)
      else M_Out (Puts (''Unknown command. Type '' @ quoted ''help'' @ '' for options.'')) # main_loop)"

text \<open>What the main thread does with a line as \<open>fgets\<close> leaves it in the buffer.\<close>

definition main_line :: "string \<Rightarrow> 'f main_action list" where
  "main_line buf = main_command (lowercase (trim_newline (takeWhile (\<lambda>c. c \<noteq> CHR 0x00) buf)))"

text \<open>
  The program. \<open>performed\<close> lists the actions of the simulator's interface that the main thread has
  done, for stating properties; nothing reads it.
\<close>

record 'f program =
  sys :: "'f host_sys"
  stdin :: string
  todo :: "'f main_action list"
  performed :: "ecu_action list"
  returned :: "int option"

definition main_step :: "'f host \<Rightarrow> 'f program \<Rightarrow> 'f program option" where
  "main_step K p =
     (case todo p of
        [] \<Rightarrow> None
      | a # rest \<Rightarrow>
          (case a of
             M_Call c \<Rightarrow> Some (p\<lparr>todo := map M_Do (call_actions c (sim (sys p))) @ rest\<rparr>)
           | M_Do e \<Rightarrow>
               map_option (\<lambda>y. p\<lparr>sys := y, todo := rest, performed := performed p @ [e]\<rparr>)
                 (do_ecu_action K e (sys p))
           | M_Show w \<Rightarrow>
               map_option (\<lambda>n. p\<lparr>todo := map M_Out (show_view K w n) @ rest\<rparr>) (ecu_snapshot (sim (sys p)))
           | M_Out x \<Rightarrow> Some (p\<lparr>sys := (sys p)\<lparr>outs := outs (sys p) @ [x]\<rparr>, todo := rest\<rparr>)
           | M_Read \<Rightarrow>
               Some (case fgets 256 (stdin p) of
                       None \<Rightarrow> p\<lparr>todo := main_shutdown\<rparr>
                     | Some (line, inp) \<Rightarrow> p\<lparr>todo := main_line line, stdin := inp\<rparr>)
           | M_Return r \<Rightarrow> Some (p\<lparr>todo := rest, returned := Some r\<rparr>)))"

definition host_main :: "'f host \<Rightarrow> ecu_env \<Rightarrow> string \<Rightarrow> 'f program" where
  "host_main K env inp =
     (let (s, rel) = ecu_create K env
      in \<lparr>sys = \<lparr>sim = s, sensor_at = ES_Return, processor_at = EP_Return, logger_at = EL_Return,
                 watchdog_at = EW_Return, outs = [], released = rel\<rparr>,
          stdin = inp,
          todo = (case s of
                    None \<Rightarrow> [M_Out (Eprintf (''Failed to create ECU simulator.'' @ [LF])), M_Return 1]
                  | Some s \<Rightarrow> [M_Call C_start, M_Out (Puts ''Real-Time Vehicle Telemetry ECU Simulator''),
                               M_Out (Puts (''Type '' @ quoted ''help'' @ '' for commands.''))] @ main_loop),
          performed = [], returned = None\<rparr>)"

text \<open>Who goes next; once \<open>main\<close> has returned the process is gone.\<close>

datatype turn = Main | Thread TaskId timespec bool

fun host_step :: "'f host \<Rightarrow> turn \<Rightarrow> 'f program \<Rightarrow> 'f program option" where
  "host_step K Main p = (if returned p = None then main_step K p else None)"
| "host_step K (Thread task now expired) p =
     (if returned p = None then map_option (\<lambda>y. p\<lparr>sys := y\<rparr>) (thread_step K task now expired (sys p))
      else None)"

fun host_run :: "'f host \<Rightarrow> turn list \<Rightarrow> 'f program \<Rightarrow> 'f program option" where
  "host_run K [] p = Some p"
| "host_run K (t # ts) p = (case host_step K t p of None \<Rightarrow> None | Some p' \<Rightarrow> host_run K ts p')"

end
