(* ===== verification/EcuPhase.thy ===== *)
theory EcuPhase
  imports HostMain
begin

text \<open>
  The protocol between the main thread and the simulator it drives. The main thread's list of
  actions is checked against phases of the simulator the way a type checker follows a program
  through the states of a resource: it may start only a simulator that is off, join the threads only
  after it has asked them to stop, in order, and release only what is off again. \<open>in_phase\<close> says what
  a phase means for the shared state; the theorem is that no step of the program leaves its phase
  except as the main thread's next action says.
\<close>

subsection \<open>What the simulator's own routines leave alone\<close>

definition same_control :: "'f EcuSim \<Rightarrow> 'f EcuSim \<Rightarrow> bool" where
  "same_control s t \<longleftrightarrow> stop_requested t = stop_requested s \<and> running t = running s
     \<and> started t = started s \<and> sim_fault_mode t = sim_fault_mode s"

named_theorems ecu_routines \<open>the routines that update the snapshot or the heartbeat table\<close>

lemmas [ecu_routines] = prvBeat_def prvUpdateFromSample_def prvUpdateFromFrame_def
  host_prvIncrementDrop_def prvClearBeats_def prvInitSnapshot_def with_depths_def Let_def

lemma same_control_refl [simp]: "same_control s s"
  by (simp add: same_control_def)

lemma routines_control [simp]:
  "same_control s (prvBeat ts task s)" "same_control s (prvUpdateFromSample x s)"
  "same_control s (prvUpdateFromFrame f s)" "same_control s (host_prvIncrementDrop b s)"
  "same_control s (prvClearBeats s)" "same_control s (prvInitSnapshot K s)"
  "same_control s (s\<lparr>sensor_queue := q\<rparr>)" "same_control s (s\<lparr>telemetry_queue := q\<rparr>)"
  "same_control s (s\<lparr>sim_sequence := n\<rparr>)" "same_control s (s\<lparr>snapshot := sn\<rparr>)"
  by (simp_all add: same_control_def ecu_routines)

lemma sensor_control: "prvSensorThread K now at s = Some (at', s', out) \<Longrightarrow> same_control s s'"
  by (cases at) (auto simp: Let_def split: prod.splits)

lemma processor_control: "prvProcessorThread K now e at s = Some (at', s', out) \<Longrightarrow> same_control s s'"
  by (cases at) (auto simp: processor_pop_def Let_def split: prod.splits option.splits pop_result.splits)

lemma logger_control: "prvLoggerThread K now e at s = Some (at', s', out) \<Longrightarrow> same_control s s'"
  by (cases at) (auto simp: logger_pop_def Let_def split: prod.splits option.splits pop_result.splits)

lemma warn_control: "prvWarnIfOverdue now at s = Some (at', s', out) \<Longrightarrow> same_control s s'"
  by (cases "(now, at, s)" rule: prvWarnIfOverdue.cases) (auto simp: Let_def)

lemma watchdog_control: "prvWatchdogThread now at s = Some (at', s', out) \<Longrightarrow> same_control s s'"
  by (cases at) (auto dest: warn_control)

text \<open>A step of a thread moves that thread and the shared state and nothing else.\<close>

lemma thread_step_frame:
  assumes "thread_step K task now e y = Some y'"
  obtains s s' where "sim y = Some s" and "sim y' = Some s'" and "same_control s s'"
    and "released y' = released y" and "\<not> thread_returned task y"
    and "\<And>t. t \<noteq> task \<Longrightarrow> thread_returned t y' = thread_returned t y"
proof -
  from assms obtain s where s: "sim y = Some s"
    by (cases "sim y") (auto simp: thread_step_def)
  have "\<exists>s'. sim y' = Some s' \<and> same_control s s' \<and> released y' = released y
      \<and> \<not> thread_returned task y \<and> (\<forall>t. t \<noteq> task \<longrightarrow> thread_returned t y' = thread_returned t y)"
  proof (cases task)
    case TASK_SENSOR
    with assms s show ?thesis
      by (auto simp: thread_step_def dest: sensor_control elim!: thread_returned.elims)
  next
    case TASK_PROCESSOR
    with assms s show ?thesis
      by (auto simp: thread_step_def dest: processor_control elim!: thread_returned.elims)
  next
    case TASK_LOGGER
    with assms s show ?thesis
      by (auto simp: thread_step_def dest: logger_control elim!: thread_returned.elims)
  next
    case TASK_WATCHDOG
    with assms s show ?thesis
      by (auto simp: thread_step_def dest: watchdog_control elim!: thread_returned.elims)
  qed
  with s that show thesis by blast
qed

subsection \<open>Phases\<close>

text \<open>
  \<open>Starting i\<close> and \<open>Stopping i\<close> count the actions done: three stores and the creation of the
  threads, or the joins and the store of \<open>started\<close>.
\<close>

datatype phase = Off | Starting nat | On | Stopping nat | Gone | Done

fun task_index :: "TaskId \<Rightarrow> nat" where
  "task_index TASK_SENSOR = 0"
| "task_index TASK_PROCESSOR = 1"
| "task_index TASK_LOGGER = 2"
| "task_index TASK_WATCHDOG = 3"

definition do_phase :: "phase \<Rightarrow> ecu_action \<Rightarrow> phase option" where
  "do_phase ph e =
     (case e of
        A_Stop_requested b \<Rightarrow>
          if \<not> b \<and> ph = Off then Some (Starting 1) else if b \<and> ph = On then Some (Stopping 0) else None
      | A_Running b \<Rightarrow>
          if b \<and> ph = Starting 1 then Some (Starting 2) else if \<not> b \<and> ph = Stopping 5 then Some Off else None
      | A_Started b \<Rightarrow>
          if b \<and> ph = Starting 2 then Some (Starting 3)
          else if \<not> b \<and> ph = Stopping 4 then Some (Stopping 5) else None
      | A_Spawn t \<Rightarrow>
          if ph = Starting (3 + task_index t)
          then Some (if t = TASK_WATCHDOG then On else Starting (4 + task_index t)) else None
      | A_Join t \<Rightarrow> if ph = Stopping (task_index t) then Some (Stopping (Suc (task_index t))) else None
      | A_Clear_sensor_queue \<Rightarrow> if ph = On \<or> ph = Stopping 0 then Some ph else None
      | A_Clear_telemetry_queue \<Rightarrow> if ph = On \<or> ph = Stopping 0 then Some ph else None
      | A_Init_snapshot \<Rightarrow> if ph = On then Some On else None
      | A_Clear_beats \<Rightarrow> if ph = On then Some On else None
      | A_Set_fault mode \<Rightarrow> if ph = On then Some On else None
      | A_Release \<Rightarrow> if ph = Off then Some Gone else None)"

definition call_phase :: "phase \<Rightarrow> ecu_call \<Rightarrow> phase option" where
  "call_phase ph c =
     (case c of
        C_start \<Rightarrow> if ph = Off then Some On else None
      | C_stop \<Rightarrow> if ph = On then Some Off else None
      | C_reset \<Rightarrow> if ph = On then Some On else None
      | C_set_fault mode \<Rightarrow> if ph = On then Some On else None
      | C_destroy \<Rightarrow> if ph = Off then Some Gone else None)"

definition next_phase :: "phase \<Rightarrow> 'f main_action \<Rightarrow> phase option" where
  "next_phase ph a =
     (case a of
        M_Call c \<Rightarrow> call_phase ph c
      | M_Do e \<Rightarrow> do_phase ph e
      | M_Show w \<Rightarrow> if ph = On then Some On else None
      | M_Out x \<Rightarrow> if ph = Done then None else Some ph
      | M_Read \<Rightarrow> None
      | M_Return r \<Rightarrow> if ph = Gone then Some Done else None)"

text \<open>A list of actions fits a phase: it leads to \<open>Done\<close>, or to the next line of input.\<close>

fun fits :: "phase \<Rightarrow> 'f main_action list \<Rightarrow> bool" where
  "fits ph [] = (ph = Done)"
| "fits ph (a # rest) =
     (if a = M_Read then ph = On \<and> rest = []
      else case next_phase ph a of None \<Rightarrow> False | Some ph' \<Rightarrow> fits ph' rest)"

text \<open>What holds of the shared state in a phase.\<close>

fun in_phase :: "phase \<Rightarrow> 'f host_sys \<Rightarrow> bool" where
  "in_phase Off y = (\<exists>s. sim y = Some s \<and> \<not> started s \<and> \<not> running s \<and> (\<forall>t. thread_returned t y))"
| "in_phase (Starting i) y =
     (\<exists>s. sim y = Some s \<and> \<not> stop_requested s \<and> (running s \<longleftrightarrow> 2 \<le> i) \<and> (started s \<longleftrightarrow> 3 \<le> i)
        \<and> 1 \<le> i \<and> (\<forall>t. i \<le> 3 + task_index t \<longrightarrow> thread_returned t y))"
| "in_phase On y = (\<exists>s. sim y = Some s \<and> \<not> stop_requested s \<and> running s \<and> started s)"
| "in_phase (Stopping i) y =
     (\<exists>s. sim y = Some s \<and> stop_requested s \<and> running s \<and> (started s \<longleftrightarrow> i \<le> 4)
        \<and> (\<forall>t. task_index t < i \<longrightarrow> thread_returned t y))"
| "in_phase Gone y = (sim y = None \<and> (\<forall>t. thread_returned t y))"
| "in_phase Done y = (sim y = None \<and> (\<forall>t. thread_returned t y))"

subsection \<open>Steps of the threads\<close>

lemma thread_step_returned:
  assumes "thread_step K task now e y = Some y'" and "thread_returned t y"
  shows "thread_returned t y'"
  using thread_step_frame [OF assms(1)] assms(2) by metis

lemma thread_keeps_phase:
  assumes "thread_step K task now e y = Some y'" and "in_phase ph y"
  shows "in_phase ph y'"
proof -
  note r = thread_step_returned [OF assms(1)]
  from assms(1) obtain s s' where s: "sim y = Some s" "sim y' = Some s'" "same_control s s'"
    by (rule thread_step_frame)
  show ?thesis
    using assms(2) s r by (cases ph) (auto simp: same_control_def)
qed

subsection \<open>Steps of the main thread\<close>

lemma fits_append_out [simp]: "ph \<noteq> Done \<Longrightarrow> fits ph (map M_Out xs @ rest) = fits ph rest"
  by (induction xs) (simp_all add: next_phase_def)

lemma fits_main_loop [simp]: "fits On main_loop"
  by (simp add: main_loop_def next_phase_def)

lemma fits_main_shutdown [simp]: "fits On main_shutdown"
  by (simp add: main_shutdown_def next_phase_def call_phase_def)

lemma fits_main_command: "fits On (main_command line)"
  by (simp add: main_command_def next_phase_def call_phase_def Let_def)

text \<open>A call of the interface is replaced by actions that lead to the phase that the call promises.\<close>

lemma fits_call:
  assumes "call_phase ph c = Some ph'" and "in_phase ph y" and "fits ph' rest"
  shows "fits ph (map M_Do (call_actions c (sim y)) @ rest)"
  using assms
  by (cases c; cases ph)
    (auto simp: call_phase_def next_phase_def do_phase_def ecu_start_def ecu_stop_def ecu_destroy_def
      ecu_reset_def ecu_set_fault_def split: if_splits)

lemma thread_returned_sim [simp]: "thread_returned t (y\<lparr>sim := s\<rparr>) = thread_returned t y"
  "thread_returned t (y\<lparr>outs := os\<rparr>) = thread_returned t y"
  "thread_returned t (y\<lparr>released := rs\<rparr>) = thread_returned t y"
  by (cases t; simp)+

lemma thread_returned_spawn: "t \<noteq> u \<Longrightarrow> thread_returned t (spawn u y) = thread_returned t y"
  by (cases t; cases u; simp)

lemma sim_spawn [simp]: "sim (spawn t y) = sim y"
  by (cases t) simp_all

lemma task_index_inject: "task_index t = task_index u \<longleftrightarrow> t = u"
  by (cases t; cases u; simp)

lemma all_task: "(\<forall>t. P t) \<longleftrightarrow> P TASK_SENSOR \<and> P TASK_PROCESSOR \<and> P TASK_LOGGER \<and> P TASK_WATCHDOG"
  by (metis TaskId.exhaust)

lemma task_index_le: "task_index t \<le> 3"
  by (cases t) simp_all

lemma task_index_less [simp]: "task_index t < 4" "task_index t < 5"
  using task_index_le [of t] by simp_all

lemma spawn_keeps_phase:
  assumes "in_phase (Starting (3 + task_index t)) y"
  shows "in_phase (if t = TASK_WATCHDOG then On else Starting (4 + task_index t)) (spawn t y)"
  using assms by (cases t) (auto simp: task_index_inject all_task split: if_splits)

lemma join_keeps_phase:
  assumes "in_phase (Stopping (task_index t)) y" and "thread_returned t y"
  shows "in_phase (Stopping (Suc (task_index t))) y"
  using assms task_index_le [of t] by (auto simp: less_Suc_eq task_index_inject)

lemma action_keeps_phase:
  assumes "do_phase ph e = Some ph'" and "in_phase ph y" and "do_ecu_action K e y = Some y'"
  shows "in_phase ph' y'"
proof (cases e)
  case (A_Spawn t)
  with assms spawn_keeps_phase [of t y] show ?thesis
    by (auto simp: do_phase_def do_ecu_action_def split: if_splits option.splits)
next
  case (A_Join t)
  with assms join_keeps_phase [of t y] show ?thesis
    by (auto simp: do_phase_def do_ecu_action_def simp del: in_phase.simps split: if_splits option.splits)
qed (use assms in \<open>auto simp: do_phase_def do_ecu_action_def prvInitSnapshot_def prvClearBeats_def
    le_Suc_eq not_le split: if_splits option.splits\<close>)

lemma in_phase_outs [simp]: "in_phase ph (y\<lparr>outs := os\<rparr>) = in_phase ph y"
  by (cases ph) simp_all

lemma fits_step:
  assumes "fits ph (a # rest)" and "a \<noteq> M_Read"
  obtains ph' where "next_phase ph a = Some ph'" and "fits ph' rest"
  using assms by (auto split: option.splits)

lemma main_keeps_phase:
  assumes "main_step K p = Some p'" and "fits ph (todo p)" and "in_phase ph (sys p)"
    and "returned p = None"
  shows "\<exists>ph'. fits ph' (todo p') \<and> in_phase ph' (sys p') \<and> (returned p' = None \<longleftrightarrow> ph' \<noteq> Done)"
proof -
  obtain a rest where t: "todo p = a # rest"
    using assms(1) by (cases "todo p") (auto simp: main_step_def)
  have nd: "ph \<noteq> Done"
    using assms(2) t by (cases a) (auto simp: next_phase_def call_phase_def do_phase_def split: ecu_call.splits ecu_action.splits)
  show ?thesis
  proof (cases "a = M_Read")
    case True
    then have "ph = On" using assms(2) t by simp
    then show ?thesis
      using assms True t by (cases "fgets 256 (stdin p)")
        (auto simp: main_step_def main_line_def fits_main_command intro!: exI [of _ On])
  next
    case False
    then obtain ph' where n: "next_phase ph a = Some ph'" and f: "fits ph' rest"
      using assms(2) t fits_step by metis
    show ?thesis
    proof (cases a)
      case (M_Call c)
      then have "call_phase ph c = Some ph'" using n by (simp add: next_phase_def)
      from fits_call [OF this assms(3) f] show ?thesis
        using assms M_Call t nd by (auto simp: main_step_def intro!: exI [of _ ph])
    next
      case (M_Do e)
      then have d: "do_phase ph e = Some ph'" using n by (simp add: next_phase_def)
      obtain y where y: "do_ecu_action K e (sys p) = Some y"
        and p': "p' = p\<lparr>sys := y, todo := rest, performed := performed p @ [e]\<rparr>"
        using assms(1) M_Do t by (auto simp: main_step_def)
      have "ph' \<noteq> Done" using d by (auto simp: do_phase_def split: ecu_action.splits if_splits)
      with action_keeps_phase [OF d assms(3) y] f assms(4) p' show ?thesis
        by (auto intro!: exI [of _ ph'])
    next
      case (M_Show w)
      then show ?thesis
        using assms t n f by (auto simp: main_step_def next_phase_def split: if_splits intro!: exI [of _ On])
    next
      case (M_Out x)
      then show ?thesis
        using assms t n f by (auto simp: main_step_def next_phase_def split: if_splits intro!: exI [of _ ph'])
    next
      case M_Read
      with False show ?thesis by simp
    next
      case (M_Return r)
      then have "ph = Gone" "ph' = Done" using n by (auto simp: next_phase_def split: if_splits)
      then show ?thesis
        using assms M_Return t f by (auto simp: main_step_def intro!: exI [of _ Done])
    qed
  qed
qed

lemma fits_Done: "fits Done t \<longleftrightarrow> t = []"
  by (cases t) (auto simp: next_phase_def call_phase_def do_phase_def
      split: main_action.splits ecu_call.splits ecu_action.splits option.splits)

subsection \<open>The whole program\<close>

definition program_ok :: "'f program \<Rightarrow> bool" where
  "program_ok p \<longleftrightarrow>
     (\<exists>ph. fits ph (todo p) \<and> in_phase ph (sys p) \<and> (returned p = None \<longleftrightarrow> ph \<noteq> Done))"

lemma host_step_keeps_phase:
  assumes "host_step K t p = Some p'" and "program_ok p"
  shows "program_ok p'"
proof (cases t)
  case Main
  then have "main_step K p = Some p'" and r: "returned p = None"
    using assms(1) by (auto split: if_splits)
  with assms(2) main_keeps_phase [OF this(1)] show ?thesis by (auto simp: program_ok_def)
next
  case (Thread task now e)
  with assms thread_keeps_phase show ?thesis
    by (fastforce simp: program_ok_def split: if_splits)
qed

lemma ecu_create_result:
  assumes "ecu_create K env = (r, rel)"
  shows "case r of None \<Rightarrow> True | Some s \<Rightarrow> \<not> started s \<and> \<not> running s \<and> rel = []"
  using assms
  by (auto simp: ecu_create_def calloc_EcuSim_def prvInitSnapshot_def Let_def
      split: prod.splits if_splits option.splits)

lemma host_main_ok: "program_ok (host_main K env inp)"
proof -
  obtain r rel where c: "ecu_create K env = (r, rel)" by (cases "ecu_create K env")
  show ?thesis
  proof (cases r)
    case None
    with c show ?thesis
      by (auto simp: program_ok_def host_main_def next_phase_def all_task intro!: exI [of _ Gone])
  next
    case (Some s)
    with c ecu_create_result [OF c] show ?thesis
      by (auto simp: program_ok_def host_main_def next_phase_def call_phase_def all_task
          intro!: exI [of _ Off])
  qed
qed

lemma host_run_ok: "host_run K ts p = Some p' \<Longrightarrow> program_ok p \<Longrightarrow> program_ok p'"
  by (induction ts arbitrary: p) (auto split: option.splits dest: host_step_keeps_phase)

end
