(* ===== verification/EcuHost.thy ===== *)
theory EcuHost
  imports EcuSim
begin

text \<open>
  What the host simulator relies on in its parameter: a struct copied into a queue and out again is
  the struct that went in, where its time stamp is one the clock can give. \<open>small_host\<close> is an
  instance, on bytes instead of \<open>double\<close>, that shows that the hypotheses can hold together.
\<close>

subsection \<open>The hypotheses\<close>

definition clock_ok :: "timespec \<Rightarrow> bool" where
  "clock_ok t \<longleftrightarrow> 0 \<le> tv_sec t \<and> tv_sec t < 2 ^ 63 \<and> 0 \<le> tv_nsec t \<and> tv_nsec t < 1000000000"

definition host_ok :: "'f host \<Rightarrow> bool" where
  "host_ok K \<longleftrightarrow> 0 < sizeof_sample K \<and> 0 < sizeof_frame K
     \<and> (\<forall>x. length (sample_bytes K x) = sizeof_sample K)
     \<and> (\<forall>f. length (frame_bytes K f) = sizeof_frame K)
     \<and> (\<forall>x. clock_ok (hs_timestamp x) \<longrightarrow> sample_of K (sample_bytes K x) = x)
     \<and> (\<forall>f. clock_ok (hf_timestamp f) \<longrightarrow> frame_of K (frame_bytes K f) = f)"

subsection \<open>An instance\<close>

fun nat_bytes :: "nat \<Rightarrow> nat \<Rightarrow> u8 list" where
  "nat_bytes 0 n = []"
| "nat_bytes (Suc k) n = of_nat n # nat_bytes k (n div 256)"

fun bytes_nat :: "u8 list \<Rightarrow> nat" where
  "bytes_nat [] = 0"
| "bytes_nat (b # bs) = unat b + 256 * bytes_nat bs"

lemma length_nat_bytes [simp]: "length (nat_bytes k n) = k"
  by (induction k arbitrary: n) simp_all

lemma bytes_nat_bytes: "n < 256 ^ k \<Longrightarrow> bytes_nat (nat_bytes k n) = n"
proof (induction k arbitrary: n)
  case 0
  then show ?case by simp
next
  case (Suc k)
  then have "n div 256 < 256 ^ k" by (simp add: less_mult_imp_div_less mult.commute)
  from Suc.IH [OF this] show ?case by (simp add: unat_of_nat)
qed

definition int_bytes :: "nat \<Rightarrow> int \<Rightarrow> u8 list" where
  "int_bytes k i = nat_bytes k (nat i)"

definition time_bytes :: "timespec \<Rightarrow> u8 list" where
  "time_bytes t = int_bytes 8 (tv_sec t) @ int_bytes 8 (tv_nsec t)"

definition time_of :: "u8 list \<Rightarrow> timespec" where
  "time_of bs = \<lparr>tv_sec = int (bytes_nat (take 8 bs)), tv_nsec = int (bytes_nat (drop 8 bs))\<rparr>"

lemma time_bytes_inverse: "clock_ok t \<Longrightarrow> time_of (time_bytes t) = t"
  by (cases t) (auto simp: clock_ok_def time_of_def time_bytes_def int_bytes_def bytes_nat_bytes nat_less_iff)

lemma length_time_bytes [simp]: "length (time_bytes t) = 16"
  by (simp add: time_bytes_def int_bytes_def)

lemma bytes_of_u64: "of_nat (bytes_nat (nat_bytes 8 (unat w))) = (w :: u64)"
  using unsigned_less [of w, where 'a = nat] by (simp add: bytes_nat_bytes)

lemma bytes_of_i32: "of_nat (bytes_nat (nat_bytes 4 (unat w))) = (w :: i32)"
  using unsigned_less [of w, where 'a = nat] by (simp add: bytes_nat_bytes)

definition small_host :: "u8 host" where
  "small_host =
     \<lparr>fp_lit = \<lambda>m d. word_of_int (m div 10 ^ d), fp_zero = 0, fp_of_u64 = ucast,
      fp_add = (+), fp_mul = (*), fp_div = (div), fp_sin = (\<lambda>x. x), fp_sqrt = (\<lambda>x. x),
      fp_fmin = min, fp_fmax = max,
      sizeof_sample = 33,
      sample_bytes = (\<lambda>s. nat_bytes 8 (unat (hs_sequence s)) @
        [hs_temperature_c s, hs_accel_x s, hs_accel_y s, hs_accel_z s, hs_speed_kmh s] @
        nat_bytes 4 (unat (hs_fault_code s)) @ time_bytes (hs_timestamp s)),
      sample_of = (\<lambda>bs.
        \<lparr>hs_sequence = of_nat (bytes_nat (take 8 bs)), hs_temperature_c = bs ! 8, hs_accel_x = bs ! 9,
         hs_accel_y = bs ! 10, hs_accel_z = bs ! 11, hs_speed_kmh = bs ! 12,
         hs_fault_code = of_nat (bytes_nat (take 4 (drop 13 bs))), hs_timestamp = time_of (drop 17 bs)\<rparr>),
      sizeof_frame = 35,
      frame_bytes = (\<lambda>f. nat_bytes 8 (unat (hf_sequence f)) @
        [hf_temperature_c f, hf_accel_x f, hf_accel_y f, hf_accel_z f, hf_speed_kmh f, hf_rpm f,
         hf_throttle_pct f] @
        nat_bytes 4 (unat (hf_fault_code f)) @ time_bytes (hf_timestamp f)),
      frame_of = (\<lambda>bs.
        \<lparr>hf_sequence = of_nat (bytes_nat (take 8 bs)), hf_temperature_c = bs ! 8, hf_accel_x = bs ! 9,
         hf_accel_y = bs ! 10, hf_accel_z = bs ! 11, hf_speed_kmh = bs ! 12, hf_rpm = bs ! 13,
         hf_throttle_pct = bs ! 14,
         hf_fault_code = of_nat (bytes_nat (take 4 (drop 15 bs))), hf_timestamp = time_of (drop 19 bs)\<rparr>),
      sizeof_snapshot = 152\<rparr>"

lemma small_host_ok: "host_ok small_host"
  by (simp add: host_ok_def small_host_def bytes_of_u64 bytes_of_i32 time_bytes_inverse nth_append)

subsection \<open>Queues of structs\<close>

text \<open>A queue that holds the structs \<open>xs\<close>, oldest first, as their bytes.\<close>

definition holds :: "nat \<Rightarrow> ('a \<Rightarrow> u8 list) \<Rightarrow> MsgQueue option \<Rightarrow> 'a list \<Rightarrow> bool" where
  "holds isz bytes queue xs \<longleftrightarrow> (\<exists>q. queue = Some q \<and> mq_ok isz 24 q \<and> mq_items q = map bytes xs)"

lemma holds_push:
  assumes "holds isz bytes queue xs" and "length (bytes x) = isz"
  obtains b q ev where "queue_push queue (Some (bytes x)) = (b, q, ev)" and "b \<longleftrightarrow> length xs < 24"
    and "holds isz bytes q (if b then xs @ [x] else xs)"
proof -
  from assms(1) obtain q where q: "queue = Some q" "mq_ok isz 24 q" "mq_items q = map bytes xs"
    by (auto simp: holds_def)
  obtain b q' ev where p: "queue_push queue (Some (bytes x)) = (b, Some q', ev)"
    by (simp add: q(1) queue_push_def Let_def split: if_splits) metis
  then have m: "mq_push q (bytes x) = (b, q')" by (simp add: mq_push_def q(1))
  show thesis
  proof (cases b)
    case True
    with mq.push_accepts [OF q(2) assms(2)] m q(3) p that [of b "Some q'" ev] show thesis
      by (auto simp: holds_def dest: arg_cong [where f = length])
  next
    case False
    with mq.push_refuses [OF q(2) assms(2)] m q(3) p that [of b "Some q'" ev] show thesis
      by (auto simp: holds_def dest: arg_cong [where f = length])
  qed
qed

lemma holds_pop:
  assumes "holds isz bytes queue xs"
  obtains q where "queue = Some q" and "pop_attempt t True q = Failed q"
    and "case xs of [] \<Rightarrow> pop_attempt t False q = Blocked
         | x # xs' \<Rightarrow> \<exists>q'. pop_attempt t False q = Got (bytes x) q' \<and> holds isz bytes (Some q') xs'"
proof -
  from assms obtain q where q: "queue = Some q" "mq_ok isz 24 q" "mq_items q = map bytes xs"
    by (auto simp: holds_def)
  have "case xs of [] \<Rightarrow> pop_attempt t False q = Blocked
         | x # xs' \<Rightarrow> \<exists>q'. pop_attempt t False q = Got (bytes x) q' \<and> holds isz bytes (Some q') xs'"
  proof (cases xs)
    case Nil
    then have "q_count q = 0" using q(3) length_mq_items [of q] by simp
    with Nil show ?thesis by (simp add: pop_attempt_def)
  next
    case (Cons x xs')
    then have n: "0 < q_count q" using q(3) length_mq_items [of q] by simp
    from mq_pop_head [OF q(2) n] q(3) Cons n show ?thesis
      by (auto simp: pop_attempt_def holds_def split: prod.splits)
  qed
  with q(1) that [of q] show thesis by (simp add: pop_attempt_def)
qed

lemma holds_clear: "holds isz bytes queue xs \<Longrightarrow> holds isz bytes (fst (queue_clear queue)) []"
  using mq.clear_ok mq.clear_items by (fastforce simp: holds_def queue_clear_def mq_clear_def)

lemma holds_length: "holds isz bytes queue xs \<Longrightarrow> queue_count queue = length xs \<and> length xs \<le> 24"
  using mq.depth_bound [of isz 24] by (force simp: holds_def queue_count_def dest: arg_cong [where f = length])

subsection \<open>A simulator as it is created\<close>

definition ecu_env_ok :: ecu_env where
  "ecu_env_ok = \<lparr>calloc_sim = True, state_mutex_init = 0, log_mutex_init = 0, beat_mutex_init = 0,
     sensor_queue_env = env_ok, telemetry_queue_env = env_ok\<rparr>"

text \<open>Creation succeeds with two empty queues, or with nothing at all.\<close>

lemma ecu_create_cases:
  assumes "ecu_create K env = (Some s, rel)"
  obtains sq tq where "queue_create (sensor_queue_env env) (Some ''sensor'') (sizeof_sample K) 24 = (Some sq, [])"
    and "queue_create (telemetry_queue_env env) (Some ''telemetry'') (sizeof_frame K) 24 = (Some tq, [])"
    and "s = (calloc_EcuSim K)\<lparr>sensor_queue := Some sq, telemetry_queue := Some tq,
            snapshot := zero_snapshot K\<rparr>" and "rel = []"
proof -
  obtain sq sr where sq: "queue_create (sensor_queue_env env) (Some ''sensor'') (sizeof_sample K) 24 = (sq, sr)"
    by fastforce
  obtain tq tr where tq: "queue_create (telemetry_queue_env env) (Some ''telemetry'') (sizeof_frame K) 24 = (tq, tr)"
    by fastforce
  from assms sq tq obtain q1 q2 where q: "sq = Some q1" "tq = Some q2" and rel: "rel = []"
    and s: "s = prvInitSnapshot K ((calloc_EcuSim K)\<lparr>sensor_queue := Some q1, telemetry_queue := Some q2,
        sim_fault_mode := FAULT_NONE\<rparr>)"
    by (auto simp: ecu_create_def Let_def split: if_splits option.splits)
  have n: "q_count q1 = 0" "q_count q2 = 0" "sr = []" "tr = []"
    using queue_create_ok(2,4) [OF sq [unfolded q]] queue_create_ok(2,4) [OF tq [unfolded q]]
      length_mq_items [of q1] length_mq_items [of q2] by simp_all
  have "with_depths t (zero_snapshot K) = zero_snapshot K"
    if "queue_count (sensor_queue t) = 0" "queue_count (telemetry_queue t) = 0" for t :: "'a EcuSim"
    using that by (simp add: with_depths_def zero_snapshot_def)
  with n have "s = (calloc_EcuSim K)\<lparr>sensor_queue := Some q1, telemetry_queue := Some q2,
      snapshot := zero_snapshot K\<rparr>"
    by (simp add: s prvInitSnapshot_def calloc_EcuSim_def queue_count_def with_depths_def zero_snapshot_def)
  with sq tq q n rel that show thesis by simp
qed

lemma small_create: "\<exists>s. ecu_create small_host ecu_env_ok = (Some s, [])"
  by (simp add: ecu_create_def ecu_env_ok_def queue_create_def env_ok_def small_host_def Let_def)

end
