(* ===== verification/EcuStop.thy ===== *)
theory EcuStop
  imports EcuPhase EcuHost
begin

text \<open>
  Termination of the host program. Once a stop is requested every thread has a bounded number of steps
  left (\<open>host_sensor_work\<close> and its siblings count them at each program point), a waiting thread included,
  because its wait times out. The main thread's own steps are bounded by what it has to do and by the
  characters of its input (\<open>main_work\<close>), whatever the threads do in between.
\<close>

subsection \<open>Steps left to a thread after a stop request\<close>

fun host_sensor_work :: "'f sensor_thread \<Rightarrow> nat" where
  "host_sensor_work ES_Return = 0"
| "host_sensor_work ES_While = 1"
| "host_sensor_work ES_Start = 2"
| "host_sensor_work (ES_Sleep ms) = 2"
| "host_sensor_work (ES_Beat ms) = 3"
| "host_sensor_work (ES_For i) = 4"
| "host_sensor_work (ES_Drop b) = 5"
| "host_sensor_work (ES_Update b x) = 5"
| "host_sensor_work (ES_Push b x) = 6"
| "host_sensor_work (ES_Make b n) = 7"
| "host_sensor_work (ES_Sequence b) = 8"
| "host_sensor_work (ES_Inject m) = 9"
| "host_sensor_work ES_Mode = 10"

fun host_processor_work :: "'f processor_thread \<Rightarrow> nat" where
  "host_processor_work EP_Return = 0"
| "host_processor_work EP_While = 1"
| "host_processor_work EP_Start = 2"
| "host_processor_work EP_Missed = 2"
| "host_processor_work EP_Beat = 2"
| "host_processor_work EP_Drop = 3"
| "host_processor_work (EP_Update f) = 3"
| "host_processor_work (EP_Push f) = 4"
| "host_processor_work (EP_Process x) = 5"
| "host_processor_work (EP_Sleep x) = 6"
| "host_processor_work (EP_Log x) = 7"
| "host_processor_work (EP_Fault x) = 8"
| "host_processor_work EP_Wait = 9"
| "host_processor_work EP_Pop = 10"

fun host_logger_work :: "'f logger_thread \<Rightarrow> nat" where
  "host_logger_work EL_Return = 0"
| "host_logger_work EL_While = 1"
| "host_logger_work EL_Start = 2"
| "host_logger_work EL_Missed = 2"
| "host_logger_work EL_Beat = 2"
| "host_logger_work (EL_Print f) = 3"
| "host_logger_work EL_Wait = 4"
| "host_logger_work EL_Pop = 5"

fun watchdog_work :: "watchdog_thread \<Rightarrow> nat" where
  "watchdog_work EW_Return = 0"
| "watchdog_work EW_While = 1"
| "watchdog_work EW_Start = 2"
| "watchdog_work EW_Sleep = 2"
| "watchdog_work EW_Beat = 3"
| "watchdog_work (EW_Look ws) = 4 * length ws + 3"
| "watchdog_work (EW_Age ws beat) = 4 * length ws + 2"
| "watchdog_work (EW_Count ws age) = 4 * length ws + 1"
| "watchdog_work (EW_Log ws age) = 4 * length ws"

definition threads_work :: "'f host_sys \<Rightarrow> nat" where
  "threads_work y = host_sensor_work (sensor_at y) + host_processor_work (processor_at y)
     + host_logger_work (logger_at y) + watchdog_work (watchdog_at y)"

lemma watchdog_next_work [simp]:
  "4 * length ws + 3 < n \<Longrightarrow> watchdog_work (next_watch ws) < n"
  by (cases ws) (simp_all add: next_watch_def)

lemma after_sample_work [simp]: "host_sensor_work (after_sample b :: 'f sensor_thread) < 5"
  by (cases b) simp_all

lemma sensor_work_step:
  "prvSensorThread K now at s = Some (at', s', out) \<Longrightarrow> stop_requested s \<Longrightarrow> host_sensor_work at' < host_sensor_work at"
  by (cases at) (auto simp: Let_def split: prod.splits)

lemma processor_work_step:
  "prvProcessorThread K now e at s = Some (at', s', out) \<Longrightarrow> stop_requested s
    \<Longrightarrow> host_processor_work at' < host_processor_work at"
  by (cases at) (auto simp: processor_pop_def Let_def split: prod.splits option.splits pop_result.splits)

lemma logger_work_step:
  "prvLoggerThread K now e at s = Some (at', s', out) \<Longrightarrow> stop_requested s
    \<Longrightarrow> host_logger_work at' < host_logger_work at"
  by (cases at) (auto simp: logger_pop_def Let_def split: prod.splits option.splits pop_result.splits)

lemma warn_work_step:
  "prvWarnIfOverdue now at s = Some (at', s', out) \<Longrightarrow> watchdog_work at' < watchdog_work at"
  by (cases "(now, at, s)" rule: prvWarnIfOverdue.cases) (auto simp: Let_def)

lemma watchdog_work_step:
  "prvWatchdogThread now at s = Some (at', s', out) \<Longrightarrow> stop_requested s
    \<Longrightarrow> watchdog_work at' < watchdog_work at"
  by (cases at) (auto simp: watch_list_def dest: warn_work_step)

definition stopping :: "'f host_sys \<Rightarrow> bool" where
  "stopping y \<longleftrightarrow> (\<exists>s. sim y = Some s \<and> stop_requested s)"

lemma threads_work_step:
  assumes "thread_step K task now e y = Some y'" and "stopping y"
  shows "threads_work y' < threads_work y" and "stopping y'"
proof -
  note d = thread_step_def stopping_def threads_work_def
  show "threads_work y' < threads_work y"
  proof (cases task)
    case TASK_SENSOR
    with assms show ?thesis by (clarsimp simp: d) (rule sensor_work_step)
  next
    case TASK_PROCESSOR
    with assms show ?thesis by (clarsimp simp: d) (rule processor_work_step)
  next
    case TASK_LOGGER
    with assms show ?thesis by (clarsimp simp: d) (rule logger_work_step)
  next
    case TASK_WATCHDOG
    with assms show ?thesis by (clarsimp simp: d) (rule watchdog_work_step)
  qed
  from assms(1) obtain s s' where "sim y = Some s" "sim y' = Some s'" "same_control s s'"
    by (rule thread_step_frame)
  with assms(2) show "stopping y'" by (simp add: stopping_def same_control_def)
qed

subsection \<open>No thread is stuck\<close>

text \<open>The watchdog's list of checks is never empty inside a check, and never longer than the table.\<close>

fun watch_ok :: "watchdog_thread \<Rightarrow> bool" where
  "watch_ok (EW_Look ws) = (ws \<noteq> [] \<and> length ws \<le> 3)"
| "watch_ok (EW_Age ws beat) = (ws \<noteq> [] \<and> length ws \<le> 3)"
| "watch_ok (EW_Count ws age) = (ws \<noteq> [] \<and> length ws \<le> 3)"
| "watch_ok (EW_Log ws age) = (ws \<noteq> [] \<and> length ws \<le> 3)"
| "watch_ok at = True"

lemma watch_ok_next: "length ws \<le> 3 \<Longrightarrow> watch_ok (next_watch ws)"
  by (cases ws) (simp_all add: next_watch_def)

lemma warn_watch_ok:
  "prvWarnIfOverdue now at s = Some (at', s', out) \<Longrightarrow> watch_ok at \<Longrightarrow> watch_ok at'"
  by (cases "(now, at, s)" rule: prvWarnIfOverdue.cases) (auto simp: Let_def watch_ok_next split: if_splits)

lemma watchdog_watch_ok:
  "prvWatchdogThread now at s = Some (at', s', out) \<Longrightarrow> watch_ok at \<Longrightarrow> watch_ok at'"
  by (cases at) (auto simp: watch_ok_next watch_list_def dest: warn_watch_ok)

lemma thread_step_watch_ok:
  "thread_step K task now e y = Some y' \<Longrightarrow> watch_ok (watchdog_at y) \<Longrightarrow> watch_ok (watchdog_at y')"
  by (cases task) (auto simp: thread_step_def dest: watchdog_watch_ok split: option.splits)

lemma threads_work_bound:
  assumes "watch_ok (watchdog_at y)"
  shows "threads_work y \<le> 40"
proof -
  have "host_sensor_work (sensor_at y) \<le> 10" by (cases "sensor_at y") simp_all
  moreover have "host_processor_work (processor_at y) \<le> 10" by (cases "processor_at y") simp_all
  moreover have "host_logger_work (logger_at y) \<le> 5" by (cases "logger_at y") simp_all
  moreover have "watchdog_work (watchdog_at y) \<le> 15" using assms by (cases "watchdog_at y") simp_all
  ultimately show ?thesis by (simp add: threads_work_def)
qed

lemma sensor_moves: "at \<noteq> ES_Return \<Longrightarrow> prvSensorThread K now at s \<noteq> None"
  by (cases at) (simp_all add: Let_def split: prod.splits)

lemma pop_attempt_moves: "pop_attempt t True q = Failed q"
  by (simp add: pop_attempt_def)

lemma processor_moves: "at \<noteq> EP_Return \<Longrightarrow> prvProcessorThread K now True at s \<noteq> None"
  by (cases at) (simp_all add: processor_pop_def pop_attempt_moves Let_def split: prod.splits option.splits)

lemma logger_moves: "at \<noteq> EL_Return \<Longrightarrow> prvLoggerThread K now True at s \<noteq> None"
  by (cases at) (simp_all add: logger_pop_def pop_attempt_moves Let_def split: prod.splits option.splits)

lemma watchdog_moves: "at \<noteq> EW_Return \<Longrightarrow> watch_ok at \<Longrightarrow> prvWatchdogThread now at s \<noteq> None"
  by (cases at) (auto simp: neq_Nil_conv Let_def)

lemma thread_moves:
  assumes "sim y = Some s" and "\<not> thread_returned task y" and "watch_ok (watchdog_at y)"
  shows "\<exists>y'. thread_step K task now True y = Some y'"
  using assms sensor_moves [of "sensor_at y" K now s] processor_moves [of "processor_at y" K now s]
    logger_moves [of "logger_at y" K now s] watchdog_moves [of "watchdog_at y" now s]
  by (cases task) (auto simp: thread_step_def)

subsection \<open>Steps left to the main thread\<close>

fun action_work :: "'f main_action \<Rightarrow> nat" where
  "action_work (M_Call c) = 13"
| "action_work (M_Show w) = 13"
| "action_work M_Read = 29"
| "action_work (M_Do e) = 1"
| "action_work (M_Out x) = 1"
| "action_work (M_Return r) = 1"

definition main_work :: "'f program \<Rightarrow> nat" where
  "main_work p = sum_list (map action_work (todo p)) + 16 * length (stdin p)"

lemma call_actions_length: "length (call_actions c s) \<le> 10"
  by (cases c) (auto simp: ecu_start_def ecu_stop_def ecu_reset_def ecu_set_fault_def ecu_destroy_def
      split: option.splits)

lemma show_view_length: "length (show_view K w n) \<le> 11"
  by (cases w) (simp_all add: print_status_def print_tasks_def print_heap_def print_stats_def Let_def)

lemma work_of_actions [simp]:
  "sum_list (map (action_work \<circ> M_Do) es) = length es"
  "sum_list (map (action_work \<circ> M_Out) os) = length os"
  by (induction es, simp_all) (induction os, simp_all)

lemma command_work: "sum_list (map action_work (main_command line)) \<le> 44"
  by (simp add: main_command_def main_loop_def main_shutdown_def print_help_def Let_def)

lemma fgets_chars_consumes:
  "fgets_chars n inp = (line, rest) \<Longrightarrow> inp = line @ rest"
  by (induction n inp arbitrary: line rest rule: fgets_chars.induct) (auto split: if_splits prod.splits simp: apfst_def map_prod_def)

lemma fgets_consumes:
  assumes "fgets (Suc (Suc n)) inp = Some (line, rest)"
  shows "inp = line @ rest" and "line \<noteq> []"
  using assms fgets_chars_consumes [of "Suc n" inp line rest]
  by (cases inp; auto simp: fgets_def apfst_def map_prod_def split: if_splits prod.splits)+

lemma main_work_step:
  assumes "main_step K p = Some p'"
  shows "main_work p' < main_work p"
proof -
  obtain a rest where t: "todo p = a # rest"
    using assms by (cases "todo p") (auto simp: main_step_def)
  show ?thesis
  proof (cases a)
    case (M_Call c)
    with assms t call_actions_length [of c "sim (sys p)"] show ?thesis
      by (auto simp: main_step_def main_work_def)
  next
    case (M_Show w)
    obtain n where "p' = p\<lparr>todo := map M_Out (show_view K w n) @ rest\<rparr>"
      using assms t M_Show by (auto simp: main_step_def)
    with t M_Show show_view_length [of K w n] show ?thesis by (simp add: main_work_def)
  next
    case M_Read
    show ?thesis
    proof (cases "fgets 256 (stdin p)")
      case None
      with assms t M_Read show ?thesis
        by (auto simp: main_step_def main_work_def main_shutdown_def)
    next
      case (Some r)
      obtain line inp where r: "r = (line, inp)" by (cases r)
      have "stdin p = line @ inp" and "line \<noteq> []"
        using fgets_consumes [of 254 "stdin p" line inp] Some r by simp_all
      moreover have "sum_list (map action_work (main_line line :: 'a main_action list)) \<le> 44"
        unfolding main_line_def by (rule command_work)
      ultimately show ?thesis
        using assms t M_Read Some r by (cases line) (auto simp: main_step_def main_work_def)
    qed
  qed (use assms t in \<open>auto simp: main_step_def main_work_def\<close>)
qed

lemma main_work_start: "main_work (host_main K env inp) \<le> 45 + 16 * length inp"
  by (auto simp: host_main_def main_work_def main_loop_def split: option.splits prod.splits)

lemma host_step_main_work:
  "host_step K t p = Some p' \<Longrightarrow> main_work p' + (if t = Main then 1 else 0) \<le> main_work p"
  by (cases t) (auto simp: main_work_def dest!: main_work_step split: if_splits)

fun main_turns :: "turn list \<Rightarrow> nat" where
  "main_turns [] = 0"
| "main_turns (t # ts) = (if t = Main then 1 else 0) + main_turns ts"

lemma host_run_main_work: "host_run K ts p = Some p' \<Longrightarrow> main_work p' + main_turns ts \<le> main_work p"
proof (induction ts arbitrary: p)
  case Nil
  then show ?case by simp
next
  case (Cons t ts)
  then obtain p1 where s: "host_step K t p = Some p1" and r: "host_run K ts p1 = Some p'"
    by (auto split: option.splits)
  from Cons.IH [OF r] host_step_main_work [OF s] show ?case by simp
qed

subsection \<open>Always a next step\<close>

text \<open>While it has not returned, the main thread can go on, unless it waits in a join for a thread that is
  still running after the stop request.\<close>

lemma main_blocked:
  assumes "main_step K p = None" and "fits ph (todo p)" and "in_phase ph (sys p)" and "ph \<noteq> Done"
  obtains task where "stopping (sys p)" and "\<not> thread_returned task (sys p)"
proof -
  obtain a rest where t: "todo p = a # rest"
    using assms(2,4) by (cases "todo p") auto
  show thesis
  proof (cases a)
    case (M_Do e)
    then obtain ph' where d: "do_phase ph e = Some ph'"
      using assms(2) t by (auto simp: next_phase_def split: option.splits)
    have n: "do_ecu_action K e (sys p) = None"
      using assms(1) t M_Do by (simp add: main_step_def)
    obtain s where s: "sim (sys p) = Some s"
      using assms(3) d by (cases ph) (auto simp: do_phase_def split: ecu_action.splits if_splits)
    then obtain task where "e = A_Join task" "\<not> thread_returned task (sys p)"
      using n by (cases e) (auto simp: do_ecu_action_def split: if_splits)
    moreover have "stopping (sys p)"
      using assms(3) d \<open>e = A_Join task\<close>
      by (auto simp: do_phase_def stopping_def split: if_splits)
    ultimately show thesis using that by blast
  next
    case (M_Show w)
    then have "ph = On"
      using assms(2) t by (auto simp: next_phase_def split: if_splits)
    then show thesis
      using assms(1,3) t M_Show by (auto simp: main_step_def ecu_snapshot_def)
  qed (use assms(1) t in \<open>auto simp: main_step_def\<close>)
qed

lemma host_step_watch_ok:
  assumes "host_step K t p = Some p'" and "watch_ok (watchdog_at (sys p))"
  shows "watch_ok (watchdog_at (sys p'))"
proof (cases t)
  case Main
  have "watch_ok (watchdog_at y)" if "do_ecu_action K e (sys p) = Some y" for e y
  proof (cases "\<exists>u. e = A_Spawn u")
    case True
    then obtain u where "e = A_Spawn u" by blast
    with that assms(2) show ?thesis
      by (cases u) (auto simp: do_ecu_action_def split: option.splits)
  next
    case False
    with that assms(2) show ?thesis
      by (auto simp: do_ecu_action_def split: option.splits ecu_action.splits if_splits)
  qed
  then show ?thesis
    using assms Main
    by (auto simp: main_step_def split: if_splits list.splits main_action.splits option.splits)
next
  case (Thread task now e)
  with assms thread_step_watch_ok show ?thesis by (auto split: if_splits)
qed

lemma host_run_watch_ok:
  "host_run K ts p = Some p' \<Longrightarrow> watch_ok (watchdog_at (sys p)) \<Longrightarrow> watch_ok (watchdog_at (sys p'))"
  by (induction ts arbitrary: p) (auto split: option.splits dest: host_step_watch_ok)

lemma host_main_watch_ok: "watch_ok (watchdog_at (sys (host_main K env inp)))"
  by (simp add: host_main_def split: prod.splits)

lemma host_progress:
  assumes "program_ok p" and "watch_ok (watchdog_at (sys p))" and "returned p = None"
  shows "(\<exists>p'. host_step K Main p = Some p') \<or>
    (stopping (sys p) \<and> (\<exists>task p'. host_step K (Thread task now True) p = Some p'))"
proof (cases "main_step K p")
  case None
  obtain ph where "fits ph (todo p)" "in_phase ph (sys p)" "ph \<noteq> Done"
    using assms(1,3) by (auto simp: program_ok_def)
  with None obtain task where st: "stopping (sys p)" "\<not> thread_returned task (sys p)"
    using main_blocked by metis
  then obtain s where "sim (sys p) = Some s" by (auto simp: stopping_def)
  from thread_moves [OF this st(2) assms(2)] st(1) assms(3) show ?thesis by fastforce
next
  case (Some p')
  with assms(3) show ?thesis by simp
qed

lemma host_run_append:
  "host_run K (ts @ us) p = (case host_run K ts p of None \<Rightarrow> None | Some q \<Rightarrow> host_run K us q)"
  by (induction ts arbitrary: p) (auto split: option.splits)

definition total_work :: "'f program \<Rightarrow> nat" where
  "total_work p = 41 * main_work p + (if stopping (sys p) then threads_work (sys p) else 0)"

lemma total_work_main:
  assumes "host_step K Main p = Some p'" and "watch_ok (watchdog_at (sys p'))"
  shows "total_work p' < total_work p"
  using main_work_step [of K p p'] assms threads_work_bound [of "sys p'"]
  by (auto simp: total_work_def split: if_splits)

lemma total_work_thread:
  assumes "host_step K (Thread task now e) p = Some p'" and "stopping (sys p)"
  shows "total_work p' < total_work p"
  using assms threads_work_step [of K task now e "sys p"]
  by (auto simp: total_work_def main_work_def split: if_splits)

lemma host_can_finish:
  assumes "program_ok p" and "watch_ok (watchdog_at (sys p))"
  shows "\<exists>ts p'. host_run K ts p = Some p' \<and> returned p' \<noteq> None"
  using assms
proof (induction p rule: measure_induct_rule [of total_work])
  case (less p)
  show ?case
  proof (cases "returned p = None")
    case False
    then show ?thesis by (intro exI [of _ "[]"]) simp
  next
    case True
    obtain t p1 where s: "host_step K t p = Some p1" and d: "total_work p1 < total_work p"
      using host_progress [OF less.prems True, of K zero_time] total_work_main total_work_thread
        host_step_watch_ok [OF _ less.prems(2)] by metis
    have "program_ok p1" "watch_ok (watchdog_at (sys p1))"
      using s host_step_keeps_phase host_step_watch_ok less.prems by metis+
    from less.IH [OF d this] obtain ts p' where "host_run K ts p1 = Some p'" "returned p' \<noteq> None"
      by blast
    with s have "host_run K (t # ts) p = Some p' \<and> returned p' \<noteq> None" by simp
    then show ?thesis by blast
  qed
qed

lemma stopping_run_bound:
  assumes "host_run K ts p = Some p'" and "stopping (sys p)" and "main_turns ts = 0"
  shows "length ts + threads_work (sys p') \<le> threads_work (sys p) \<and> stopping (sys p')"
  using assms
proof (induction ts arbitrary: p)
  case Nil
  then show ?case by simp
next
  case (Cons t ts)
  then obtain task now e p1 where t: "t = Thread task now e" and s: "host_step K t p = Some p1"
    and r: "host_run K ts p1 = Some p'"
    by (cases t) (auto split: option.splits)
  then have y: "thread_step K task now e (sys p) = Some (sys p1)"
    by (auto split: if_splits)
  have "main_turns ts = 0" using Cons.prems(3) by simp
  with Cons.IH [OF r threads_work_step(2) [OF y Cons.prems(2)]] threads_work_step(1) [OF y Cons.prems(2)]
  show ?case by simp
qed

text \<open>The value that main returns: 0 exactly if the simulator was created.\<close>

definition exit_code :: "'f host \<Rightarrow> ecu_env \<Rightarrow> int" where
  "exit_code K env = (if fst (ecu_create K env) = None then 1 else 0)"

fun returns_only :: "int \<Rightarrow> 'f main_action \<Rightarrow> bool" where
  "returns_only r (M_Return r') = (r' = r)"
| "returns_only r M_Read = (r = 0)"
| "returns_only r a = True"

lemma returns_only_list [simp]:
  "\<forall>a \<in> set (main_command line). returns_only 0 a" "\<forall>a \<in> set main_shutdown. returns_only 0 a"
  "\<forall>a \<in> set (map M_Do es). returns_only r a" "\<forall>a \<in> set (map M_Out os). returns_only r a"
  by (auto simp: main_command_def main_loop_def main_shutdown_def Let_def)

definition code_ok :: "int \<Rightarrow> 'f program \<Rightarrow> bool" where
  "code_ok r p \<longleftrightarrow> list_all (returns_only r) (todo p) \<and> (\<forall>r'. returned p = Some r' \<longrightarrow> r' = r)"

lemma host_step_code:
  assumes "host_step K t p = Some p'" and "code_ok r p"
  shows "code_ok r p'"
proof (cases t)
  case Main
  with assms show ?thesis
    by (cases "todo p")
      (auto simp: main_step_def code_ok_def main_line_def list_all_iff
        split: if_splits main_action.splits option.splits)
next
  case (Thread task now e)
  with assms show ?thesis by (auto simp: code_ok_def split: if_splits)
qed

lemma host_run_code: "host_run K ts p = Some p' \<Longrightarrow> code_ok r p \<Longrightarrow> code_ok r p'"
  by (induction ts arbitrary: p) (auto split: option.splits dest: host_step_code)

lemma host_main_code: "code_ok (exit_code K env) (host_main K env inp)"
  by (auto simp: code_ok_def host_main_def exit_code_def main_loop_def split: prod.splits option.splits)

subsection \<open>Properties\<close>

text \<open>C22: In every state the host program can reach, whatever the input, the clock and the order of the
  threads, what the main thread still has to do fits the phase the simulator is in: it starts only a
  simulator that is off, resets and changes the fault mode only while it runs, joins each thread
  exactly once and only after the stop request, and frees the object only when it is off again. Once
  the object is freed all four threads have returned, so none of them can touch it.\<close>

theorem host_protocol:
  assumes "host_run K ts (host_main K env inp) = Some p"
  shows "(\<exists>ph. fits ph (todo p) \<and> in_phase ph (sys p) \<and> (returned p = None \<longleftrightarrow> ph \<noteq> Done))
    \<and> (sim (sys p) = None \<longrightarrow> (\<forall>t. thread_returned t (sys p)))"
proof -
  obtain ph where ph: "fits ph (todo p) \<and> in_phase ph (sys p) \<and> (returned p = None \<longleftrightarrow> ph \<noteq> Done)"
    using host_run_ok [OF assms host_main_ok] unfolding program_ok_def by (rule exE)
  then have "in_phase ph (sys p)" by (elim conjE)
  then have "sim (sys p) = None \<longrightarrow> (\<forall>t. thread_returned t (sys p))"
    by (cases ph) auto
  with ph show ?thesis by (intro conjI exI [of _ ph]) simp_all
qed

lemma host_main_created:
  assumes "ecu_create K env = (Some s, [])"
  shows "host_main K env inp =
      \<lparr>sys = \<lparr>sim = Some s, sensor_at = ES_Return, processor_at = EP_Return, logger_at = EL_Return,
              watchdog_at = EW_Return, outs = [], released = []\<rparr>,
       stdin = inp,
       todo = [M_Call C_start, M_Out (Puts ''Real-Time Vehicle Telemetry ECU Simulator''),
               M_Out (Puts (''Type '' @ quoted ''help'' @ '' for commands.''))] @ main_loop,
       performed = [], returned = None\<rparr>"
  by (simp add: host_main_def assms)

lemma small_created:
  obtains s where "fst (ecu_create small_host ecu_env_ok) = Some s" and "\<not> started s"
    and "sensor_queue s \<noteq> None" and "telemetry_queue s \<noteq> None"
    and "host_main small_host ecu_env_ok inp =
      \<lparr>sys = \<lparr>sim = Some s, sensor_at = ES_Return, processor_at = EP_Return, logger_at = EL_Return,
              watchdog_at = EW_Return, outs = [], released = []\<rparr>,
       stdin = inp,
       todo = [M_Call C_start, M_Out (Puts ''Real-Time Vehicle Telemetry ECU Simulator''),
               M_Out (Puts (''Type '' @ quoted ''help'' @ '' for commands.''))] @ main_loop,
       performed = [], returned = None\<rparr>"
proof -
  obtain s where c: "ecu_create small_host ecu_env_ok = (Some s, [])" using small_create by blast
  from ecu_create_cases [OF c] obtain sq tq where s:
    "s = (calloc_EcuSim small_host)\<lparr>sensor_queue := Some sq, telemetry_queue := Some tq,
            snapshot := zero_snapshot small_host\<rparr>" by blast
  have "\<not> started s" "sensor_queue s \<noteq> None" "telemetry_queue s \<noteq> None"
    by (simp_all add: s calloc_EcuSim_def)
  from that [OF _ this host_main_created [OF c]] c show thesis by simp
qed

definition main_alone :: "turn list" where
  "main_alone = [Main, Main, Main, Main, Main, Main, Main, Main, Main, Main, Main, Main, Main, Main, Main]"

text \<open>Up to the stop request at the end of an empty input.\<close>

lemma stop_at_once:
  assumes "\<not> started s" and "sensor_queue s \<noteq> None" and "telemetry_queue s \<noteq> None"
  shows "\<exists>p. host_run K main_alone
      \<lparr>sys = \<lparr>sim = Some s, sensor_at = ES_Return, processor_at = EP_Return, logger_at = EL_Return,
              watchdog_at = EW_Return, outs = [], released = []\<rparr>,
       stdin = [],
       todo = [M_Call C_start, M_Out a, M_Out b] @ main_loop,
       performed = [], returned = None\<rparr> = Some p \<and> stopping (sys p)"
  using assms
  by (simp add: main_alone_def main_step_def ecu_start_def ecu_stop_def do_ecu_action_def
      main_loop_def main_shutdown_def fgets_def stopping_def)

lemma small_stop:
  "\<exists>p. host_run small_host main_alone (host_main small_host ecu_env_ok []) = Some p \<and> stopping (sys p)"
proof -
  obtain s where s: "\<not> started s" "sensor_queue s \<noteq> None" "telemetry_queue s \<noteq> None"
    and h: "host_main small_host ecu_env_ok [] =
      \<lparr>sys = \<lparr>sim = Some s, sensor_at = ES_Return, processor_at = EP_Return, logger_at = EL_Return,
              watchdog_at = EW_Return, outs = [], released = []\<rparr>,
       stdin = [],
       todo = [M_Call C_start, M_Out (Puts ''Real-Time Vehicle Telemetry ECU Simulator''),
               M_Out (Puts (''Type '' @ quoted ''help'' @ '' for commands.''))] @ main_loop,
       performed = [], returned = None\<rparr>"
    by (rule small_created)
  show ?thesis unfolding h by (rule stop_at_once [OF s])
qed

theorem host_protocol_witness:
  "\<exists>p. host_run small_host (main_alone) (host_main small_host ecu_env_ok []) = Some p
    \<and> (\<exists>ph. fits ph (todo p) \<and> in_phase ph (sys p) \<and> ph \<noteq> Gone)"
proof -
  obtain p where p: "host_run small_host (main_alone) (host_main small_host ecu_env_ok []) = Some p"
    and s: "stopping (sys p)"
    using small_stop by blast
  obtain ph where "fits ph (todo p)" "in_phase ph (sys p)"
    using host_protocol [OF p] by blast
  moreover from this s have "ph \<noteq> Gone" by (auto simp: stopping_def)
  ultimately show ?thesis using p by blast
qed

text \<open>C23: The host program ends. Over any run, the main thread takes at most 45 steps and 16 more per
  character of its input; until it returns it can always go on, or waits in a join after the stop
  request while some thread can go on; and from every reachable state there is a way to the end,
  where it returns 0, or 1 if the simulator could not be created.\<close>

theorem host_terminates:
  assumes "host_run K ts (host_main K env inp) = Some p"
  shows "main_turns ts \<le> 45 + 16 * length inp
    \<and> (returned p = None \<longrightarrow> (\<exists>p'. host_step K Main p = Some p') \<or>
         (stopping (sys p) \<and> (\<exists>task p'. host_step K (Thread task now True) p = Some p')))
    \<and> (\<exists>us p'. host_run K us p = Some p' \<and> returned p' = Some (exit_code K env))"
proof (intro conjI impI)
  note ok = host_run_ok [OF assms host_main_ok] and w = host_run_watch_ok [OF assms host_main_watch_ok]
  show "main_turns ts \<le> 45 + 16 * length inp"
    using host_run_main_work [OF assms] main_work_start [of K env inp] by linarith
  show "(\<exists>p'. host_step K Main p = Some p') \<or>
      (stopping (sys p) \<and> (\<exists>task p'. host_step K (Thread task now True) p = Some p'))"
    if "returned p = None"
    by (rule host_progress [OF ok w that])
  obtain us p' where r: "host_run K us p = Some p'" "returned p' \<noteq> None"
    using host_can_finish [OF ok w] by blast
  have "code_ok (exit_code K env) p'"
    using host_run_code [OF r(1) host_run_code [OF assms host_main_code]] .
  with r show "\<exists>us p'. host_run K us p = Some p' \<and> returned p' = Some (exit_code K env)"
    by (auto simp: code_ok_def)
qed

theorem host_terminates_witness:
  "\<exists>us p. host_run small_host us (host_main small_host ecu_env_ok ''reset'') = Some p \<and> returned p = Some 0"
proof -
  have "host_run small_host [] (host_main small_host ecu_env_ok ''reset'')
      = Some (host_main small_host ecu_env_ok ''reset'')" by simp
  from host_terminates [OF this] small_create show ?thesis by (auto simp: exit_code_def)
qed

text \<open>C24: A stop request reaches every thread, wherever it is: without the main thread the four
  threads take at most 40 more steps together, and where none of them can go on all have returned, so
  that the joins of \<open>ecu_stop\<close> come back. A thread that waits on a queue is released by its timeout.\<close>

theorem ecu_stop_returns:
  assumes "host_run K ts (host_main K env inp) = Some p" and "stopping (sys p)"
    and "host_run K us p = Some p'" and "main_turns us = 0"
  shows "length us \<le> 40
    \<and> ((\<forall>task now. host_step K (Thread task now True) p' = None) \<longrightarrow> (\<forall>task. thread_returned task (sys p')))"
proof (intro conjI impI allI)
  note w = host_run_watch_ok [OF assms(1) host_main_watch_ok]
  note b = stopping_run_bound [OF assms(3,2,4)]
  show "length us \<le> 40"
    using b threads_work_bound [OF w] by linarith
  fix task
  assume stuck: "\<forall>task now. host_step K (Thread task now True) p' = None"
  obtain s where s: "sim (sys p') = Some s" using b by (auto simp: stopping_def)
  have "program_ok p'"
    by (rule host_run_ok [OF assms(3) host_run_ok [OF assms(1) host_main_ok]])
  with s have "returned p' = None" by (auto simp: program_ok_def)
  with stuck have "thread_step K task zero_time True (sys p') = None"
    by (auto dest: spec [of _ task] spec [of _ zero_time])
  with thread_moves [OF s _ host_run_watch_ok [OF assms(3) w]] show "thread_returned task (sys p')"
    by (metis option.distinct(1))
qed

theorem ecu_stop_returns_witness:
  "\<exists>p. host_run small_host (main_alone) (host_main small_host ecu_env_ok []) = Some p
    \<and> (\<forall>p'. host_run small_host (replicate 41 (Thread TASK_SENSOR zero_time True)) p \<noteq> Some p')"
proof -
  obtain p where p: "host_run small_host (main_alone) (host_main small_host ecu_env_ok []) = Some p"
    and s: "stopping (sys p)"
    using small_stop by blast
  have "main_turns (replicate n (Thread TASK_SENSOR zero_time True)) = 0" for n
    by (induction n) simp_all
  with ecu_stop_returns [OF p s, of "replicate 41 (Thread TASK_SENSOR zero_time True)"] p
  show ?thesis by fastforce
qed

end
