(* ===== verification/EcuFlow.thy ===== *)
theory EcuFlow
  imports EcuStop
begin

text \<open>
  What flows through the host simulator: samples from the sensor thread through the sensor queue to
  the processor thread, frames through the telemetry queue to the logger. \<open>host_pipeline\<close> lists the
  sequence numbers of everything the simulator has in hand, from the first line logged to the number
  drawn last. Over every interleaving it stays sorted, and its length and the counters of the
  snapshot add up, as long as nobody clears the queues or the counters.
\<close>

subsection \<open>Genuine samples and frames\<close>

definition host_genuine_sample :: "'f host \<Rightarrow> 'f HostSample \<Rightarrow> bool" where
  "host_genuine_sample K x \<longleftrightarrow> clock_ok (hs_timestamp x)
     \<and> (\<exists>now s. x = prvMakeSensorSample K now s (hs_sequence x))"

definition host_genuine_frame :: "'f host \<Rightarrow> 'f HostFrame \<Rightarrow> bool" where
  "host_genuine_frame K f \<longleftrightarrow> clock_ok (hf_timestamp f)
     \<and> (\<exists>now x. host_genuine_sample K x \<and> f = host_prvProcessSample K now x)"

lemma made_sample [simp]:
  "hs_sequence (prvMakeSensorSample K now s n) = n"
  "hs_timestamp (prvMakeSensorSample K now s n) = now"
  by (simp_all add: prvMakeSensorSample_def Let_def)

lemma processed_sample [simp]:
  "hf_sequence (host_prvProcessSample K now x) = hs_sequence x"
  "hf_timestamp (host_prvProcessSample K now x) = now"
  by (simp_all add: host_prvProcessSample_def Let_def)

lemma host_genuine_made: "clock_ok now \<Longrightarrow> host_genuine_sample K (prvMakeSensorSample K now s n)"
  by (auto simp: host_genuine_sample_def)

lemma host_genuine_processed: "clock_ok now \<Longrightarrow> host_genuine_sample K x \<Longrightarrow> host_genuine_frame K (host_prvProcessSample K now x)"
  by (auto simp: host_genuine_frame_def)

lemma genuine_bytes:
  assumes "host_ok K"
  shows "host_genuine_sample K x \<Longrightarrow> sample_of K (sample_bytes K x) = x"
    and "host_genuine_frame K f \<Longrightarrow> frame_of K (frame_bytes K f) = f"
    and "length (sample_bytes K y) = sizeof_sample K" and "length (frame_bytes K g) = sizeof_frame K"
  using assms by (simp_all add: host_ok_def host_genuine_sample_def host_genuine_frame_def)

subsection \<open>Where they are\<close>

text \<open>What each thread holds: numbers not yet queued, samples, frames.\<close>

fun sensor_hand :: "'f sensor_thread \<Rightarrow> u64 list" where
  "sensor_hand (ES_Make b n) = [n]"
| "sensor_hand (ES_Push b x) = [hs_sequence x]"
| "sensor_hand at = []"

fun sensor_samples_of :: "'f sensor_thread \<Rightarrow> 'f HostSample list" where
  "sensor_samples_of (ES_Push b x) = [x]"
| "sensor_samples_of (ES_Update b x) = [x]"
| "sensor_samples_of at = []"

fun processor_samples :: "'f processor_thread \<Rightarrow> 'f HostSample list" where
  "processor_samples (EP_Fault x) = [x]"
| "processor_samples (EP_Log x) = [x]"
| "processor_samples (EP_Sleep x) = [x]"
| "processor_samples (EP_Process x) = [x]"
| "processor_samples at = []"

fun processor_frames :: "'f processor_thread \<Rightarrow> 'f HostFrame list" where
  "processor_frames (EP_Push f) = [f]"
| "processor_frames at = []"

fun logger_frames :: "'f logger_thread \<Rightarrow> 'f HostFrame list" where
  "logger_frames (EL_Print f) = [f]"
| "logger_frames at = []"

text \<open>Counts that a thread is about to make.\<close>

fun owed_samples :: "'f sensor_thread \<Rightarrow> u64" where
  "owed_samples (ES_Update b x) = 1"
| "owed_samples at = 0"

fun owed_sensor_drops :: "'f sensor_thread \<Rightarrow> u64" where
  "owed_sensor_drops (ES_Drop b) = 1"
| "owed_sensor_drops at = 0"

fun owed_frames :: "'f processor_thread \<Rightarrow> u64" where
  "owed_frames (EP_Update f) = 1"
| "owed_frames at = 0"

fun owed_telemetry_drops :: "'f processor_thread \<Rightarrow> u64" where
  "owed_telemetry_drops EP_Drop = 1"
| "owed_telemetry_drops at = 0"

text \<open>The sequence number of a telemetry line, from the arguments of the print call.\<close>

fun line_seq :: "'f out \<Rightarrow> u64 list" where
  "line_seq (Printf fmt (C_ull n # args)) = (if fmt = telemetry_fmt then [n] else [])"
| "line_seq x = []"

definition host_logged :: "'f out list \<Rightarrow> u64 list" where
  "host_logged xs = concat (map line_seq xs)"

lemma logged_append [simp]: "host_logged (xs @ ys) = host_logged xs @ host_logged ys" "host_logged [] = []"
  by (simp_all add: host_logged_def)

lemma line_seq_telemetry [simp]: "line_seq (telemetry_line f) = [hf_sequence f]"
  by (simp add: telemetry_line_def)

lemma not_telemetry: "take 2 fmt \<noteq> ''[t'' \<Longrightarrow> line_seq (Printf fmt args) = []"
  by (cases "(Printf fmt args)" rule: line_seq.cases) (auto simp: telemetry_fmt_def)

lemma line_seq_newline [simp]: "line_seq newline = []"
  by (rule not_telemetry) simp

declare line_seq.simps(1) [simp del]

lemma line_seq_log [simp]:
  "line_seq (Printf ''[sensor] injected invalid reading'' args) = []"
  "line_seq (Printf ''[processor] deliberate stall on sample %llu'' args) = []"
  "line_seq (Printf host_warning_fmt args) = []"
  by (rule not_telemetry, simp add: host_warning_fmt_def)+

subsection \<open>The invariant\<close>

definition host_pipeline :: "'f sensor_thread \<Rightarrow> 'f processor_thread \<Rightarrow> 'f logger_thread \<Rightarrow> 'f out list \<Rightarrow>
    'f HostSample list \<Rightarrow> 'f HostFrame list \<Rightarrow> u64 list" where
  "host_pipeline sat pat lat os xs fs =
     host_logged os @ map hf_sequence (logger_frames lat) @ map hf_sequence fs @
     map hf_sequence (processor_frames pat) @ map hs_sequence (processor_samples pat) @
     map hs_sequence xs @ sensor_hand sat"

text \<open>
  The order, with the number of steps \<open>k\<close> as a bound on the sequence number, and the books: every
  number drawn is a sample counted, a drop counted, or still owed or in the sensor thread's hand; every
  sample queued is a frame counted, a drop counted, or on its way; every frame queued is logged or on
  its way. The sums are in the counters' 64 bits.
\<close>

definition in_sequence :: "nat \<Rightarrow> u64 \<Rightarrow> u64 list \<Rightarrow> bool" where
  "in_sequence k n ns \<longleftrightarrow> unat n \<le> k \<and> sorted_wrt (<) ns \<and> (\<forall>m \<in> set ns. m \<le> n)"

definition books :: "'f EcuSim \<Rightarrow> 'f sensor_thread \<Rightarrow> 'f processor_thread \<Rightarrow> 'f logger_thread \<Rightarrow>
    'f out list \<Rightarrow> 'f HostSample list \<Rightarrow> 'f HostFrame list \<Rightarrow> bool" where
  "books s sat pat lat os xs fs \<longleftrightarrow>
     sim_sequence s = sn_sensor_samples (snapshot s) + owed_samples sat
       + sn_sensor_drops (snapshot s) + owed_sensor_drops sat + of_nat (length (sensor_hand sat))
   \<and> sn_sensor_samples (snapshot s) + owed_samples sat
       = sn_telemetry_frames (snapshot s) + owed_frames pat
         + sn_telemetry_drops (snapshot s) + owed_telemetry_drops pat
         + of_nat (length (processor_frames pat) + length (processor_samples pat) + length xs)
   \<and> sn_telemetry_frames (snapshot s) + owed_frames pat
       = of_nat (length (host_logged os) + length (logger_frames lat) + length fs)"

definition all_genuine :: "'f host \<Rightarrow> 'f sensor_thread \<Rightarrow> 'f processor_thread \<Rightarrow> 'f logger_thread \<Rightarrow>
    'f HostSample list \<Rightarrow> 'f HostFrame list \<Rightarrow> bool" where
  "all_genuine K sat pat lat xs fs \<longleftrightarrow>
     list_all (host_genuine_sample K) (sensor_samples_of sat @ processor_samples pat @ xs)
   \<and> list_all (host_genuine_frame K) (processor_frames pat @ logger_frames lat @ fs)"

text \<open>The telemetry lines are those of genuine frames.\<close>

definition genuine_line :: "'f host \<Rightarrow> 'f out \<Rightarrow> bool" where
  "genuine_line K x \<longleftrightarrow> line_seq x = [] \<or> (\<exists>f. host_genuine_frame K f \<and> x = telemetry_line f)"

definition contents :: "'f host \<Rightarrow> 'f EcuSim \<Rightarrow> 'f HostSample list \<Rightarrow> 'f HostFrame list \<Rightarrow> bool" where
  "contents K s xs fs \<longleftrightarrow> holds (sizeof_sample K) (sample_bytes K) (sensor_queue s) xs
     \<and> holds (sizeof_frame K) (frame_bytes K) (telemetry_queue s) fs"

lemmas flow_defs = host_pipeline_def books_def all_genuine_def contents_def in_sequence_def

lemma in_sequence_draw:
  assumes "in_sequence k n ns" and "k < 2 ^ 64 - 1"
  shows "in_sequence (Suc k) (n + 1) (ns @ [n + 1])"
proof -
  have n: "unat (n + 1) = Suc (unat n)"
    using assms unat_plus_nowrap [of n 1] by (simp add: in_sequence_def)
  then have "n < n + 1" by (simp add: word_less_nat_alt)
  have "m < n + 1" if "m \<le> n" for m
    by (rule le_less_trans [OF that \<open>n < n + 1\<close>])
  with assms n show ?thesis
    by (auto simp: in_sequence_def sorted_wrt_append intro: less_imp_le)
qed

lemma in_sequence_keep: "in_sequence k n ns \<Longrightarrow> in_sequence (Suc k) n ns"
  by (auto simp: in_sequence_def)

lemma in_sequence_without: "in_sequence k n (as @ ms @ bs) \<Longrightarrow> in_sequence k n (as @ bs)"
  by (auto simp: in_sequence_def sorted_wrt_append)

lemma in_sequence_drop: "in_sequence k n (as @ m # bs) \<Longrightarrow> in_sequence (Suc k) n (as @ bs)"
  by (auto simp: in_sequence_def sorted_wrt_append)

subsection \<open>The sensor thread\<close>

lemma routines_flow [simp]:
  "sim_sequence (prvBeat ts t s) = sim_sequence s"
  "sensor_queue (prvBeat ts t s) = sensor_queue s" "telemetry_queue (prvBeat ts t s) = telemetry_queue s"
  "sn_sensor_samples (snapshot (prvBeat ts t s)) = sn_sensor_samples (snapshot s)"
  "sn_sensor_drops (snapshot (prvBeat ts t s)) = sn_sensor_drops (snapshot s)"
  "sn_telemetry_frames (snapshot (prvBeat ts t s)) = sn_telemetry_frames (snapshot s)"
  "sn_telemetry_drops (snapshot (prvBeat ts t s)) = sn_telemetry_drops (snapshot s)"
  by (cases t; simp add: ecu_routines)+

lemma count_flow [simp]:
  "sim_sequence (prvUpdateFromSample x s) = sim_sequence s"
  "sensor_queue (prvUpdateFromSample x s) = sensor_queue s"
  "telemetry_queue (prvUpdateFromSample x s) = telemetry_queue s"
  "sn_sensor_samples (snapshot (prvUpdateFromSample x s)) = sn_sensor_samples (snapshot s) + 1"
  "sn_sensor_drops (snapshot (prvUpdateFromSample x s)) = sn_sensor_drops (snapshot s)"
  "sn_telemetry_frames (snapshot (prvUpdateFromSample x s)) = sn_telemetry_frames (snapshot s)"
  "sn_telemetry_drops (snapshot (prvUpdateFromSample x s)) = sn_telemetry_drops (snapshot s)"
  "sim_sequence (prvUpdateFromFrame f s) = sim_sequence s"
  "sensor_queue (prvUpdateFromFrame f s) = sensor_queue s"
  "telemetry_queue (prvUpdateFromFrame f s) = telemetry_queue s"
  "sn_sensor_samples (snapshot (prvUpdateFromFrame f s)) = sn_sensor_samples (snapshot s)"
  "sn_sensor_drops (snapshot (prvUpdateFromFrame f s)) = sn_sensor_drops (snapshot s)"
  "sn_telemetry_frames (snapshot (prvUpdateFromFrame f s)) = sn_telemetry_frames (snapshot s) + 1"
  "sn_telemetry_drops (snapshot (prvUpdateFromFrame f s)) = sn_telemetry_drops (snapshot s)"
  by (simp_all add: ecu_routines)

lemma drop_flow [simp]:
  "sim_sequence (host_prvIncrementDrop b s) = sim_sequence s"
  "sensor_queue (host_prvIncrementDrop b s) = sensor_queue s"
  "telemetry_queue (host_prvIncrementDrop b s) = telemetry_queue s"
  "sn_sensor_samples (snapshot (host_prvIncrementDrop b s)) = sn_sensor_samples (snapshot s)"
  "sn_telemetry_frames (snapshot (host_prvIncrementDrop b s)) = sn_telemetry_frames (snapshot s)"
  "sn_sensor_drops (snapshot (host_prvIncrementDrop b s)) = sn_sensor_drops (snapshot s) + (if b then 1 else 0)"
  "sn_telemetry_drops (snapshot (host_prvIncrementDrop b s)) = sn_telemetry_drops (snapshot s) + (if b then 0 else 1)"
  by (simp_all add: ecu_routines)

lemma after_sample_flow [simp]:
  "sensor_hand (after_sample b) = []" "sensor_samples_of (after_sample b) = []"
  "owed_samples (after_sample b) = 0" "owed_sensor_drops (after_sample b) = 0"
  by (cases b; simp)+

definition flow :: "bool \<Rightarrow> bool \<Rightarrow> nat \<Rightarrow> 'f EcuSim \<Rightarrow> 'f sensor_thread \<Rightarrow> 'f processor_thread \<Rightarrow>
    'f logger_thread \<Rightarrow> 'f out list \<Rightarrow> 'f HostSample list \<Rightarrow> 'f HostFrame list \<Rightarrow> bool" where
  "flow od cm k s sat pat lat os xs fs \<longleftrightarrow>
     (od \<longrightarrow> in_sequence k (sim_sequence s) (host_pipeline sat pat lat os xs fs))
   \<and> (cm \<longrightarrow> books s sat pat lat os xs fs)"

lemma sensor_flow:
  assumes K: "host_ok K" and now: "clock_ok now" and step: "prvSensorThread K now sat s = Some (sat', s', out)"
    and c: "contents K s xs fs" and g: "all_genuine K sat pat lat xs fs"
  shows "\<exists>xs'. contents K s' xs' fs \<and> all_genuine K sat' pat lat xs' fs \<and> list_all (genuine_line K) out
    \<and> (flow od cm k s sat pat lat os xs fs \<longrightarrow> k < 2 ^ 64 - 1 \<longrightarrow>
         flow od cm (Suc k) s' sat' pat lat (os @ out) xs' fs)"
proof (cases "\<exists>b x. sat = ES_Push b x")
  case True
  then obtain b x where at: "sat = ES_Push b x" by blast
  have "holds (sizeof_sample K) (sample_bytes K) (sensor_queue s) xs"
    using c by (simp add: contents_def)
  from holds_push [OF this genuine_bytes(3) [OF K]] obtain ok q ev
    where p: "queue_push (sensor_queue s) (Some (sample_bytes K x)) = (ok, q, ev)"
      and h: "holds (sizeof_sample K) (sample_bytes K) q (if ok then xs @ [x] else xs)"
    by metis
  from step p at have e: "sat' = (if ok then ES_Update b x else ES_Drop b)"
    "s' = s\<lparr>sensor_queue := q\<rparr>" "out = []" by auto
  show ?thesis
  proof (intro exI [of _ "if ok then xs @ [x] else xs"] conjI impI)
    show "contents K s' (if ok then xs @ [x] else xs) fs"
      using c h by (simp add: contents_def e)
    show "all_genuine K sat' pat lat (if ok then xs @ [x] else xs) fs"
      using g by (simp add: all_genuine_def e at)
    show "list_all (genuine_line K) out" by (simp add: e)
    assume f: "flow od cm k s sat pat lat os xs fs" and "k < 2 ^ 64 - 1"
    have "od \<longrightarrow> in_sequence (Suc k) (sim_sequence s) (host_pipeline sat' pat lat os (if ok then xs @ [x] else xs) fs)"
      using f in_sequence_drop [of k "sim_sequence s" "host_pipeline ES_While pat lat os xs fs" "hs_sequence x" "[]"]
      by (auto simp: flow_def host_pipeline_def e at dest: in_sequence_keep)
    moreover have "cm \<longrightarrow> books s' sat' pat lat os (if ok then xs @ [x] else xs) fs"
      using f by (auto simp: flow_def books_def e at algebra_simps)
    ultimately show "flow od cm (Suc k) s' sat' pat lat (os @ out) (if ok then xs @ [x] else xs) fs"
      by (simp add: flow_def e)
  qed
next
  case False
  show ?thesis
  proof (intro exI [of _ xs] conjI impI)
    show "contents K s' xs fs"
      using step c False by (cases sat) (auto simp: contents_def Let_def)
    show "all_genuine K sat' pat lat xs fs"
      using step g False now by (cases sat) (auto simp: all_genuine_def Let_def host_genuine_made)
    show "list_all (genuine_line K) out"
      using step False by (cases sat) (auto simp: genuine_line_def prvLog_def Let_def split: if_splits)
    assume f: "flow od cm k s sat pat lat os xs fs" and k: "k < 2 ^ 64 - 1"
    have q: "host_logged out = []"
      using step False by (cases sat) (auto simp: prvLog_def Let_def host_logged_def split: if_splits)
    have "od \<longrightarrow> in_sequence (Suc k) (sim_sequence s') (host_pipeline sat' pat lat (os @ out) xs fs)"
    proof (cases "\<exists>b. sat = ES_Sequence b")
      case True
      then show ?thesis
        using step f in_sequence_draw [OF _ k, of "sim_sequence s" "host_pipeline sat pat lat os xs fs"]
        by (auto simp: flow_def host_pipeline_def Let_def)
    next
      case no_draw: False
      have "sim_sequence s' = sim_sequence s"
        using step False no_draw by (cases sat) (auto simp: Let_def)
      moreover have "sensor_hand sat' = sensor_hand sat"
        using step False no_draw by (cases sat) (auto simp: Let_def)
      ultimately show ?thesis
        using f q by (simp add: flow_def host_pipeline_def in_sequence_keep)
    qed
    moreover have "cm \<longrightarrow> books s' sat' pat lat (os @ out) xs fs"
      using step False f q by (cases sat) (auto simp: flow_def books_def Let_def algebra_simps)
    ultimately show "flow od cm (Suc k) s' sat' pat lat (os @ out) xs fs" by (simp add: flow_def)
  qed
qed

subsection \<open>The processor, logger and watchdog threads\<close>

lemma pop_flow:
  assumes "holds isz bytes queue xs" and "\<forall>x \<in> set xs. unbytes (bytes x) = x"
  obtains (missed) q where "queue = Some q" and "pop_attempt t e q = Failed q"
    | (asleep) q where "queue = Some q" and "pop_attempt t e q = Blocked"
    | (taken) q q' x xs' b where "queue = Some q" and "pop_attempt t e q = Got b q'" and "unbytes b = x"
        and "xs = x # xs'" and "holds isz bytes (Some q') xs'"
proof -
  obtain q where q: "queue = Some q" "pop_attempt t True q = Failed q"
    "case xs of [] \<Rightarrow> pop_attempt t False q = Blocked
         | x # xs' \<Rightarrow> \<exists>q'. pop_attempt t False q = Got (bytes x) q' \<and> holds isz bytes (Some q') xs'"
    by (rule holds_pop [OF assms(1), of t])
  show thesis
  proof (cases e)
    case True
    with q(1,2) show thesis by (intro missed [of q]) simp_all
  next
    case False
    show thesis
    proof (cases xs)
      case Nil
      with q(1,3) False show thesis by (intro asleep [of q]) simp_all
    next
      case (Cons x xs')
      with q(3) obtain q' where "pop_attempt t False q = Got (bytes x) q'" "holds isz bytes (Some q') xs'"
        by auto
      with q(1) Cons False assms(2) show thesis by (intro taken [of q "bytes x" q' x xs']) simp_all
    qed
  qed
qed

text \<open>A pop of the processor, entered or resumed.\<close>

lemma processor_pop_flow:
  assumes K: "host_ok K" and step: "processor_pop K e s = Some (pat', s', out)"
    and pat: "pat = EP_Pop \<or> pat = EP_Wait"
    and c: "contents K s xs fs" and g: "all_genuine K sat pat lat xs fs"
  shows "\<exists>xs'. contents K s' xs' fs \<and> all_genuine K sat pat' lat xs' fs \<and> out = []
    \<and> (flow od cm k s sat pat lat os xs fs \<longrightarrow> flow od cm (Suc k) s' sat pat' lat os xs' fs)"
proof -
  have h: "holds (sizeof_sample K) (sample_bytes K) (sensor_queue s) xs"
    using c by (simp add: contents_def)
  have d: "\<forall>x \<in> set xs. sample_of K (sample_bytes K x) = x"
    using g genuine_bytes(1) [OF K] by (auto simp: all_genuine_def list_all_iff)
  show ?thesis
  proof (cases rule: pop_flow [OF h d, where t = 250 and e = e, case_names missed asleep taken])
    case (missed q)
    with step c g pat show ?thesis
      by (intro exI [of _ xs]) (auto simp: processor_pop_def all_genuine_def flow_def books_def
          host_pipeline_def in_sequence_keep)
  next
    case (asleep q)
    with step show ?thesis by (simp add: processor_pop_def)
  next
    case (taken q q' x xs' b)
    with step c g pat show ?thesis
      by (intro exI [of _ xs']) (auto simp: processor_pop_def contents_def all_genuine_def flow_def
          books_def host_pipeline_def in_sequence_keep algebra_simps)
  qed
qed

lemma processor_flow:
  assumes K: "host_ok K" and now: "clock_ok now"
    and step: "prvProcessorThread K now e pat s = Some (pat', s', out)"
    and c: "contents K s xs fs" and g: "all_genuine K sat pat lat xs fs"
  shows "\<exists>xs' fs'. contents K s' xs' fs' \<and> all_genuine K sat pat' lat xs' fs' \<and> host_logged out = []
    \<and> list_all (genuine_line K) out
    \<and> (flow od cm k s sat pat lat os xs fs \<longrightarrow> flow od cm (Suc k) s' sat pat' lat (os @ out) xs' fs')"
proof -
  consider (pop) "(pat = EP_Pop \<and> processor_pop K False s \<noteq> None) \<or> pat = EP_Wait"
    | (sleep) "pat = EP_Pop" "processor_pop K False s = None"
    | (push) f where "pat = EP_Push f"
    | (other) "pat \<noteq> EP_Pop" "pat \<noteq> EP_Wait" "\<nexists>f. pat = EP_Push f" by blast
  then show ?thesis
  proof cases
    case pop
    then obtain e' where "processor_pop K e' s = Some (pat', s', out)" "pat = EP_Pop \<or> pat = EP_Wait"
      using step by (auto split: option.splits)
    from processor_pop_flow [OF K this c g, of od cm k os] obtain xs' where
      "contents K s' xs' fs" "all_genuine K sat pat' lat xs' fs" "out = []"
      "flow od cm k s sat pat lat os xs fs \<longrightarrow> flow od cm (Suc k) s' sat pat' lat os xs' fs" by blast
    then show ?thesis by (intro exI [of _ xs'] exI [of _ fs]) simp
  next
    case sleep
    with step c g show ?thesis
      by (auto simp: flow_def books_def host_pipeline_def all_genuine_def in_sequence_keep intro!: exI [of _ xs] exI [of _ fs])
  next
    case (push f)
    have "holds (sizeof_frame K) (frame_bytes K) (telemetry_queue s) fs"
      using c by (simp add: contents_def)
    from holds_push [OF this genuine_bytes(4) [OF K]] obtain ok q ev
      where p: "queue_push (telemetry_queue s) (Some (frame_bytes K f)) = (ok, q, ev)"
        and h: "holds (sizeof_frame K) (frame_bytes K) q (if ok then fs @ [f] else fs)"
      by metis
    from step p push have e: "pat' = (if ok then EP_Update f else EP_Drop)"
      "s' = s\<lparr>telemetry_queue := q\<rparr>" "out = []" by auto
    show ?thesis
    proof (intro exI [of _ xs] exI [of _ "if ok then fs @ [f] else fs"] conjI impI)
      show "contents K s' xs (if ok then fs @ [f] else fs)"
        using c h by (simp add: contents_def e)
      show "all_genuine K sat pat' lat xs (if ok then fs @ [f] else fs)"
        using g by (simp add: all_genuine_def e push)
      show "host_logged out = []" "list_all (genuine_line K) out" by (simp_all add: e)
      assume f: "flow od cm k s sat pat lat os xs fs"
      have "od \<longrightarrow> in_sequence (Suc k) (sim_sequence s) (host_pipeline sat pat' lat os xs (if ok then fs @ [f] else fs))"
        using f in_sequence_drop [of k "sim_sequence s"
            "host_logged os @ map hf_sequence (logger_frames lat) @ map hf_sequence fs" "hf_sequence f"
            "map hs_sequence xs @ sensor_hand sat"]
        by (auto simp: flow_def host_pipeline_def e push dest: in_sequence_keep)
      moreover have "cm \<longrightarrow> books s' sat pat' lat os xs (if ok then fs @ [f] else fs)"
        using f by (auto simp: flow_def books_def e push algebra_simps)
      ultimately show "flow od cm (Suc k) s' sat pat' lat (os @ out) xs (if ok then fs @ [f] else fs)"
        by (simp add: flow_def e)
    qed
  next
    case other
    show ?thesis
    proof (intro exI [of _ xs] exI [of _ fs] conjI impI)
      show "contents K s' xs fs"
        using step c other by (cases pat) (auto simp: contents_def)
      show "all_genuine K sat pat' lat xs fs"
        using step g other now by (cases pat) (auto simp: all_genuine_def host_genuine_processed)
      show q: "host_logged out = []"
        using step other by (cases pat) (auto simp: prvLog_def host_logged_def)
      then show "list_all (genuine_line K) out"
        by (auto simp: list_all_iff genuine_line_def host_logged_def)
      assume f: "flow od cm k s sat pat lat os xs fs"
      have "od \<longrightarrow> in_sequence (Suc k) (sim_sequence s') (host_pipeline sat pat' lat (os @ out) xs fs)"
        using step f other q by (cases pat) (auto simp: flow_def host_pipeline_def in_sequence_keep)
      moreover have "cm \<longrightarrow> books s' sat pat' lat (os @ out) xs fs"
        using step f other q by (cases pat) (auto simp: flow_def books_def algebra_simps)
      ultimately show "flow od cm (Suc k) s' sat pat' lat (os @ out) xs fs" by (simp add: flow_def)
    qed
  qed
qed

lemma logger_pop_flow:
  assumes K: "host_ok K" and step: "logger_pop K e s = Some (lat', s', out)"
    and lat: "lat = EL_Pop \<or> lat = EL_Wait"
    and c: "contents K s xs fs" and g: "all_genuine K sat pat lat xs fs"
  shows "\<exists>fs'. contents K s' xs fs' \<and> all_genuine K sat pat lat' xs fs' \<and> out = []
    \<and> (flow od cm k s sat pat lat os xs fs \<longrightarrow> flow od cm (Suc k) s' sat pat lat' os xs fs')"
proof -
  have h: "holds (sizeof_frame K) (frame_bytes K) (telemetry_queue s) fs"
    using c by (simp add: contents_def)
  have d: "\<forall>f \<in> set fs. frame_of K (frame_bytes K f) = f"
    using g genuine_bytes(2) [OF K] by (auto simp: all_genuine_def list_all_iff)
  show ?thesis
  proof (cases rule: pop_flow [OF h d, where t = 300 and e = e, case_names missed asleep taken])
    case (missed q)
    with step c g lat show ?thesis
      by (intro exI [of _ fs]) (auto simp: logger_pop_def all_genuine_def flow_def books_def
          host_pipeline_def in_sequence_keep)
  next
    case (asleep q)
    with step show ?thesis by (simp add: logger_pop_def)
  next
    case (taken q q' f fs' b)
    with step c g lat show ?thesis
      by (intro exI [of _ fs']) (auto simp: logger_pop_def contents_def all_genuine_def flow_def
          books_def host_pipeline_def in_sequence_keep algebra_simps)
  qed
qed

lemma logger_flow:
  assumes K: "host_ok K" and step: "prvLoggerThread K now e lat s = Some (lat', s', out)"
    and c: "contents K s xs fs" and g: "all_genuine K sat pat lat xs fs"
  shows "\<exists>fs'. contents K s' xs fs' \<and> all_genuine K sat pat lat' xs fs' \<and> list_all (genuine_line K) out
    \<and> (flow od cm k s sat pat lat os xs fs \<longrightarrow> flow od cm (Suc k) s' sat pat lat' (os @ out) xs fs')"
proof -
  consider (pop) "(lat = EL_Pop \<and> logger_pop K False s \<noteq> None) \<or> lat = EL_Wait"
    | (sleep) "lat = EL_Pop" "logger_pop K False s = None"
    | (other) "lat \<noteq> EL_Pop" "lat \<noteq> EL_Wait" by blast
  then show ?thesis
  proof cases
    case pop
    then obtain e' where "logger_pop K e' s = Some (lat', s', out)" "lat = EL_Pop \<or> lat = EL_Wait"
      using step by (auto split: option.splits)
    from logger_pop_flow [OF K this c g, of od cm k os] obtain fs' where
      "contents K s' xs fs'" "all_genuine K sat pat lat' xs fs'" "out = []"
      "flow od cm k s sat pat lat os xs fs \<longrightarrow> flow od cm (Suc k) s' sat pat lat' os xs fs'" by blast
    then show ?thesis by (intro exI [of _ fs']) simp
  next
    case sleep
    with step c g show ?thesis
      by (auto simp: flow_def books_def host_pipeline_def all_genuine_def in_sequence_keep intro!: exI [of _ fs])
  next
    case other
    show ?thesis
    proof (intro exI [of _ fs] conjI impI)
      show "contents K s' xs fs"
        using step c other by (cases lat) (auto simp: contents_def)
      show "all_genuine K sat pat lat' xs fs"
        using step g other by (cases lat) (auto simp: all_genuine_def)
      show "list_all (genuine_line K) out"
        using step g other by (cases lat) (auto simp: all_genuine_def genuine_line_def)
      assume f: "flow od cm k s sat pat lat os xs fs"
      have "od \<longrightarrow> in_sequence (Suc k) (sim_sequence s') (host_pipeline sat pat lat' (os @ out) xs fs)"
        using step f other by (cases lat) (auto simp: flow_def host_pipeline_def host_logged_def in_sequence_keep)
      moreover have "cm \<longrightarrow> books s' sat pat lat' (os @ out) xs fs"
        using step f other by (cases lat) (auto simp: flow_def books_def host_logged_def algebra_simps)
      ultimately show "flow od cm (Suc k) s' sat pat lat' (os @ out) xs fs" by (simp add: flow_def)
    qed
  qed
qed

text \<open>The watchdog touches neither the queues nor the counts of the flow.\<close>

definition same_flow :: "'f EcuSim \<Rightarrow> 'f EcuSim \<Rightarrow> bool" where
  "same_flow s t \<longleftrightarrow> sim_sequence t = sim_sequence s \<and> sensor_queue t = sensor_queue s
     \<and> telemetry_queue t = telemetry_queue s
     \<and> sn_sensor_samples (snapshot t) = sn_sensor_samples (snapshot s)
     \<and> sn_sensor_drops (snapshot t) = sn_sensor_drops (snapshot s)
     \<and> sn_telemetry_frames (snapshot t) = sn_telemetry_frames (snapshot s)
     \<and> sn_telemetry_drops (snapshot t) = sn_telemetry_drops (snapshot s)"

lemma same_flow_contents: "same_flow s t \<Longrightarrow> contents K t xs fs = contents K s xs fs"
  by (simp add: same_flow_def contents_def)

lemma same_flow_flow:
  "same_flow s t \<Longrightarrow> host_logged out = [] \<Longrightarrow> flow od cm k s sat pat lat os xs fs
    \<Longrightarrow> flow od cm (Suc k) t sat pat lat (os @ out) xs fs"
  unfolding flow_def
  by (intro conjI; simp add: same_flow_def host_pipeline_def in_sequence_keep; simp add: books_def)

lemma warn_same_flow:
  "prvWarnIfOverdue now wat s = Some (wat', s', out) \<Longrightarrow> same_flow s s' \<and> host_logged out = []"
  by (cases "(now, wat, s)" rule: prvWarnIfOverdue.cases)
    (auto simp: same_flow_def prvLog_def host_logged_def Let_def)

lemma watchdog_same_flow:
  "prvWatchdogThread now wat s = Some (wat', s', out) \<Longrightarrow> same_flow s s' \<and> host_logged out = []"
  by (cases wat) (auto simp: same_flow_def dest: warn_same_flow)

subsection \<open>The whole program\<close>

definition sys_flow :: "'f host \<Rightarrow> nat \<Rightarrow> bool \<Rightarrow> bool \<Rightarrow> 'f host_sys \<Rightarrow> bool" where
  "sys_flow K k od cm y \<longleftrightarrow> list_all (genuine_line K) (outs y) \<and> (od \<longrightarrow> sorted_wrt (<) (host_logged (outs y))) \<and>
     (\<forall>s. sim y = Some s \<longrightarrow>
        (\<exists>xs fs. contents K s xs fs \<and> all_genuine K (sensor_at y) (processor_at y) (logger_at y) xs fs
           \<and> (flow od cm k s (sensor_at y) (processor_at y) (logger_at y) (outs y) xs fs)))"

lemma flow_log_sorted: "flow od cm k s sat pat lat os xs fs \<Longrightarrow> od \<Longrightarrow> sorted_wrt (<) (host_logged os)"
  by (simp add: flow_def in_sequence_def host_pipeline_def sorted_wrt_append)

lemma sys_flowI:
  assumes "sim y = Some s" and "contents K s xs fs"
    and "all_genuine K (sensor_at y) (processor_at y) (logger_at y) xs fs"
    and "list_all (genuine_line K) (outs y)"
    and "flow od cm k s (sensor_at y) (processor_at y) (logger_at y) (outs y) xs fs"
  shows "sys_flow K k od cm y"
  using assms by (auto simp: sys_flow_def dest: flow_log_sorted)

lemma thread_sys_flow:
  assumes K: "host_ok K" and now: "clock_ok now" and step: "thread_step K task now e y = Some y'"
    and f: "sys_flow K k od cm y" and k: "k < 2 ^ 64 - 1"
  shows "sys_flow K (Suc k) od cm y'"
proof -
  obtain s where s: "sim y = Some s"
    using step by (cases "sim y") (auto simp: thread_step_def)
  obtain xs fs where c: "contents K s xs fs"
    and g: "all_genuine K (sensor_at y) (processor_at y) (logger_at y) xs fs"
    and fl: "flow od cm k s (sensor_at y) (processor_at y) (logger_at y) (outs y) xs fs"
    and o: "list_all (genuine_line K) (outs y)"
    using f s by (auto simp: sys_flow_def)
  show ?thesis
  proof (cases task)
    case TASK_SENSOR
    then obtain at s' out where t: "prvSensorThread K now (sensor_at y) s = Some (at, s', out)"
      and y': "y' = y\<lparr>sim := Some s', sensor_at := at, outs := outs y @ out\<rparr>"
      using step s by (auto simp: thread_step_def)
    from sensor_flow [OF K now t c g, of od cm k "outs y"] fl k obtain xs' where "contents K s' xs' fs"
      "all_genuine K at (processor_at y) (logger_at y) xs' fs" "list_all (genuine_line K) out"
      "flow od cm (Suc k) s' at (processor_at y) (logger_at y) (outs y @ out) xs' fs" by blast
    with o show ?thesis by (intro sys_flowI [of _ s' K xs' fs]) (simp_all add: y')
  next
    case TASK_PROCESSOR
    then obtain at s' out where t: "prvProcessorThread K now e (processor_at y) s = Some (at, s', out)"
      and y': "y' = y\<lparr>sim := Some s', processor_at := at, outs := outs y @ out\<rparr>"
      using step s by (auto simp: thread_step_def)
    from processor_flow [OF K now t c g, of od cm k "outs y"] fl obtain xs' fs' where
      "contents K s' xs' fs'" "all_genuine K (sensor_at y) at (logger_at y) xs' fs'"
      "list_all (genuine_line K) out"
      "flow od cm (Suc k) s' (sensor_at y) at (logger_at y) (outs y @ out) xs' fs'" by blast
    with o show ?thesis by (intro sys_flowI [of _ s' K xs' fs']) (simp_all add: y')
  next
    case TASK_LOGGER
    then obtain at s' out where t: "prvLoggerThread K now e (logger_at y) s = Some (at, s', out)"
      and y': "y' = y\<lparr>sim := Some s', logger_at := at, outs := outs y @ out\<rparr>"
      using step s by (auto simp: thread_step_def)
    from logger_flow [OF K t c g, of od cm k "outs y"] fl obtain fs' where
      "contents K s' xs fs'" "all_genuine K (sensor_at y) (processor_at y) at xs fs'"
      "list_all (genuine_line K) out"
      "flow od cm (Suc k) s' (sensor_at y) (processor_at y) at (outs y @ out) xs fs'" by blast
    with o show ?thesis by (intro sys_flowI [of _ s' K xs fs']) (simp_all add: y')
  next
    case TASK_WATCHDOG
    then obtain at s' out where t: "prvWatchdogThread now (watchdog_at y) s = Some (at, s', out)"
      and y': "y' = y\<lparr>sim := Some s', watchdog_at := at, outs := outs y @ out\<rparr>"
      using step s by (auto simp: thread_step_def)
    note w = watchdog_same_flow [OF t]
    have "list_all (genuine_line K) out"
      using w by (auto simp: list_all_iff genuine_line_def host_logged_def)
    with w c g fl o same_flow_contents [of s s' K xs fs] same_flow_flow [of s s' out od cm k] show ?thesis
      by (intro sys_flowI [of _ s' K xs fs]) (simp_all add: y')
  qed
qed

text \<open>The actions that clear counters or queues; any other keeps the books.\<close>

definition disturbing :: "ecu_action set" where
  "disturbing = {A_Init_snapshot, A_Clear_sensor_queue, A_Clear_telemetry_queue}"

lemma sys_flow_mono:
  assumes "sys_flow K k od cm y"
  shows "sys_flow K (Suc k) od cm y"
  unfolding sys_flow_def
proof (intro conjI allI impI)
  show "list_all (genuine_line K) (outs y)" using assms by (simp add: sys_flow_def)
  show "sorted_wrt (<) (host_logged (outs y))" if od using assms that by (simp add: sys_flow_def)
  fix s assume "sim y = Some s"
  with assms obtain xs fs where "contents K s xs fs"
    "all_genuine K (sensor_at y) (processor_at y) (logger_at y) xs fs"
    "flow od cm k s (sensor_at y) (processor_at y) (logger_at y) (outs y) xs fs"
    by (auto simp: sys_flow_def)
  then show "\<exists>xs fs. contents K s xs fs \<and> all_genuine K (sensor_at y) (processor_at y) (logger_at y) xs fs
      \<and> (flow od cm (Suc k) s (sensor_at y) (processor_at y) (logger_at y) (outs y) xs fs)"
    by (intro exI [of _ xs] exI [of _ fs]) (simp add: flow_def in_sequence_keep)
qed

lemma same_flow_fields:
  "same_flow s (s\<lparr>stop_requested := b\<rparr>)" "same_flow s (s\<lparr>running := b\<rparr>)"
  "same_flow s (s\<lparr>started := b\<rparr>)" "same_flow s (prvClearBeats s)"
  "same_flow s (s\<lparr>sim_fault_mode := mode, snapshot := (snapshot s)\<lparr>sn_fault_mode := mode\<rparr>\<rparr>)"
  by (simp_all add: same_flow_def prvClearBeats_def)

lemma same_flow_eq:
  assumes "same_flow s t"
  shows "contents K t xs fs = contents K s xs fs"
    and "flow od cm k t sat pat lat os xs fs = flow od cm k s sat pat lat os xs fs"
  using assms by (simp_all add: same_flow_def contents_def flow_def books_def)

lemma sys_flow_update:
  assumes "sim y = Some s" and "sys_flow K k od cm y" and "same_flow s s'"
  shows "sys_flow K k od cm (y\<lparr>sim := Some s'\<rparr>)"
  using assms by (auto simp: sys_flow_def same_flow_eq [OF assms(3)])

lemma spawn_flow:
  assumes "thread_returned t y"
  shows "all_genuine K (sensor_at (spawn t y)) (processor_at (spawn t y)) (logger_at (spawn t y)) xs fs
      = all_genuine K (sensor_at y) (processor_at y) (logger_at y) xs fs"
    and "flow od cm k s (sensor_at (spawn t y)) (processor_at (spawn t y)) (logger_at (spawn t y)) os xs fs
      = flow od cm k s (sensor_at y) (processor_at y) (logger_at y) os xs fs"
  using assms by (cases t; simp add: all_genuine_def flow_def host_pipeline_def books_def)+

lemma spawn_outs: "outs (spawn t y) = outs y"
  by (cases t) simp_all

lemma action_sys_flow:
  assumes step: "do_ecu_action K e y = Some y'" and f: "sys_flow K k od cm y"
    and sp: "\<And>t. e = A_Spawn t \<Longrightarrow> thread_returned t y"
  shows "sys_flow K k (od \<and> e \<noteq> A_Init_snapshot) (cm \<and> e \<notin> disturbing) y'"
proof -
  obtain s where s: "sim y = Some s"
    using step by (cases "sim y") (auto simp: do_ecu_action_def)
  obtain xs fs where c: "contents K s xs fs"
    and g: "all_genuine K (sensor_at y) (processor_at y) (logger_at y) xs fs"
    and fl: "flow od cm k s (sensor_at y) (processor_at y) (logger_at y) (outs y) xs fs"
    and o: "list_all (genuine_line K) (outs y)"
    using f s by (auto simp: sys_flow_def)
  show ?thesis
  proof (cases e)
    case A_Clear_sensor_queue
    have "contents K (s\<lparr>sensor_queue := fst (queue_clear (sensor_queue s))\<rparr>) [] fs"
      using c holds_clear by (auto simp: contents_def)
    moreover have "all_genuine K (sensor_at y) (processor_at y) (logger_at y) [] fs"
      using g by (simp add: all_genuine_def)
    moreover have "od \<longrightarrow> in_sequence k (sim_sequence s)
        (host_pipeline (sensor_at y) (processor_at y) (logger_at y) (outs y) [] fs)"
      using fl in_sequence_without [of k "sim_sequence s"
          "host_logged (outs y) @ map hf_sequence (logger_frames (logger_at y)) @ map hf_sequence fs
            @ map hf_sequence (processor_frames (processor_at y))
            @ map hs_sequence (processor_samples (processor_at y))"
          "map hs_sequence xs" "sensor_hand (sensor_at y)"]
      by (auto simp: flow_def host_pipeline_def)
    ultimately show ?thesis
      using step s o A_Clear_sensor_queue
      by (intro sys_flowI [where xs = "[]" and fs = fs]) (auto simp: do_ecu_action_def disturbing_def flow_def)
  next
    case A_Clear_telemetry_queue
    have "contents K (s\<lparr>telemetry_queue := fst (queue_clear (telemetry_queue s))\<rparr>) xs []"
      using c holds_clear by (auto simp: contents_def)
    moreover have "all_genuine K (sensor_at y) (processor_at y) (logger_at y) xs []"
      using g by (simp add: all_genuine_def)
    moreover have "od \<longrightarrow> in_sequence k (sim_sequence s)
        (host_pipeline (sensor_at y) (processor_at y) (logger_at y) (outs y) xs [])"
      using fl in_sequence_without [of k "sim_sequence s"
          "host_logged (outs y) @ map hf_sequence (logger_frames (logger_at y))" "map hf_sequence fs"]
      by (auto simp: flow_def host_pipeline_def)
    ultimately show ?thesis
      using step s o A_Clear_telemetry_queue
      by (intro sys_flowI [where xs = xs and fs = "[]"]) (auto simp: do_ecu_action_def disturbing_def flow_def)
  next
    case A_Init_snapshot
    have "contents K ((prvInitSnapshot K s)\<lparr>sim_sequence := 0, sim_speed_kmh := v\<rparr>) xs fs" for v
      using c by (simp add: contents_def prvInitSnapshot_def)
    then show ?thesis
      using step s o g A_Init_snapshot
      by (intro sys_flowI [where xs = xs and fs = fs]) (auto simp: do_ecu_action_def disturbing_def flow_def)
  next
    case (A_Spawn t)
    with step s have "y' = spawn t y" by (simp add: do_ecu_action_def)
    then show ?thesis
      using sp [OF A_Spawn] s c g fl o
      by (intro sys_flowI [where xs = xs and fs = fs])
        (simp_all add: spawn_flow spawn_outs [of t y] A_Spawn disturbing_def)
  next
    case A_Release
    with step s f show ?thesis by (auto simp: sys_flow_def do_ecu_action_def)
  next
    case (A_Join t)
    with step s f show ?thesis by (auto simp: do_ecu_action_def disturbing_def split: if_splits)
  next
    case (A_Stop_requested b)
    with step s f show ?thesis
      by (auto simp: do_ecu_action_def disturbing_def intro!: sys_flow_update [OF s] same_flow_fields)
  next
    case (A_Running b)
    with step s f show ?thesis
      by (auto simp: do_ecu_action_def disturbing_def intro!: sys_flow_update [OF s] same_flow_fields)
  next
    case (A_Started b)
    with step s f show ?thesis
      by (auto simp: do_ecu_action_def disturbing_def intro!: sys_flow_update [OF s] same_flow_fields)
  next
    case A_Clear_beats
    with step s f show ?thesis
      by (auto simp: do_ecu_action_def disturbing_def intro!: sys_flow_update [OF s] same_flow_fields)
  next
    case (A_Set_fault mode)
    with step s f show ?thesis
      by (auto simp: do_ecu_action_def disturbing_def intro!: sys_flow_update [OF s] same_flow_fields)
  qed
qed

text \<open>What the main thread prints is never a telemetry line.\<close>

fun no_telemetry :: "'f main_action \<Rightarrow> bool" where
  "no_telemetry (M_Out x) = (line_seq x = [])"
| "no_telemetry a = True"

lemma line_seq_line [simp]: "take 2 (fmt @ [LF]) \<noteq> ''[t'' \<Longrightarrow> line_seq (line_of fmt args) = []"
  by (simp add: line_of_def not_telemetry)

lemma no_telemetry_list [simp]:
  "list_all no_telemetry (map M_Do es)" "list_all no_telemetry (main_loop)"
  "list_all no_telemetry main_shutdown" "list_all no_telemetry (map M_Out (show_view K w n))"
  by (simp_all add: list_all_iff main_loop_def main_shutdown_def)
    (cases w; simp add: print_status_def print_tasks_def print_heap_def print_stats_def)

lemma no_telemetry_command [simp]: "list_all no_telemetry (main_command line)"
  by (simp add: main_command_def print_help_def Let_def)

definition program_flow :: "'f host \<Rightarrow> nat \<Rightarrow> 'f program \<Rightarrow> bool" where
  "program_flow K k p \<longleftrightarrow> sys_flow K k (A_Init_snapshot \<notin> set (performed p)) (set (performed p) \<inter> disturbing = {}) (sys p)
     \<and> list_all no_telemetry (todo p) \<and> program_ok p"

lemma main_sys_flow:
  assumes step: "main_step K p = Some p'" and f: "program_flow K k p"
  shows "sys_flow K k (A_Init_snapshot \<notin> set (performed p')) (set (performed p') \<inter> disturbing = {}) (sys p')"
    and "list_all no_telemetry (todo p')"
proof -
  obtain a rest where t: "todo p = a # rest"
    using step by (cases "todo p") (auto simp: main_step_def)
  note F = f [unfolded program_flow_def]
  have "sys_flow K k (A_Init_snapshot \<notin> set (performed p')) (set (performed p') \<inter> disturbing = {}) (sys p') \<and> list_all no_telemetry (todo p')"
  proof (cases a)
    case (M_Do e)
    then obtain y where y: "do_ecu_action K e (sys p) = Some y"
      and p': "p' = p\<lparr>sys := y, todo := rest, performed := performed p @ [e]\<rparr>"
      using step t by (auto simp: main_step_def)
    have "thread_returned u (sys p)" if "e = A_Spawn u" for u
      using F t M_Do that
      by (auto simp: program_ok_def next_phase_def do_phase_def dest: spec [of _ TASK_WATCHDOG] split: if_splits)
    from action_sys_flow [OF y _ this] F
    have "sys_flow K k (A_Init_snapshot \<notin> set (performed p) \<and> e \<noteq> A_Init_snapshot)
        (set (performed p) \<inter> disturbing = {} \<and> e \<notin> disturbing) y" by blast
    then show ?thesis using F t M_Do p' by (simp add: conj_commute neq_commute)
  next
    case (M_Out x)
    with step t F show ?thesis
      by (auto simp: main_step_def sys_flow_def flow_def host_pipeline_def books_def host_logged_def genuine_line_def)
  next
    case M_Read
    with step t F show ?thesis
      by (cases "fgets 256 (stdin p)") (auto simp: main_step_def main_line_def)
  qed (use step t F in \<open>auto simp: main_step_def\<close>)
  then show "sys_flow K k (A_Init_snapshot \<notin> set (performed p')) (set (performed p') \<inter> disturbing = {}) (sys p')"
    and "list_all no_telemetry (todo p')" by simp_all
qed

fun turn_ok :: "turn \<Rightarrow> bool" where
  "turn_ok Main = True"
| "turn_ok (Thread task now e) = clock_ok now"

lemma host_step_flow:
  assumes "host_ok K" and "host_step K t p = Some p'" and "turn_ok t" and "program_flow K k p"
    and "k < 2 ^ 64 - 1"
  shows "program_flow K (Suc k) p'"
proof (cases t)
  case Main
  then have "main_step K p = Some p'" using assms(2) by (simp split: if_splits)
  from main_sys_flow [OF this assms(4)] show ?thesis
    using assms(2,4) host_step_keeps_phase by (auto simp: program_flow_def intro: sys_flow_mono)
next
  case (Thread task now e)
  with assms thread_sys_flow [OF assms(1)] show ?thesis
    using host_step_keeps_phase [OF assms(2)] by (auto simp: program_flow_def split: if_splits)
qed

lemma host_run_flow:
  "host_ok K \<Longrightarrow> host_run K ts p = Some p' \<Longrightarrow> list_all turn_ok ts \<Longrightarrow> program_flow K k p
    \<Longrightarrow> k + length ts < 2 ^ 64 \<Longrightarrow> program_flow K (k + length ts) p'"
proof (induction ts arbitrary: p k)
  case Nil
  then show ?case by simp
next
  case (Cons t ts)
  then obtain p1 where s: "host_step K t p = Some p1" and r: "host_run K ts p1 = Some p'"
    by (auto split: option.splits)
  have "program_flow K (Suc k) p1"
    using host_step_flow [OF Cons.prems(1) s _ Cons.prems(4)] Cons.prems by simp
  from Cons.IH [OF Cons.prems(1) r _ this] Cons.prems show ?case by simp
qed

lemma host_main_flow: "program_flow K 0 (host_main K env inp)"
proof -
  obtain r rel where c: "ecu_create K env = (r, rel)" by (cases "ecu_create K env")
  show ?thesis
  proof (cases r)
    case None
    with c host_main_ok [of K env inp] show ?thesis
      by (simp add: program_flow_def host_main_def sys_flow_def not_telemetry)
  next
    case (Some s)
    from ecu_create_cases [OF c [unfolded Some]] obtain sq tq where
      q: "queue_create (sensor_queue_env env) (Some ''sensor'') (sizeof_sample K) 24 = (Some sq, [])"
         "queue_create (telemetry_queue_env env) (Some ''telemetry'') (sizeof_frame K) 24 = (Some tq, [])"
      and s: "s = (calloc_EcuSim K)\<lparr>sensor_queue := Some sq, telemetry_queue := Some tq,
            snapshot := zero_snapshot K\<rparr>" and rel: "rel = []"
      by blast
    have "contents K s [] []"
      using queue_create_ok(1,2) [OF q(1)] queue_create_ok(1,2) [OF q(2)]
      by (simp add: contents_def holds_def s)
    moreover have "flow True True 0 s ES_Return EP_Return EL_Return [] [] []"
      by (simp add: flow_def in_sequence_def host_pipeline_def books_def s calloc_EcuSim_def zero_snapshot_def)
    ultimately have "sys_flow K 0 True True (sys (host_main K env inp))"
      using c Some by (intro sys_flowI [where xs = "[]" and fs = "[]"])
        (simp_all add: host_main_def all_genuine_def)
    then show ?thesis
      using c Some host_main_ok [of K env inp] by (simp add: program_flow_def host_main_def not_telemetry)
  qed
qed

subsection \<open>Properties\<close>

lemma host_run_sys_flow:
  assumes "host_ok K" and "host_run K ts (host_main K env inp) = Some p" and "list_all turn_ok ts"
    and "length ts < 2 ^ 64"
  shows "sys_flow K (length ts) (A_Init_snapshot \<notin> set (performed p)) (set (performed p) \<inter> disturbing = {}) (sys p)"
  using host_run_flow [OF assms(1,2,3) host_main_flow] assms(4) by (simp add: program_flow_def)

lemma books_total:
  "books s sat pat lat os xs fs \<Longrightarrow>
     sim_sequence s = sn_sensor_drops (snapshot s) + owed_sensor_drops sat
       + sn_telemetry_drops (snapshot s) + owed_telemetry_drops pat
       + of_nat (length (host_pipeline sat pat lat os xs fs))"
  by (simp add: books_def host_pipeline_def algebra_simps)

text \<open>C25: Nothing is lost or counted twice on the way through the host simulator. In every state that
  the program reaches, whatever the order of the threads, as long as nobody has reset the counters or
  cleared a queue: the numbers drawn are the two drop counters plus everything that was logged or is
  still in the pipeline; the samples counted are those that were queued; the frames counted those
  that were queued for the logger (each counter up to the step that its thread is about to make).\<close>

theorem host_samples_accounted:
  assumes "host_ok K" and "host_run K ts (host_main K env inp) = Some p" and "list_all turn_ok ts"
    and "length ts < 2 ^ 64" and "sim (sys p) = Some s" and "set (performed p) \<inter> disturbing = {}"
  shows "\<exists>xs fs. contents K s xs fs
    \<and> books s (sensor_at (sys p)) (processor_at (sys p)) (logger_at (sys p)) (outs (sys p)) xs fs
    \<and> sim_sequence s = sn_sensor_drops (snapshot s) + owed_sensor_drops (sensor_at (sys p))
        + sn_telemetry_drops (snapshot s) + owed_telemetry_drops (processor_at (sys p))
        + of_nat (length (host_pipeline (sensor_at (sys p)) (processor_at (sys p)) (logger_at (sys p))
            (outs (sys p)) xs fs))"
proof -
  obtain xs fs where c: "contents K s xs fs" and f: "flow (A_Init_snapshot \<notin> set (performed p)) True
      (length ts) s (sensor_at (sys p)) (processor_at (sys p)) (logger_at (sys p)) (outs (sys p)) xs fs"
    using host_run_sys_flow [OF assms(1-4)] assms(5,6) by (auto simp: sys_flow_def)
  from f have "books s (sensor_at (sys p)) (processor_at (sys p)) (logger_at (sys p)) (outs (sys p)) xs fs"
    by (simp add: flow_def)
  with c books_total [OF this] show ?thesis by blast
qed

text \<open>C26: The log of the host simulator. At every moment of a run without a reset, until the end and
  over the clearing of the queues at the stop, the telemetry lines carry strictly increasing sequence
  numbers; and every telemetry line, in any run, is that of a frame computed from a generated sample.\<close>

theorem host_log_in_order:
  assumes "host_ok K" and "host_run K ts (host_main K env inp) = Some p" and "list_all turn_ok ts"
    and "length ts < 2 ^ 64"
  shows "(A_Init_snapshot \<notin> set (performed p) \<longrightarrow> sorted_wrt (<) (host_logged (outs (sys p))))
    \<and> list_all (genuine_line K) (outs (sys p))"
  using host_run_sys_flow [OF assms] by (simp add: sys_flow_def)

text \<open>Both queues hold at most 24 messages in every reachable state, and what they hold are the
  bytes of generated samples and of frames computed from them.\<close>

theorem host_queues_bounded:
  assumes "host_ok K" and "host_run K ts (host_main K env inp) = Some p" and "list_all turn_ok ts"
    and "length ts < 2 ^ 64" and "sim (sys p) = Some s"
  shows "queue_count (sensor_queue s) \<le> 24 \<and> queue_count (telemetry_queue s) \<le> 24
    \<and> (\<exists>xs fs. contents K s xs fs \<and> list_all (host_genuine_sample K) xs \<and> list_all (host_genuine_frame K) fs)"
proof -
  obtain xs fs where c: "contents K s xs fs"
    and g: "all_genuine K (sensor_at (sys p)) (processor_at (sys p)) (logger_at (sys p)) xs fs"
    using host_run_sys_flow [OF assms(1-4)] assms(5) by (auto simp: sys_flow_def)
  from c g show ?thesis
    using holds_length [of "sizeof_sample K" "sample_bytes K" "sensor_queue s" xs]
      holds_length [of "sizeof_frame K" "frame_bytes K" "telemetry_queue s" fs]
    by (auto simp: contents_def all_genuine_def)
qed

text \<open>A run up to the first number drawn: the start, and five steps of the sensor thread.\<close>

definition first_draw :: "turn list" where
  "first_draw = [Main, Main, Main, Main, Main, Main, Main, Main] @
     [Thread TASK_SENSOR zero_time False, Thread TASK_SENSOR zero_time False,
      Thread TASK_SENSOR zero_time False, Thread TASK_SENSOR zero_time False,
      Thread TASK_SENSOR zero_time False]"

lemma first_draw_ok: "list_all turn_ok first_draw" "length first_draw < 2 ^ 64"
  by (simp_all add: first_draw_def clock_ok_def zero_time_def)

lemma draw_at_once:
  assumes "\<not> started s" and "sim_fault_mode s = FAULT_NONE" and "sim_sequence s = 0"
  shows "\<exists>p t. host_run K first_draw
      \<lparr>sys = \<lparr>sim = Some s, sensor_at = ES_Return, processor_at = EP_Return, logger_at = EL_Return,
              watchdog_at = EW_Return, outs = [], released = []\<rparr>,
       stdin = [],
       todo = [M_Call C_start, M_Out a, M_Out b] @ main_loop,
       performed = [], returned = None\<rparr> = Some p
    \<and> sim (sys p) = Some t \<and> sim_sequence t = 1 \<and> sn_sensor_drops (snapshot t) = sn_sensor_drops (snapshot s)
    \<and> sn_telemetry_drops (snapshot t) = sn_telemetry_drops (snapshot s)
    \<and> sensor_at (sys p) = ES_Make (Single FAULT_NONE) 1 \<and> processor_at (sys p) = EP_Start
    \<and> outs (sys p) = [] \<and> set (performed p) \<inter> disturbing = {}"
  using assms
  by (simp add: first_draw_def main_step_def ecu_start_def do_ecu_action_def thread_step_def
      ecu_get_fault_def prvBeat_def Let_def disturbing_def)

lemma small_draw:
  "\<exists>p t. host_run small_host first_draw (host_main small_host ecu_env_ok []) = Some p
    \<and> sim (sys p) = Some t \<and> sim_sequence t = 1 \<and> sn_sensor_drops (snapshot t) = 0
    \<and> sn_telemetry_drops (snapshot t) = 0
    \<and> sensor_at (sys p) = ES_Make (Single FAULT_NONE) 1 \<and> processor_at (sys p) = EP_Start
    \<and> outs (sys p) = [] \<and> set (performed p) \<inter> disturbing = {}"
proof -
  obtain s where c: "ecu_create small_host ecu_env_ok = (Some s, [])" using small_create by blast
  from ecu_create_cases [OF c] obtain sq tq where s:
    "s = (calloc_EcuSim small_host)\<lparr>sensor_queue := Some sq, telemetry_queue := Some tq,
            snapshot := zero_snapshot small_host\<rparr>" by blast
  have f: "\<not> started s" "sim_fault_mode s = FAULT_NONE" "sim_sequence s = 0"
    and z: "sn_sensor_drops (snapshot s) = 0" "sn_telemetry_drops (snapshot s) = 0"
    by (simp_all add: s calloc_EcuSim_def zero_snapshot_def)
  show ?thesis
    unfolding host_main_created [OF c] using draw_at_once [OF f] unfolding z by blast
qed

theorem host_samples_accounted_witness:
  "\<exists>p xs fs. host_run small_host first_draw (host_main small_host ecu_env_ok []) = Some p
    \<and> of_nat (length (host_pipeline (sensor_at (sys p)) (processor_at (sys p)) (logger_at (sys p))
          (outs (sys p)) xs fs)) = (1 :: u64)"
proof -
  obtain p t where r: "host_run small_host first_draw (host_main small_host ecu_env_ok []) = Some p"
    and t: "sim (sys p) = Some t" "sim_sequence t = 1" "sn_sensor_drops (snapshot t) = 0"
      "sn_telemetry_drops (snapshot t) = 0" "sensor_at (sys p) = ES_Make (Single FAULT_NONE) 1"
      "processor_at (sys p) = EP_Start" "set (performed p) \<inter> disturbing = {}"
    using small_draw by blast
  from host_samples_accounted [OF small_host_ok r first_draw_ok t(1,7)] t r show ?thesis by auto
qed

theorem host_queues_bounded_witness:
  "\<exists>p s. host_run small_host first_draw (host_main small_host ecu_env_ok []) = Some p
    \<and> sim (sys p) = Some s \<and> queue_count (sensor_queue s) \<le> 24"
proof -
  obtain p t where r: "host_run small_host first_draw (host_main small_host ecu_env_ok []) = Some p"
    and t: "sim (sys p) = Some t"
    using small_draw by blast
  from host_queues_bounded [OF small_host_ok r first_draw_ok t] r t show ?thesis by blast
qed

text \<open>A run of the start and one sample, up to its line in the log.\<close>

definition first_line :: "turn list" where
  "first_line = [Main, Main, Main, Main, Main, Main, Main, Main] @
     map (\<lambda>t. Thread t zero_time False)
       [TASK_SENSOR, TASK_SENSOR, TASK_SENSOR, TASK_SENSOR, TASK_SENSOR, TASK_SENSOR, TASK_SENSOR,
        TASK_PROCESSOR, TASK_PROCESSOR, TASK_PROCESSOR, TASK_PROCESSOR, TASK_PROCESSOR, TASK_PROCESSOR,
        TASK_LOGGER, TASK_LOGGER, TASK_LOGGER, TASK_LOGGER]"

definition calm_sample :: "'f host \<Rightarrow> 'f HostSample" where
  "calm_sample K = prvMakeSensorSample K zero_time (calloc_EcuSim K) 1"

lemma make_calm:
  "sim_fault_mode s = FAULT_NONE \<Longrightarrow> prvMakeSensorSample K zero_time s 1 = calm_sample K"
  by (simp add: calm_sample_def prvMakeSensorSample_def ecu_get_fault_def calloc_EcuSim_def)

lemma log_at_once:
  assumes K: "host_ok K" and c: "contents K s [] []" and s: "\<not> started s" "sim_fault_mode s = FAULT_NONE" "sim_sequence s = 0"
  defines "f \<equiv> host_prvProcessSample K zero_time (calm_sample K)"
  shows "\<exists>p. host_run K first_line
      \<lparr>sys = \<lparr>sim = Some s, sensor_at = ES_Return, processor_at = EP_Return, logger_at = EL_Return,
              watchdog_at = EW_Return, outs = [], released = []\<rparr>,
       stdin = [],
       todo = [M_Call C_start, M_Out a, M_Out b] @ main_loop,
       performed = [], returned = None\<rparr> = Some p
    \<and> outs (sys p) = [telemetry_line f] \<and> set (performed p) \<inter> disturbing = {}"
proof -
  have g: "host_genuine_sample K (calm_sample K)"
    unfolding calm_sample_def by (rule host_genuine_made) (simp add: clock_ok_def zero_time_def)
  then have gf: "host_genuine_frame K f"
    unfolding f_def by (rule host_genuine_processed [rotated]) (simp add: clock_ok_def zero_time_def)
  have hs: "holds (sizeof_sample K) (sample_bytes K) (sensor_queue s) []"
    and hf: "holds (sizeof_frame K) (frame_bytes K) (telemetry_queue s) []"
    using c by (simp_all add: contents_def)
  obtain b1 q1 ev1 where "queue_push (sensor_queue s) (Some (sample_bytes K (calm_sample K))) = (b1, q1, ev1)"
    and "b1 \<longleftrightarrow> length ([] :: 'a HostSample list) < 24"
    and "holds (sizeof_sample K) (sample_bytes K) q1 (if b1 then [] @ [calm_sample K] else [])"
    by (rule holds_push [OF hs genuine_bytes(3) [OF K], of "calm_sample K"])
  then have p1: "queue_push (sensor_queue s) (Some (sample_bytes K (calm_sample K))) = (True, q1, ev1)"
    and h1: "holds (sizeof_sample K) (sample_bytes K) q1 [calm_sample K]" by simp_all
  obtain q2 q2' where q1: "q1 = Some q2" and p2: "pop_attempt 250 False q2 = Got (sample_bytes K (calm_sample K)) q2'"
    by (rule holds_pop [OF h1, of 250]) auto
  obtain b3 q3 ev3 where "queue_push (telemetry_queue s) (Some (frame_bytes K f)) = (b3, q3, ev3)"
    and "b3 \<longleftrightarrow> length ([] :: 'a HostFrame list) < 24"
    and "holds (sizeof_frame K) (frame_bytes K) q3 (if b3 then [] @ [f] else [])"
    by (rule holds_push [OF hf genuine_bytes(4) [OF K], of f])
  then have p3: "queue_push (telemetry_queue s) (Some (frame_bytes K f)) = (True, q3, ev3)"
    and h3: "holds (sizeof_frame K) (frame_bytes K) q3 [f]" by simp_all
  obtain q4 q4' where q3: "q3 = Some q4" and p4: "pop_attempt 300 False q4 = Got (frame_bytes K f) q4'"
    by (rule holds_pop [OF h3, of 300]) auto

  show ?thesis
    using s p1 p3 q1 q3 p2 p4
    by (simp add: first_line_def main_step_def ecu_start_def do_ecu_action_def thread_step_def
      ecu_get_fault_def prvBeat_def Let_def disturbing_def make_calm processor_pop_def logger_pop_def
      genuine_bytes(1) [OF K g] genuine_bytes(2) [OF K gf] f_def [symmetric])
qed

lemma first_line_ok: "list_all turn_ok first_line" "length first_line < 2 ^ 64"
  by (simp_all add: first_line_def clock_ok_def zero_time_def)

lemma small_line:
  "\<exists>p f. host_run small_host first_line (host_main small_host ecu_env_ok []) = Some p
    \<and> outs (sys p) = [telemetry_line f] \<and> set (performed p) \<inter> disturbing = {}"
proof -
  obtain s where c: "ecu_create small_host ecu_env_ok = (Some s, [])" using small_create by blast
  from ecu_create_cases [OF c] obtain sq tq where
    q: "queue_create (sensor_queue_env ecu_env_ok) (Some ''sensor'') (sizeof_sample small_host) 24 = (Some sq, [])"
       "queue_create (telemetry_queue_env ecu_env_ok) (Some ''telemetry'') (sizeof_frame small_host) 24 = (Some tq, [])"
    and s: "s = (calloc_EcuSim small_host)\<lparr>sensor_queue := Some sq, telemetry_queue := Some tq,
            snapshot := zero_snapshot small_host\<rparr>"
    by blast
  have n: "contents small_host s [] []"
    using queue_create_ok(1,2) [OF q(1)] queue_create_ok(1,2) [OF q(2)]
    by (simp add: contents_def holds_def s)
  have f: "\<not> started s" "sim_fault_mode s = FAULT_NONE" "sim_sequence s = 0"
    by (simp_all add: s calloc_EcuSim_def)
  show ?thesis
    unfolding host_main_created [OF c] using log_at_once [OF small_host_ok n f] by blast
qed

theorem host_log_in_order_witness:
  "\<exists>p f. host_run small_host first_line (host_main small_host ecu_env_ok []) = Some p
    \<and> outs (sys p) = [telemetry_line f] \<and> genuine_line small_host (telemetry_line f)"
proof -
  obtain p f where r: "host_run small_host first_line (host_main small_host ecu_env_ok []) = Some p"
    and o: "outs (sys p) = [telemetry_line f]"
    using small_line by blast
  from host_log_in_order [OF small_host_ok r first_line_ok] r o show ?thesis by auto
qed

end
