(* ===== verification/EcuApi.thy ===== *)
theory EcuApi
  imports EcuFlow
begin

text \<open>
  What the operations of the host simulator do: creation with its error paths, reset, the age that
  the watchdog computes and what it does with it, the range of the throttle, and the command line.
\<close>

subsection \<open>Creation\<close>

lemma count_list_map_release [simp]:
  "count_list (map Queue_release xs) (Queue_release x) = count_list xs x"
  "count_list (map Queue_release xs) Free_sim = 0"
  by (induction xs) simp_all

text \<open>How often the blocks of a queue were allocated, out of an attempt to create it.\<close>

definition queue_blocks :: "create_env \<Rightarrow> nat" where
  "queue_blocks env = (if calloc_queue env then 1 else 0)"

definition storage_blocks :: "create_env \<Rightarrow> nat" where
  "storage_blocks env = (if calloc_queue env \<and> calloc_storage env then 1 else 0)"

lemma queue_create_frees:
  assumes "queue_create env nm isz cap = (q, r)" and "0 < isz" and "0 < cap"
  shows "count_list (r @ queue_destroy q) Free_queue = queue_blocks env"
    and "count_list (r @ queue_destroy q) Free_storage = storage_blocks env"
  using assms
  by (auto simp: queue_create_def queue_destroy_def queue_blocks_def storage_blocks_def Let_def split: if_splits)

definition mutexes_ok :: "ecu_env \<Rightarrow> bool" where
  "mutexes_ok env \<longleftrightarrow> state_mutex_init env = 0 \<and> log_mutex_init env = 0 \<and> beat_mutex_init env = 0"

lemma ecu_create_fails:
  assumes "fst (ecu_create K env) = None" and "calloc_sim env" and "0 < sizeof_sample K" and "0 < sizeof_frame K"
  defines "rel \<equiv> snd (ecu_create K env)"
  shows "count_list rel Free_sim = 1"
    and "count_list rel (Queue_release Free_queue) = (if mutexes_ok env
           then queue_blocks (sensor_queue_env env) + queue_blocks (telemetry_queue_env env) else 0)"
    and "count_list rel (Queue_release Free_storage) = (if mutexes_ok env
           then storage_blocks (sensor_queue_env env) + storage_blocks (telemetry_queue_env env) else 0)"
    and "{Destroy_state_mutex, Destroy_log_mutex, Destroy_beat_mutex} \<subseteq> set rel"
proof -
  obtain sq sr where sq: "queue_create (sensor_queue_env env) (Some ''sensor'') (sizeof_sample K) 24 = (sq, sr)"
    by fastforce
  obtain tq tr where tq: "queue_create (telemetry_queue_env env) (Some ''telemetry'') (sizeof_frame K) 24 = (tq, tr)"
    by fastforce
  note f = queue_create_frees [OF sq assms(3)] queue_create_frees [OF tq assms(4)]
  have "rel = (if mutexes_ok env
      then map Queue_release (sr @ tr) @ ecu_release_all ((calloc_EcuSim K)\<lparr>sensor_queue := sq, telemetry_queue := tq\<rparr>)
      else ecu_release_all (calloc_EcuSim K))"
    using assms(1,2) sq tq by (auto simp: rel_def ecu_create_def mutexes_ok_def Let_def split: if_splits)
  then show "count_list rel Free_sim = 1"
    and "count_list rel (Queue_release Free_queue) = (if mutexes_ok env
           then queue_blocks (sensor_queue_env env) + queue_blocks (telemetry_queue_env env) else 0)"
    and "count_list rel (Queue_release Free_storage) = (if mutexes_ok env
           then storage_blocks (sensor_queue_env env) + storage_blocks (telemetry_queue_env env) else 0)"
    and "{Destroy_state_mutex, Destroy_log_mutex, Destroy_beat_mutex} \<subseteq> set rel"
    using f by (simp_all add: ecu_release_all_def calloc_EcuSim_def queue_destroy_def)
qed

text \<open>C27: The simulator is created exactly if the allocation, the three mutexes and both queues
  succeed, and then both queues are empty, all counters are zero and nothing was released. If
  anything after the first allocation fails, every block that was allocated is freed exactly once.
  The three mutexes are destroyed on that path even if they were never initialised.\<close>

theorem ecu_create_all_or_nothing:
  assumes "0 < sizeof_sample K" and "0 < sizeof_frame K"
  shows "(fst (ecu_create K env) \<noteq> None \<longleftrightarrow> calloc_sim env \<and> mutexes_ok env
        \<and> fst (queue_create (sensor_queue_env env) (Some ''sensor'') (sizeof_sample K) 24) \<noteq> None
        \<and> fst (queue_create (telemetry_queue_env env) (Some ''telemetry'') (sizeof_frame K) 24) \<noteq> None)
    \<and> (\<forall>s rel. ecu_create K env = (Some s, rel) \<longrightarrow>
          contents K s [] [] \<and> snapshot s = zero_snapshot K \<and> \<not> started s \<and> rel = [])
    \<and> (fst (ecu_create K env) = None \<and> calloc_sim env \<longrightarrow>
         count_list (snd (ecu_create K env)) Free_sim = 1
       \<and> count_list (snd (ecu_create K env)) (Queue_release Free_queue) = (if mutexes_ok env
           then queue_blocks (sensor_queue_env env) + queue_blocks (telemetry_queue_env env) else 0)
       \<and> count_list (snd (ecu_create K env)) (Queue_release Free_storage) = (if mutexes_ok env
           then storage_blocks (sensor_queue_env env) + storage_blocks (telemetry_queue_env env) else 0)
       \<and> {Destroy_state_mutex, Destroy_log_mutex, Destroy_beat_mutex} \<subseteq> set (snd (ecu_create K env)))"
proof (intro conjI allI impI)
  show "fst (ecu_create K env) \<noteq> None \<longleftrightarrow> calloc_sim env \<and> mutexes_ok env
        \<and> fst (queue_create (sensor_queue_env env) (Some ''sensor'') (sizeof_sample K) 24) \<noteq> None
        \<and> fst (queue_create (telemetry_queue_env env) (Some ''telemetry'') (sizeof_frame K) 24) \<noteq> None"
    by (auto simp: ecu_create_def mutexes_ok_def Let_def split: prod.splits)
  fix s rel
  assume "ecu_create K env = (Some s, rel)"
  from ecu_create_cases [OF this] obtain sq tq where
    q: "queue_create (sensor_queue_env env) (Some ''sensor'') (sizeof_sample K) 24 = (Some sq, [])"
       "queue_create (telemetry_queue_env env) (Some ''telemetry'') (sizeof_frame K) 24 = (Some tq, [])"
    and s: "s = (calloc_EcuSim K)\<lparr>sensor_queue := Some sq, telemetry_queue := Some tq,
            snapshot := zero_snapshot K\<rparr>" and rel: "rel = []"
    by blast
  show "contents K s [] []"
    using queue_create_ok(1,2) [OF q(1)] queue_create_ok(1,2) [OF q(2)]
    by (simp add: contents_def holds_def s)
  show "snapshot s = zero_snapshot K" "\<not> started s" "rel = []"
    by (simp_all add: s rel calloc_EcuSim_def)
qed (use ecu_create_fails [of K env] assms in simp_all)

theorem ecu_create_all_or_nothing_witness:
  "count_list (snd (ecu_create small_host (ecu_env_ok\<lparr>telemetry_queue_env := env_ok\<lparr>calloc_storage := False\<rparr>\<rparr>)))
     (Queue_release Free_queue) = 2"
proof -
  let ?env = "ecu_env_ok\<lparr>telemetry_queue_env := env_ok\<lparr>calloc_storage := False\<rparr>\<rparr>"
  have "fst (ecu_create small_host ?env) = None"
    by (simp add: ecu_create_def ecu_env_ok_def queue_create_def env_ok_def small_host_def Let_def split: prod.splits)
  moreover have "0 < sizeof_sample small_host" "0 < sizeof_frame small_host"
    using small_host_ok by (simp_all add: host_ok_def)
  ultimately show ?thesis
    using ecu_create_all_or_nothing [of small_host ?env]
    by (simp add: mutexes_ok_def queue_blocks_def ecu_env_ok_def env_ok_def)
qed

subsection \<open>Reset\<close>

fun run_ecu_actions :: "'f host \<Rightarrow> ecu_action list \<Rightarrow> 'f host_sys \<Rightarrow> 'f host_sys option" where
  "run_ecu_actions K [] y = Some y"
| "run_ecu_actions K (e # es) y =
     (case do_ecu_action K e y of None \<Rightarrow> None | Some y' \<Rightarrow> run_ecu_actions K es y')"

text \<open>C28: A reset that nobody interferes with never waits; afterwards both queues are empty, the sequence
  starts again at 1, and the snapshot that a caller gets is all zero except for the fault mode, which
  stays. The watchdog skips every check until the task in question beats again.\<close>

theorem ecu_reset_effect:
  assumes "sim y = Some s" and "contents K s xs fs"
  shows "\<exists>y' t. run_ecu_actions K (ecu_reset (sim y)) y = Some y' \<and> sim y' = Some t
    \<and> contents K t [] [] \<and> sim_sequence t = 0
    \<and> ecu_snapshot (sim y') = Some ((zero_snapshot K)\<lparr>sn_fault_mode := sim_fault_mode s\<rparr>)
    \<and> sim_fault_mode t = sim_fault_mode s
    \<and> (\<forall>now w ws. prvWarnIfOverdue now (EW_Look (w # ws)) t = Some (next_watch ws, t, []))"
proof -
  have c: "holds (sizeof_sample K) (sample_bytes K) (fst (queue_clear (sensor_queue s))) []"
    "holds (sizeof_frame K) (frame_bytes K) (fst (queue_clear (telemetry_queue s))) []"
    using assms(2) holds_clear by (auto simp: contents_def)
  have d: "queue_count (fst (queue_clear (sensor_queue s))) = 0"
    "queue_count (fst (queue_clear (telemetry_queue s))) = 0"
    using holds_length [OF c(1)] holds_length [OF c(2)] by simp_all
  show ?thesis
    using c d
    by (simp add: assms(1) ecu_reset_def do_ecu_action_def contents_def prvInitSnapshot_def prvClearBeats_def
        ecu_snapshot_def with_depths_def zero_snapshot_def)
qed

theorem ecu_reset_effect_witness:
  "\<exists>y y'. run_ecu_actions small_host (ecu_reset (sim y)) y = Some y' \<and> sim y \<noteq> None
    \<and> ecu_snapshot (sim y') = Some (zero_snapshot small_host)"
proof -
  obtain s where c: "ecu_create small_host ecu_env_ok = (Some s, [])" using small_create by blast
  have p: "0 < sizeof_sample small_host" "0 < sizeof_frame small_host"
    using small_host_ok by (simp_all add: host_ok_def)
  let ?y = "sys (host_main small_host ecu_env_ok [])"
  have y: "sim ?y = Some s" by (simp add: host_main_created [OF c])
  from ecu_create_cases [OF c] obtain sq tq where
    q: "queue_create (sensor_queue_env ecu_env_ok) (Some ''sensor'') (sizeof_sample small_host) 24 = (Some sq, [])"
       "queue_create (telemetry_queue_env ecu_env_ok) (Some ''telemetry'') (sizeof_frame small_host) 24 = (Some tq, [])"
    and s: "s = (calloc_EcuSim small_host)\<lparr>sensor_queue := Some sq, telemetry_queue := Some tq,
            snapshot := zero_snapshot small_host\<rparr>"
    by blast
  have "contents small_host s [] []"
    using queue_create_ok(1,2) [OF q(1)] queue_create_ok(1,2) [OF q(2)]
    by (simp add: contents_def holds_def s)
  from ecu_reset_effect [OF y this] obtain y' where
    "run_ecu_actions small_host (ecu_reset (sim ?y)) ?y = Some y'"
    "ecu_snapshot (sim y') = Some ((zero_snapshot small_host)\<lparr>sn_fault_mode := sim_fault_mode s\<rparr>)"
    by blast
  moreover have "(zero_snapshot small_host)\<lparr>sn_fault_mode := sim_fault_mode s\<rparr> = zero_snapshot small_host"
    by (simp add: s calloc_EcuSim_def zero_snapshot_def)
  ultimately show ?thesis using y by (intro exI [of _ ?y] exI [of _ y']) simp
qed

subsection \<open>The watchdog\<close>

definition elapsed_ns :: "timespec \<Rightarrow> timespec \<Rightarrow> int" where
  "elapsed_ns a b = (tv_sec a - tv_sec b) * 1000000000 + (tv_nsec a - tv_nsec b)"

text \<open>The age in milliseconds is off by less than one, up if the nanoseconds borrow and down if not.\<close>

lemma prvDiffMs_bounds:
  "prvDiffMs a b * 1000000 < elapsed_ns a b + 1000000"
  "elapsed_ns a b < prvDiffMs a b * 1000000 + 1000000"
  by (cases "0 \<le> tv_nsec a - tv_nsec b"; simp add: prvDiffMs_def elapsed_ns_def Let_def c_arith; linarith)+

text \<open>One check of the watchdog. A task that has not beaten since the start or the last reset is
  skipped. Otherwise a beat that is no older than the deadline, to the nanosecond, never raises a
  warning; one that is at least a millisecond older always does; the warning is counted once and its
  line gives the delay with an error of less than a millisecond.\<close>

theorem watchdog_check:
  "prvWarnIfOverdue t (EW_Look (w # ws)) s =
      Some (if beat_initialized s (watched w) then EW_Age (w # ws) (last_beat s (watched w))
            else next_watch ws, s, [])
    \<and> (if elapsed_ns now beat \<le> deadline_ms w * 1000000
       then prvWarnIfOverdue now (EW_Age (w # ws) beat) s = Some (next_watch ws, s, [])
       else if (deadline_ms w + 1) * 1000000 \<le> elapsed_ns now beat
       then \<exists>age s'. prvWarnIfOverdue now (EW_Age (w # ws) beat) s = Some (EW_Count (w # ws) age, s, [])
          \<and> prvWarnIfOverdue t' (EW_Count (w # ws) age) s = Some (EW_Log (w # ws) age, s', [])
          \<and> sn_watchdog_warnings (snapshot s') = sn_watchdog_warnings (snapshot s) + 1 \<and> same_flow s s'
          \<and> prvWarnIfOverdue t'' (EW_Log (w # ws) age) s' = Some (next_watch ws, s',
              [Printf host_warning_fmt [C_string (watch_name w), C_long (age - deadline_ms w)], newline])
          \<and> \<bar>(age - deadline_ms w) * 1000000 - (elapsed_ns now beat - deadline_ms w * 1000000)\<bar> < 1000000
       else True)"
  using prvDiffMs_bounds [of now beat]
  by (auto simp: Let_def same_flow_def prvLog_def algebra_simps)

subsection \<open>The throttle\<close>

text \<open>
  What the C standard says of \<open>fmin\<close> and \<open>fmax\<close> where their first argument is a number, in terms of
  the order of the numbers; the second argument may be anything, a NaN included.
\<close>

definition min_max_ok :: "('f \<Rightarrow> 'f \<Rightarrow> bool) \<Rightarrow> 'f host \<Rightarrow> bool" where
  "min_max_ok le K \<longleftrightarrow> (\<forall>x. le (fp_fmin K (fp_lit K 1000 1) x) (fp_lit K 1000 1))
     \<and> (\<forall>x. le (fp_lit K 0 1) (fp_fmax K (fp_lit K 0 1) x))
     \<and> (\<forall>x. fp_fmax K (fp_lit K 0 1) x = fp_lit K 0 1 \<or> fp_fmax K (fp_lit K 0 1) x = x)
     \<and> le (fp_lit K 0 1) (fp_lit K 1000 1)"

text \<open>The throttle of every telemetry line that the host program ever prints is between 0 and 100 per
  cent, whatever the arithmetic of the platform gives for the sum, as long as its minimum and maximum
  keep the C standard.\<close>

theorem logged_throttle_in_range:
  assumes "host_ok K" and "min_max_ok le K" and "host_run K ts (host_main K env inp) = Some p"
    and "list_all turn_ok ts" and "length ts < 2 ^ 64" and "x \<in> set (outs (sys p))" and "line_seq x \<noteq> []"
  shows "\<exists>f. x = telemetry_line f \<and> le (fp_lit K 0 1) (hf_throttle_pct f)
    \<and> le (hf_throttle_pct f) (fp_lit K 1000 1)"
proof -
  have "genuine_line K x"
    using host_run_sys_flow [OF assms(1,3-5)] assms(6) by (auto simp: sys_flow_def list_all_iff)
  with assms(7) obtain f now y where x: "x = telemetry_line f" and f: "f = host_prvProcessSample K now y"
    by (auto simp: genuine_line_def host_genuine_frame_def)
  let ?s = "fp_fmin K (fp_lit K 1000 1) (fp_add K (fp_add K (fp_lit K 120 1)
    (fp_mul K (fp_sqrt K (fp_add K (fp_add K (fp_mul K (hs_accel_x y) (hs_accel_x y))
       (fp_mul K (hs_accel_y y) (hs_accel_y y))) (fp_mul K (hs_accel_z y) (hs_accel_z y)))) (fp_lit K 140 1)))
    (fp_div K (hs_temperature_c y) (fp_lit K 60 1)))"
  have "hf_throttle_pct f = fp_fmax K (fp_lit K 0 1) ?s"
    by (simp add: f host_prvProcessSample_def Let_def)
  moreover have "le (fp_lit K 0 1) (fp_fmax K (fp_lit K 0 1) ?s)" "le ?s (fp_lit K 1000 1)"
    "fp_fmax K (fp_lit K 0 1) ?s = fp_lit K 0 1 \<or> fp_fmax K (fp_lit K 0 1) ?s = ?s"
    "le (fp_lit K 0 1) (fp_lit K 1000 1)"
    using assms(2) unfolding min_max_ok_def by blast+
  ultimately show ?thesis using x by (intro exI [of _ f]) auto
qed

lemma small_min_max: "min_max_ok (\<le>) small_host"
  by (auto simp: min_max_ok_def small_host_def max_def)

theorem logged_throttle_in_range_witness:
  "\<exists>p f. host_run small_host first_line (host_main small_host ecu_env_ok []) = Some p
    \<and> outs (sys p) = [telemetry_line f] \<and> hf_throttle_pct f \<le> 100"
proof -
  obtain p f where r: "host_run small_host first_line (host_main small_host ecu_env_ok []) = Some p"
    and o: "outs (sys p) = [telemetry_line f]"
    using small_line by blast
  from logged_throttle_in_range [OF small_host_ok small_min_max r first_line_ok, of "telemetry_line f"] o
  obtain g where "telemetry_line f = telemetry_line g" "hf_throttle_pct g \<le> fp_lit small_host 1000 1"
    by auto
  then have "hf_throttle_pct f \<le> 100"
    by (simp add: telemetry_line_def small_host_def)
  with r o show ?thesis by blast
qed

subsection \<open>The command line\<close>

definition line_end :: "char \<Rightarrow> bool" where
  "line_end c \<longleftrightarrow> c = LF \<or> c = CR"

lemma trim_loop_spec:
  "n \<le> length s \<Longrightarrow> trim_loop s n = rev (dropWhile line_end (rev (take n s)))"
proof (induction n)
  case 0
  then show ?case by simp
next
  case (Suc n)
  then have t: "take (Suc n) s = take n s @ [s ! n]" by (simp add: take_Suc_conv_app_nth)
  show ?case
    using Suc by (auto simp: t line_end_def)
qed

lemma fgets_chars_spec:
  "fgets_chars n inp = (buf, rest) \<Longrightarrow>
     inp = buf @ rest \<and> length buf \<le> n \<and> LF \<notin> set (butlast buf)
   \<and> (0 < n \<longrightarrow> inp \<noteq> [] \<longrightarrow> buf \<noteq> []) \<and> (length buf < n \<and> rest \<noteq> [] \<longrightarrow> last buf = LF)"
  by (induction n inp arbitrary: buf rest rule: fgets_chars.induct)
    (auto simp: apfst_def map_prod_def split: if_splits prod.splits)

lemma lowercase_map: "lowercase s = map tolower s"
  by (induction s) simp_all

text \<open>The command that a line of input stands for, whatever the length of the line and however it
  ends: \<open>fgets\<close> takes between 1 and 255 characters, through the first newline at most, and
  leaves the rest to be read next, so that nothing is lost and a longer line is read as several
  commands; the command is what stands before the first NUL, without the line ends that close it, in
  lower case.\<close>

theorem host_line_command:
  assumes "fgets 256 inp = Some (buf, rest)"
  shows "inp = buf @ rest \<and> 1 \<le> length buf \<and> length buf \<le> 255 \<and> LF \<notin> set (butlast buf)
    \<and> (length buf < 255 \<and> rest \<noteq> [] \<longrightarrow> last buf = LF)
    \<and> main_line buf = (main_command (map tolower (rev (dropWhile line_end (rev
         (takeWhile (\<lambda>c. c \<noteq> CHR 0x00) buf))))) :: 'f main_action list)"
proof -
  have n: "inp \<noteq> []" and f: "fgets_chars 255 inp = (buf, rest)"
    using assms by (auto simp: fgets_def split: if_splits)
  from fgets_chars_spec [OF f] n show ?thesis
    by (cases buf) (auto simp: main_line_def trim_newline_def trim_loop_spec lowercase_map)
qed

theorem host_line_command_witness:
  "(main_line (''FAULT Sensor'' @ [CR, LF]) :: u8 main_action list) =
     [M_Call (C_set_fault FAULT_SENSOR_FAILURE),
      M_Out (Printf (''Fault mode set to %s.'' @ [LF]) [C_string ''sensor-failure'']),
      M_Out (Fputs ''ecu> ''), M_Read]"
proof -
  have f: "fgets 256 (''FAULT Sensor'' @ [CR, LF] @ ''quit'') = Some (''FAULT Sensor'' @ [CR, LF], ''quit'')"
    by code_simp
  have l: "map tolower (rev (dropWhile line_end (rev (takeWhile (\<lambda>c. c \<noteq> CHR 0x00) (''FAULT Sensor'' @ [CR, LF])))))
      = ''fault sensor''"
    by code_simp
  show ?thesis
    using host_line_command [OF f, where 'f = u8] unfolding l
    by (simp add: main_command_def parse_fault_def main_loop_def line_of_def)
qed

text \<open>A fault command with any word that is not one of the three fault names switches the faults off
  and reports success: \<open>fault overflw\<close> clears the fault that was set, like \<open>fault none\<close>.\<close>

theorem fault_word_ignored:
  assumes "w \<notin> {''overflow'', ''sensor'', ''process''}"
  shows "main_command (''fault '' @ w) = (main_command ''fault none'' :: 'f main_action list)
    \<and> hd (main_command (''fault '' @ w) :: 'f main_action list) = M_Call (C_set_fault FAULT_NONE)"
  using assms by (simp add: main_command_def parse_fault_def)

theorem fault_word_ignored_witness:
  "hd (main_command ''fault overflw'' :: u8 main_action list) = M_Call (C_set_fault FAULT_NONE)"
proof -
  have "''overflw'' \<notin> {''overflow'', ''sensor'', ''process''}" by simp
  from fault_word_ignored [OF this, where 'f = u8, THEN conjunct2] show ?thesis by simp
qed

end
