(* ===== verification/MiniPrintf.thy ===== *)
theory MiniPrintf
  imports Console
begin

text \<open>
  The formatter of the lm3s build, \<open>src/src/printf.c\<close>. Unlike the firmware's it writes through
  \<open>buf_putc\<close>, which counts every character and stores those that fit, so that the result is the length
  of the whole text. The buffer's cells are its first \<open>size\<close> characters, whatever they held. On the
  target \<open>long\<close>, \<open>int\<close> and pointers have 32 bits; the counter \<open>pos\<close> is a natural number, which is
  faithful up to 4 GiB of output. The type \<open>'d\<close> is \<open>double\<close>, with the operations of \<open>fmt_float\<close> as the
  fields of \<open>'d dbl\<close>; \<open>d_ulong\<close> is the conversion to \<open>unsigned long\<close>.
\<close>

record 'd dbl =
  d_negative :: "'d \<Rightarrow> bool"
  d_neg :: "'d \<Rightarrow> 'd"
  d_ulong :: "'d \<Rightarrow> u32"
  d_of_ulong :: "u32 \<Rightarrow> 'd"
  d_sub :: "'d \<Rightarrow> 'd \<Rightarrow> 'd"
  d_mul :: "'d \<Rightarrow> 'd \<Rightarrow> 'd"
  d_add :: "'d \<Rightarrow> 'd \<Rightarrow> 'd"
  d_half :: 'd

datatype 'd parg =
  PInt i32 | PUInt u32 | PLong i32 | PULong u32 | PPtr u32 | PStr "string option" | PDouble 'd

record pbuf =
  pb_cells :: string
  pb_pos :: nat

subsection \<open>The buffer\<close>

definition buf_putc :: "nat \<Rightarrow> pbuf \<Rightarrow> char \<Rightarrow> pbuf" where
  "buf_putc sz b c =
     (let b = (if pb_pos b + 1 < sz then b\<lparr>pb_cells := (pb_cells b)[pb_pos b := c]\<rparr> else b)
      in b\<lparr>pb_pos := pb_pos b + 1\<rparr>)"

text \<open>The loops \<open>for (i = 0; i < n; i++) buf_putc(c)\<close>, over a string, and over a digit array from its end.\<close>

fun putc_times :: "nat \<Rightarrow> pbuf \<Rightarrow> char \<Rightarrow> nat \<Rightarrow> pbuf" where
  "putc_times sz b c 0 = b"
| "putc_times sz b c (Suc n) = putc_times sz (buf_putc sz b c) c n"

fun putc_string :: "nat \<Rightarrow> pbuf \<Rightarrow> string \<Rightarrow> pbuf" where
  "putc_string sz b s =
     (if peek s \<noteq> NUL then putc_string sz (buf_putc sz b (peek s)) (tl s) else b)"

declare putc_string.simps [simp del]

fun putc_back :: "nat \<Rightarrow> pbuf \<Rightarrow> string \<Rightarrow> nat \<Rightarrow> pbuf" where
  "putc_back sz b tmp 0 = b"
| "putc_back sz b tmp (Suc i) = putc_back sz (buf_putc sz b (tmp ! i)) tmp i"

definition pad_count :: "int \<Rightarrow> nat \<Rightarrow> nat" where
  "pad_count width len = (if width > int len then nat (width - int len) else 0)"

definition buf_puts_n :: "nat \<Rightarrow> pbuf \<Rightarrow> string \<Rightarrow> int \<Rightarrow> bool \<Rightarrow> char \<Rightarrow> pbuf" where
  "buf_puts_n sz b s width left_align pad =
     (let n = pad_count width (length (up_to_nul s));
          b = (if \<not> left_align then putc_times sz b pad n else b);
          b = putc_string sz b s
      in if left_align then putc_times sz b CHR '' '' n else b)"

subsection \<open>Numbers\<close>

definition mp_digit :: "bool \<Rightarrow> nat \<Rightarrow> char" where
  "mp_digit upper d = (if d < 10 then char_of (48 + d) else char_of ((if upper then 65 else 97) + (d - 10)))"

text \<open>The digits from the least significant one; the code calls it with the bases 10 and 16 only.\<close>

fun mp_digits :: "bool \<Rightarrow> nat \<Rightarrow> nat \<Rightarrow> string" where
  "mp_digits upper base v =
     (if v = 0 \<or> base < 2 then [] else mp_digit upper (v mod base) # mp_digits upper base (v div base))"

declare mp_digits.simps [simp del]

definition fmt_uint :: "nat \<Rightarrow> pbuf \<Rightarrow> u32 \<Rightarrow> nat \<Rightarrow> bool \<Rightarrow> int \<Rightarrow> char \<Rightarrow> bool \<Rightarrow> pbuf" where
  "fmt_uint sz b val base upper width pad left_align =
     (let tmp = (if val = 0 then ''0'' else mp_digits upper base (unat val));
          n = pad_count width (length tmp);
          b = (if \<not> left_align then putc_times sz b pad n else b);
          b = putc_back sz b tmp (length tmp)
      in if left_align then putc_times sz b CHR '' '' n else b)"

text \<open>The fraction's digits, \<open>prec\<close> of them, from the least significant one.\<close>

fun frac_digits :: "nat \<Rightarrow> nat \<Rightarrow> string" where
  "frac_digits 0 v = []"
| "frac_digits (Suc i) v = char_of (48 + v mod 10) # frac_digits i (v div 10)"

definition fmt_float :: "'d dbl \<Rightarrow> nat \<Rightarrow> pbuf \<Rightarrow> 'd \<Rightarrow> int \<Rightarrow> pbuf" where
  "fmt_float D sz b val prec =
     (let prec = (if prec < 0 then 6 else prec);
          prec = (if prec > 9 then 9 else prec);
          (b, val) = (if d_negative D val then (buf_putc sz b CHR ''-'', d_neg D val) else (b, val));
          int_part = d_ulong D val;
          b = fmt_uint sz b int_part 10 False 0 CHR '' '' False;
          b = buf_putc sz b CHR ''.'';
          frac = d_sub D val (d_of_ulong D int_part);
          frac_int = d_ulong D (d_add D (d_mul D frac (d_of_ulong D (10 ^ nat prec))) (d_half D));
          tmp = frac_digits (nat prec) (unat frac_int)
      in putc_back sz b tmp (length tmp))"

subsection \<open>The format\<close>

text \<open>A decimal number in the format, in an \<open>int\<close>; a number of 2^31 or more overflows.\<close>

fun mp_number :: "int \<Rightarrow> string \<Rightarrow> c_ub + (int \<times> string)" where
  "mp_number width fmt =
     (if is_digit (peek fmt)
      then let w = width * 10 + (int (of_char (peek fmt)) - 48)
           in if w < 2 ^ 31 then mp_number w (tl fmt) else Inl SignedOverflow
      else Inr (width, fmt))"

declare mp_number.simps [simp del]

record directive =
  left_align :: bool
  dpad :: char
  dwidth :: int
  dprec :: int
  is_long :: bool

definition mp_directive :: "string \<Rightarrow> c_ub + (directive \<times> string)" where
  "mp_directive fmt =
     (let (left, fmt) = (if peek fmt = CHR ''-'' then (True, tl fmt) else (False, fmt));
          (pad, fmt) = (if peek fmt = CHR ''0'' then (CHR ''0'', tl fmt) else (CHR '' '', fmt))
      in case mp_number 0 fmt of
           Inl e \<Rightarrow> Inl e
         | Inr (width, fmt) \<Rightarrow>
             (case (if peek fmt = CHR ''.'' then mp_number 0 (tl fmt) else Inr (- 1, fmt)) of
                Inl e \<Rightarrow> Inl e
              | Inr (prec, fmt) \<Rightarrow>
                  (let (long, fmt) =
                     (if peek fmt = CHR ''l''
                      then (True, if peek (tl fmt) = CHR ''l'' then tl (tl fmt) else tl fmt)
                      else (False, fmt))
                   in Inr (\<lparr>left_align = left, dpad = pad, dwidth = width, dprec = prec, is_long = long\<rparr>, fmt))))"

text \<open>The arguments, at the types that the \<open>switch\<close> asks for.\<close>

fun arg_signed :: "bool \<Rightarrow> 'd parg list \<Rightarrow> (i32 \<times> 'd parg list) option" where
  "arg_signed True (PLong v # r) = Some (v, r)"
| "arg_signed False (PInt v # r) = Some (v, r)"
| "arg_signed _ _ = None"

fun arg_unsigned :: "bool \<Rightarrow> 'd parg list \<Rightarrow> (u32 \<times> 'd parg list) option" where
  "arg_unsigned True (PULong v # r) = Some (v, r)"
| "arg_unsigned False (PUInt v # r) = Some (v, r)"
| "arg_unsigned _ _ = None"

definition mp_conv :: "'d dbl \<Rightarrow> nat \<Rightarrow> directive \<Rightarrow> char \<Rightarrow> 'd parg list \<Rightarrow> pbuf \<Rightarrow>
    c_ub + ('d parg list \<times> pbuf)" where
  "mp_conv D sz d c args b =
     (if c = CHR ''d'' \<or> c = CHR ''i'' then
        (case arg_signed (is_long d) args of
           None \<Rightarrow> Inl BadVaArg
         | Some (v, r) \<Rightarrow>
             if sint v < 0 then
               if sint v = - (2 ^ 31) then Inl SignedOverflow
               else Inr (r, fmt_uint sz (buf_putc sz b CHR ''-'') (- v) 10 False
                         (if dwidth d > 0 then dwidth d - 1 else dwidth d) (dpad d) (left_align d))
             else Inr (r, fmt_uint sz b v 10 False (dwidth d) (dpad d) (left_align d)))
      else if c = CHR ''u'' \<or> c = CHR ''x'' \<or> c = CHR ''X'' then
        (case arg_unsigned (is_long d) args of
           None \<Rightarrow> Inl BadVaArg
         | Some (v, r) \<Rightarrow> Inr (r, fmt_uint sz b v (if c = CHR ''u'' then 10 else 16) (c = CHR ''X'')
                               (dwidth d) (dpad d) (left_align d)))
      else if c = CHR ''p'' then
        (case args of
           PPtr v # r \<Rightarrow> Inr (r, fmt_uint sz (buf_putc sz (buf_putc sz b CHR ''0'') CHR ''x'') v 16 False
                               8 CHR ''0'' False)
         | _ \<Rightarrow> Inl BadVaArg)
      else if c = CHR ''s'' then
        (case args of
           PStr s # r \<Rightarrow> Inr (r, buf_puts_n sz b (case s of None \<Rightarrow> ''(null)'' | Some t \<Rightarrow> t)
                               (dwidth d) (left_align d) (dpad d))
         | _ \<Rightarrow> Inl BadVaArg)
      else if c = CHR ''c'' then
        (case args of PInt v # r \<Rightarrow> Inr (r, buf_putc sz b (char_of (uint v))) | _ \<Rightarrow> Inl BadVaArg)
      else if c = CHR ''f'' then
        (case args of
           PDouble v # r \<Rightarrow> Inr (r, fmt_float D sz b v (if dprec d < 0 then 1 else dprec d))
         | _ \<Rightarrow> Inl BadVaArg)
      else if c = CHR ''%'' then Inr (args, buf_putc sz b CHR ''%'')
      else Inr (args, buf_putc sz (buf_putc sz b CHR ''%'') c))"

lemma mp_number_length: "mp_number w fmt = Inr (w', fmt') \<Longrightarrow> length fmt' \<le> length fmt"
  by (induction w fmt rule: mp_number.induct)
    (subst (asm) (2) mp_number.simps, auto simp: Let_def split: if_splits)

lemma mp_directive_length: "mp_directive fmt = Inr (d, fmt') \<Longrightarrow> length fmt' \<le> length fmt"
  by (auto simp: mp_directive_def Let_def split: if_splits sum.splits prod.splits dest!: mp_number_length)

lemma mp_advances:
  assumes "peek fmt \<noteq> NUL" and "Inr (d, fmt') = mp_directive (tl fmt)"
  shows "length fmt' - Suc 0 < length fmt"
  using mp_directive_length [of "tl fmt" d fmt'] assms peek_advances [of fmt] by simp

text \<open>
  The loop over the format. A format that ends right after a \<open>%\<close> ends the loop; one that ends inside a
  directive makes the default branch append the NUL, and \<open>fmt++\<close> then steps past it.
\<close>

function mp_loop :: "'d dbl \<Rightarrow> nat \<Rightarrow> string \<Rightarrow> 'd parg list \<Rightarrow> pbuf \<Rightarrow> c_ub + pbuf" where
  "mp_loop D sz fmt args b =
     (if peek fmt = NUL then Inr b
      else if peek fmt \<noteq> CHR ''%'' then mp_loop D sz (tl fmt) args (buf_putc sz b (peek fmt))
      else if peek (tl fmt) = NUL then Inr b
      else
        case mp_directive (tl fmt) of
          Inl e \<Rightarrow> Inl e
        | Inr (d, fmt') \<Rightarrow>
            (case mp_conv D sz d (peek fmt') args b of
               Inl e \<Rightarrow> Inl e
             | Inr (args', b') \<Rightarrow>
                 if fmt' = [] then Inl OverRead else mp_loop D sz (tl fmt') args' b'))"
  by pat_completeness auto
termination
proof (relation "measure (\<lambda>(D, sz, fmt, args, b). length fmt)", goal_cases)
  case 1
  then show ?case by simp
next
  case 2
  then show ?case by (simp add: peek_advances)
next
  case 3
  then show ?case by (auto intro: mp_advances)
qed

declare mp_loop.simps [simp del]

definition mini_vsnprintf :: "'d dbl \<Rightarrow> nat \<Rightarrow> string \<Rightarrow> string \<Rightarrow> 'd parg list \<Rightarrow> c_ub + (string \<times> nat)" where
  "mini_vsnprintf D sz garbage fmt args =
     (case mp_loop D sz fmt args \<lparr>pb_cells = garbage, pb_pos = 0\<rparr> of
        Inl e \<Rightarrow> Inl e
      | Inr b \<Rightarrow>
          Inr (if 0 < sz then (pb_cells b)[(if pb_pos b < sz then pb_pos b else sz - 1) := NUL]
               else pb_cells b, pb_pos b))"

definition mini_snprintf :: "'d dbl \<Rightarrow> nat \<Rightarrow> string \<Rightarrow> string \<Rightarrow> 'd parg list \<Rightarrow> c_ub + (string \<times> nat)" where
  "mini_snprintf D sz garbage fmt args = mini_vsnprintf D sz garbage fmt args"

subsection \<open>The buffer is a bounded sink\<close>

definition pb_ok :: "nat \<Rightarrow> pbuf \<Rightarrow> bool" where
  "pb_ok sz b \<longleftrightarrow> length (pb_cells b) = sz"

definition pb_text :: "nat \<Rightarrow> pbuf \<Rightarrow> string" where
  "pb_text sz b = take (min (pb_pos b) (sz - 1)) (pb_cells b)"

interpretation pb: bounded_sink "buf_putc sz" "pb_text sz" "pb_ok sz" "sz - 1" for sz :: nat
proof unfold_locales
  fix b c
  assume ok: "pb_ok sz b"
  show "pb_ok sz (buf_putc sz b c)"
    using ok by (simp add: pb_ok_def buf_putc_def Let_def)
  show "pb_text sz (buf_putc sz b c) = take (sz - 1) (pb_text sz b @ [c])"
  proof (cases "pb_pos b + 1 < sz")
    case True
    then have "pb_pos b < length (pb_cells b)" "Suc (pb_pos b) \<le> sz - 1"
      using ok by (auto simp: pb_ok_def)
    with True show ?thesis
      by (simp add: pb_text_def buf_putc_def Let_def take_Suc_conv_app_nth min_absorb1)
  next
    case False
    then have "min (pb_pos b) (sz - 1) = sz - 1" "min (Suc (pb_pos b)) (sz - 1) = sz - 1" by simp_all
    with False ok show ?thesis by (simp add: pb_text_def buf_putc_def Let_def pb_ok_def)
  qed
  show "length (pb_text sz b) \<le> sz - 1" by (simp add: pb_text_def)
qed

text \<open>It also counts what does not fit, and leaves the cells after the text alone.\<close>

lemma puts_pos: "pb_pos (foldl (buf_putc sz) b cs) = pb_pos b + length cs"
  by (induction cs arbitrary: b) (simp_all add: buf_putc_def Let_def)

lemma puts_rest:
  assumes "pb_pos b \<le> sz - 1"
  shows "drop (min (pb_pos b + length cs) (sz - 1)) (pb_cells (foldl (buf_putc sz) b cs))
    = drop (min (pb_pos b + length cs) (sz - 1)) (pb_cells b)"
proof (induction cs rule: rev_induct)
  case Nil
  then show ?case by simp
next
  case (snoc c cs)
  let ?b = "foldl (buf_putc sz) b cs" and ?n = "pb_pos b + length cs"
  have p: "pb_pos ?b = ?n" by (simp add: puts_pos)
  show ?case
  proof (cases "?n + 1 < sz")
    case True
    then have "drop (Suc ?n) (pb_cells ?b) = drop (Suc ?n) (pb_cells b)"
      using snoc.IH by (simp add: min_absorb1) (metis drop_drop add.commute plus_1_eq_Suc)
    with True p show ?thesis by (simp add: buf_putc_def [of sz ?b c] Let_def min_absorb1)
  next
    case False
    with snoc.IH p show ?thesis by (simp add: buf_putc_def [of sz ?b c] Let_def min_absorb2)
  qed
qed

lemma puts_cells:
  assumes "length g = sz"
  shows "foldl (buf_putc sz) \<lparr>pb_cells = g, pb_pos = 0\<rparr> t =
    \<lparr>pb_cells = take (sz - 1) t @ drop (min (length t) (sz - 1)) g, pb_pos = length t\<rparr>"
proof -
  let ?b = "foldl (buf_putc sz) \<lparr>pb_cells = g, pb_pos = 0\<rparr> t"
  have ok: "pb_ok sz \<lparr>pb_cells = g, pb_pos = 0\<rparr>" by (simp add: pb_ok_def assms)
  have "pb_text sz ?b = take (sz - 1) t"
    using pb.puts_text [OF ok, of t] by (simp add: pb_text_def)
  moreover have "drop (min (length t) (sz - 1)) (pb_cells ?b) = drop (min (length t) (sz - 1)) g"
    using puts_rest [of "\<lparr>pb_cells = g, pb_pos = 0\<rparr>" sz t] by simp
  moreover have "pb_pos ?b = length t" by (simp add: puts_pos)
  ultimately have "pb_cells ?b = take (sz - 1) t @ drop (min (length t) (sz - 1)) g"
    by (metis append_take_drop_id pb_text_def)
  with \<open>pb_pos ?b = length t\<close> show ?thesis by simp
qed

subsection \<open>The printers as texts\<close>

lemma putc_times_foldl: "putc_times sz b c n = foldl (buf_putc sz) b (replicate n c)"
  by (induction n arbitrary: b) simp_all

lemma putc_string_foldl: "putc_string sz b s = foldl (buf_putc sz) b (up_to_nul s)"
proof (induction s arbitrary: b)
  case Nil
  then show ?case by (simp add: putc_string.simps)
next
  case (Cons c s)
  then show ?case by (simp add: putc_string.simps [of sz b "c # s"])
qed

lemma putc_back_foldl: "n \<le> length ds \<Longrightarrow> putc_back sz b ds n = foldl (buf_putc sz) b (rev (take n ds))"
  by (induction n arbitrary: b) (simp_all add: take_Suc_conv_app_nth)

lemma pad_count_nat: "pad_count w n = nat w - n"
  by (auto simp: pad_count_def)

text \<open>A field of a width, padded on one side; on the right always with spaces.\<close>

definition field :: "bool \<Rightarrow> char \<Rightarrow> int \<Rightarrow> string \<Rightarrow> string" where
  "field left pad width t =
     (if left then t @ replicate (nat width - length t) CHR '' ''
      else replicate (nat width - length t) pad @ t)"

lemma buf_puts_n_text: "buf_puts_n sz b s w left pad = foldl (buf_putc sz) b (field left pad w (up_to_nul s))"
  by (simp add: buf_puts_n_def field_def putc_times_foldl putc_string_foldl pad_count_nat Let_def)

definition upcase :: "char \<Rightarrow> char" where
  "upcase c = (let n = of_char c :: nat in if 97 \<le> n \<and> n \<le> 122 then char_of (n - 32) else c)"

definition uint_text :: "bool \<Rightarrow> nat \<Rightarrow> nat \<Rightarrow> string" where
  "uint_text upper base n = (if upper then map upcase (udigits base n) else udigits base n)"

lemma mp_digit_char: "d < 36 \<Longrightarrow> mp_digit upper d = (if upper then upcase (digit_char d) else digit_char d)"
  by (simp add: mp_digit_def digit_char_def upcase_def Let_def)

lemma mp_digits_text:
  "0 < v \<Longrightarrow> 2 \<le> base \<Longrightarrow> base \<le> 36 \<Longrightarrow> rev (mp_digits upper base v) = uint_text upper base v"
proof (induction upper base v rule: mp_digits.induct)
  case (1 upper base v)
  have m: "mp_digit upper (v mod base) = (if upper then upcase (digit_char (v mod base)) else digit_char (v mod base))"
  proof (rule mp_digit_char)
    have "v mod base < base" using "1.prems"(2) by simp
    with "1.prems"(3) show "v mod base < 36" by linarith
  qed
  show ?case
  proof (cases "v < base")
    case True
    with "1.prems" m show ?thesis
      by (simp add: mp_digits.simps [of upper base v] mp_digits.simps [of upper base 0] uint_text_def
          udigits.simps [of base v])
  next
    case False
    then have "0 < v div base" using "1.prems"(2) by (simp add: div_greater_zero_iff)
    with "1.IH" "1.prems" False m show ?thesis
      by (simp add: mp_digits.simps [of upper base v] uint_text_def udigits.simps [of base v])
  qed
qed

lemma char_zero: "char_of (48 :: nat) = CHR ''0''"
  by code_simp

lemma fmt_uint_text:
  assumes "2 \<le> base" and "base \<le> 36"
  shows "fmt_uint sz b v base upper w pad left =
    foldl (buf_putc sz) b (field left pad w (uint_text upper base (unat v)))"
proof -
  let ?tmp = "if v = 0 then ''0'' else mp_digits upper base (unat v)"
  have t: "rev ?tmp = uint_text upper base (unat v)"
  proof (cases "v = 0")
    case True
    with assms show ?thesis
      by (simp add: uint_text_def udigits.simps [of base 0] digit_char_def upcase_def char_zero)
  next
    case False
    then have "0 < unat v" by (simp add: unat_gt_0)
    with False mp_digits_text [OF _ assms] show ?thesis by simp
  qed
  then have "length ?tmp = length (uint_text upper base (unat v))" by (metis length_rev)
  with t show ?thesis
    by (simp add: fmt_uint_def field_def putc_times_foldl putc_back_foldl pad_count_nat Let_def)
qed

text \<open>The text of a \<open>double\<close>: sign, integer part, point, and the low \<open>prec\<close> digits of the rounded fraction.\<close>

definition float_prec :: "int \<Rightarrow> nat" where
  "float_prec prec = nat (if prec < 0 then 6 else if prec > 9 then 9 else prec)"

definition float_abs :: "'d dbl \<Rightarrow> 'd \<Rightarrow> 'd" where
  "float_abs D v = (if d_negative D v then d_neg D v else v)"

definition float_frac :: "'d dbl \<Rightarrow> nat \<Rightarrow> 'd \<Rightarrow> u32" where
  "float_frac D n v =
     d_ulong D (d_add D (d_mul D (d_sub D v (d_of_ulong D (d_ulong D v))) (d_of_ulong D (10 ^ n))) (d_half D))"

definition float_text :: "'d dbl \<Rightarrow> 'd \<Rightarrow> int \<Rightarrow> string" where
  "float_text D v prec =
     (let n = float_prec prec; a = float_abs D v
      in (if d_negative D v then ''-'' else []) @ udigits 10 (unat (d_ulong D a)) @ ''.''
           @ rev (frac_digits n (unat (float_frac D n a))))"

lemma frac_digits_length [simp]: "length (frac_digits n v) = n"
  by (induction n arbitrary: v) simp_all

lemma value_of_snoc: "value_of b (s @ [c]) = value_of b s * b + digit_value c"
  by (simp add: value_of_def)

lemma frac_digits_value: "value_of 10 (rev (frac_digits n v)) = v mod 10 ^ n"
proof (induction n arbitrary: v)
  case 0
  then show ?case by (simp add: value_of_def)
next
  case (Suc n)
  have "digit_value (char_of (48 + v mod 10)) = v mod 10"
    using digit_value_char [of "v mod 10"] by (simp add: digit_char_def)
  then show ?case
    using Suc.IH [of "v div 10"] mod_mult2_eq [of v 10 "10 ^ n"] by (simp add: value_of_snoc)
qed

lemma fmt_float_text: "fmt_float D sz b v prec = foldl (buf_putc sz) b (float_text D v prec)"
proof -
  have p: "nat (if (if prec < 0 then 6 else prec) > 9 then 9 else (if prec < 0 then 6 else prec))
      = float_prec prec"
    by (simp add: float_prec_def)
  show ?thesis
    unfolding fmt_float_def Let_def p
    by (simp add: float_text_def float_abs_def float_frac_def fmt_uint_text putc_back_foldl field_def
        uint_text_def Let_def split: prod.splits)
qed

subsection \<open>What a format means, without the buffer\<close>

definition mp_conv_text :: "'d dbl \<Rightarrow> directive \<Rightarrow> char \<Rightarrow> 'd parg list \<Rightarrow> c_ub + ('d parg list \<times> string)" where
  "mp_conv_text D d c args =
     (let fld = field (left_align d) (dpad d) in
      if c = CHR ''d'' \<or> c = CHR ''i'' then
        (case arg_signed (is_long d) args of
           None \<Rightarrow> Inl BadVaArg
         | Some (v, r) \<Rightarrow>
             if sint v = - (2 ^ 31) then Inl SignedOverflow
             else if sint v < 0
             then Inr (r, CHR ''-'' # fld (if dwidth d > 0 then dwidth d - 1 else dwidth d)
                            (udigits 10 (nat (- sint v))))
             else Inr (r, fld (dwidth d) (udigits 10 (nat (sint v)))))
      else if c = CHR ''u'' \<or> c = CHR ''x'' \<or> c = CHR ''X'' then
        (case arg_unsigned (is_long d) args of
           None \<Rightarrow> Inl BadVaArg
         | Some (v, r) \<Rightarrow>
             Inr (r, fld (dwidth d) (uint_text (c = CHR ''X'') (if c = CHR ''u'' then 10 else 16) (unat v))))
      else if c = CHR ''p'' then
        (case args of
           PPtr v # r \<Rightarrow> Inr (r, ''0x'' @ field False CHR ''0'' 8 (udigits 16 (unat v)))
         | _ \<Rightarrow> Inl BadVaArg)
      else if c = CHR ''s'' then
        (case args of
           PStr s # r \<Rightarrow> Inr (r, fld (dwidth d) (up_to_nul (case s of None \<Rightarrow> ''(null)'' | Some t \<Rightarrow> t)))
         | _ \<Rightarrow> Inl BadVaArg)
      else if c = CHR ''c'' then
        (case args of PInt v # r \<Rightarrow> Inr (r, [char_of (uint v)]) | _ \<Rightarrow> Inl BadVaArg)
      else if c = CHR ''f'' then
        (case args of
           PDouble v # r \<Rightarrow> Inr (r, float_text D v (if dprec d < 0 then 1 else dprec d))
         | _ \<Rightarrow> Inl BadVaArg)
      else if c = CHR ''%'' then Inr (args, ''%'')
      else Inr (args, [CHR ''%'', c]))"

lemma mp_conv_writes:
  "mp_conv D sz d c args b = map_sum id (\<lambda>(r, t). (r, foldl (buf_putc sz) b t)) (mp_conv_text D d c args)"
  by (auto simp: mp_conv_def mp_conv_text_def fmt_uint_text buf_puts_n_text fmt_float_text uint_text_def
      unat_of_neg unat_of_nonneg Let_def split: list.splits parg.splits option.splits)

function mp_render :: "'d dbl \<Rightarrow> string \<Rightarrow> 'd parg list \<Rightarrow> c_ub + string" where
  "mp_render D fmt args =
     (if peek fmt = NUL then Inr []
      else if peek fmt \<noteq> CHR ''%'' then map_sum id (Cons (peek fmt)) (mp_render D (tl fmt) args)
      else if peek (tl fmt) = NUL then Inr []
      else
        case mp_directive (tl fmt) of
          Inl e \<Rightarrow> Inl e
        | Inr (d, fmt') \<Rightarrow>
            (case mp_conv_text D d (peek fmt') args of
               Inl e \<Rightarrow> Inl e
             | Inr (args', t) \<Rightarrow>
                 if fmt' = [] then Inl OverRead else map_sum id ((@) t) (mp_render D (tl fmt') args')))"
  by pat_completeness auto
termination
proof (relation "measure (\<lambda>(D, fmt, args). length fmt)", goal_cases)
  case 1
  then show ?case by simp
next
  case 2
  then show ?case by (simp add: peek_advances)
next
  case 3
  then show ?case by (auto intro: mp_advances)
qed

declare mp_render.simps [simp del]

lemma mp_loop_render:
  "mp_loop D sz fmt args b = map_sum id (foldl (buf_putc sz) b) (mp_render D fmt args)"
proof (induction D sz fmt args b rule: mp_loop.induct)
  case (1 D sz fmt args b)
  consider (stop) "peek fmt = NUL \<or> (peek fmt = CHR ''%'' \<and> peek (tl fmt) = NUL)"
    | (plain) "peek fmt \<noteq> NUL" "peek fmt \<noteq> CHR ''%''"
    | (conv) "peek fmt = CHR ''%''" "peek (tl fmt) \<noteq> NUL" by auto
  then show ?case
  proof cases
    case stop
    then show ?thesis by (auto simp: mp_loop.simps [of D sz fmt] mp_render.simps [of D fmt])
  next
    case plain
    then show ?thesis
      using "1.IH"(1) by (cases "mp_render D (tl fmt) args")
        (simp_all add: mp_loop.simps [of D sz fmt] mp_render.simps [of D fmt])
  next
    case conv
    show ?thesis
    proof (cases "mp_directive (tl fmt)")
      case (Inl e)
      with conv show ?thesis by (simp add: mp_loop.simps [of D sz fmt] mp_render.simps [of D fmt])
    next
      case (Inr df)
      obtain d fmt' where df: "df = (d, fmt')" by (cases df)
      show ?thesis
      proof (cases "mp_conv_text D d (peek fmt') args")
        case (Inl e)
        with conv Inr df show ?thesis
          by (simp add: mp_loop.simps [of D sz fmt] mp_render.simps [of D fmt] mp_conv_writes)
      next
        case conv_ok: (Inr p)
        obtain args' t where p: "p = (args', t)" by (cases p)
        show ?thesis
        proof (cases "fmt' = []")
          case True
          with conv Inr df conv_ok p show ?thesis
            by (simp add: mp_loop.simps [of D sz fmt] mp_render.simps [of D fmt] mp_conv_writes)
        next
          case False
          have "mp_loop D sz (tl fmt') args' (foldl (buf_putc sz) b t) =
              map_sum id (foldl (buf_putc sz) (foldl (buf_putc sz) b t)) (mp_render D (tl fmt') args')"
            using "1.IH"(2) [OF _ _ _ Inr df [symmetric] _ refl] conv False conv_ok p
            by (simp add: mp_conv_writes id_def)
          with conv Inr df conv_ok p False show ?thesis
            by (cases "mp_render D (tl fmt') args'")
              (simp_all add: mp_loop.simps [of D sz fmt] mp_render.simps [of D fmt] mp_conv_writes)
        qed
      qed
    qed
  qed
qed

subsection \<open>Properties\<close>

lemma mini_vsnprintf_text:
  assumes "length g = sz"
  shows "mini_vsnprintf D sz g fmt args =
    map_sum id (\<lambda>t. (if sz = 0 then g
                     else take (sz - 1) t @ NUL # drop (Suc (min (length t) (sz - 1))) g, length t))
      (mp_render D fmt args)"
proof (cases "mp_render D fmt args")
  case (Inl e)
  then show ?thesis by (simp add: mini_vsnprintf_def mp_loop_render)
next
  case (Inr t)
  let ?m = "min (length t) (sz - 1)"
  have "(take (sz - 1) t @ drop ?m g)[(if length t < sz then length t else sz - 1) := NUL]
      = take (sz - 1) t @ NUL # drop (Suc ?m) g" if "0 < sz"
  proof -
    have i: "(if length t < sz then length t else sz - 1) = length (take (sz - 1) t)"
      using that by auto
    have "drop ?m g = g ! ?m # drop (Suc ?m) g"
      using that assms by (intro Cons_nth_drop_Suc [symmetric]) auto
    then show ?thesis unfolding i by (simp add: list_update_append)
  qed
  then show ?thesis
    using Inr puts_cells [OF assms, of t] by (auto simp: mini_vsnprintf_def mp_loop_render)
qed

text \<open>C29: The formatter keeps the contract of \<open>vsnprintf\<close> for the directives it knows: for any size of the
  buffer, what it had in it, format and arguments, it returns the length of the whole text that the
  format denotes, leaves the first \<open>size - 1\<close> characters of that text and a NUL in the buffer and
  touches no other cell; with size 0 it writes nothing. Where the format denotes nothing (an argument
  of the wrong type, an overflow, a directive that the NUL cuts off) the call is undefined.\<close>

theorem mini_vsnprintf_correct:
  assumes "length g = sz"
  shows "mini_vsnprintf D sz g fmt args =
    map_sum id (\<lambda>t. (if sz = 0 then g
                     else take (sz - 1) t @ NUL # drop (Suc (min (length t) (sz - 1))) g, length t))
      (mp_render D fmt args)"
  by (rule mini_vsnprintf_text [OF assms])

text \<open>A small arithmetic for the witnesses: hundredths, rounded down where the conversion truncates.\<close>

definition cent_dbl :: "int dbl" where
  "cent_dbl = \<lparr>d_negative = (\<lambda>v. v < 0), d_neg = uminus, d_ulong = (\<lambda>v. word_of_int (v div 100)),
     d_of_ulong = (\<lambda>w. 100 * uint w), d_sub = (-), d_mul = (\<lambda>a b. a * b div 100), d_add = (+),
     d_half = 50\<rparr>"

theorem mini_vsnprintf_correct_witness:
  "mini_vsnprintf cent_dbl 8 ''????????'' ''x=%3d|%02X'' [PInt 7, PUInt 10] = Inr (''x=  7|0'' @ [NUL], 8)"
proof -
  have "mp_render cent_dbl ''x=%3d|%02X'' [PInt 7, PUInt 10] = Inr ''x=  7|0A''"
    by code_simp
  then show ?thesis using mini_vsnprintf_correct [of "''????????''" 8 cent_dbl] by simp
qed

text \<open>Rounding a fraction up to the next whole number loses the carry: where the fraction rounds to
  \<open>10 ^ prec\<close> the text keeps the integer part and shows a fraction of zeros, so that 1.96 with one
  digit is printed as \<open>1.0\<close>.\<close>

theorem float_carry_lost:
  assumes "unat (float_frac D (float_prec prec) (float_abs D v)) = 10 ^ float_prec prec"
  shows "float_text D v prec = (if d_negative D v then ''-'' else [])
    @ udigits 10 (unat (d_ulong D (float_abs D v))) @ ''.'' @ replicate (float_prec prec) CHR ''0''"
proof -
  have "frac_digits n (10 ^ n) = replicate n CHR ''0''" for n
    by (induction n) (simp_all add: char_zero)
  with assms show ?thesis by (simp add: float_text_def Let_def)
qed

theorem float_carry_lost_witness:
  "float_text cent_dbl 196 1 = ''1.0''"
proof -
  have h: "unat (float_frac cent_dbl (float_prec 1) (float_abs cent_dbl 196)) = 10 ^ float_prec 1"
    by code_simp
  have "udigits 10 (unat (d_ulong cent_dbl (float_abs cent_dbl 196))) = ''1''" by code_simp
  with float_carry_lost [OF h] show ?thesis by (simp add: cent_dbl_def float_prec_def)
qed

end
