(* ===== verification/Lm3sData.thy ===== *)
theory Lm3sData
  imports FwTypes MiniPrintf
begin

unbundle bit_operations_syntax

text \<open>
  The data path of the lm3s firmware: the structs of \<open>src/src/ipc/ipc.h\<close>, the fault modes of
  \<open>src/src/fault/fault_injection.h\<close>, and the computations of the sensor, processing and telemetry tasks
  in \<open>src/src/tasks\<close>, without the tasks. The members of \<open>SensorData_t\<close> carry the prefix \<open>sd_\<close>, those of
  \<open>TelemetryData_t\<close> the prefix \<open>td_\<close>. An \<open>int32_t\<close> expression is an \<open>int\<close> whose range is checked where it
  can overflow; the static \<open>speed_kmh_x10\<close> is such an \<open>int\<close> throughout.
\<close>

datatype FaultType_t = FAULT_NONE | FAULT_TASK_DELAY | FAULT_QUEUE_OVERFLOW | FAULT_SENSOR_FAILURE

record SensorData_t =
  sd_temperature_c_x10 :: i16
  sd_accel_x_x100 :: i16
  sd_accel_y_x100 :: i16
  sd_accel_z_x100 :: i16
  sd_timestamp_ms :: u32

record TelemetryData_t =
  td_sensor :: SensorData_t
  td_speed_kmh_x10 :: u16
  td_rpm :: u16
  td_throttle_pct_x10 :: u16
  td_fault_code :: u8
  td_valid :: bool
  td_timestamp_ms :: u32

definition in_i32 :: "int \<Rightarrow> bool" where
  "in_i32 x \<longleftrightarrow> - (2 ^ 31) \<le> x \<and> x < 2 ^ 31"

subsection \<open>The sensor task's sample\<close>

definition lcg_rand :: "u32 \<Rightarrow> u32" where
  "lcg_rand state = state * 1664525 + 1013904223"

definition noise :: "u32 \<Rightarrow> int \<Rightarrow> int" where
  "noise rng scale = uint (rng AND 0xFFFF) * scale sdiv 65535"

definition sensor_temperature :: "u32 \<Rightarrow> int" where
  "sensor_temperature now_ms =
     (let phase = now_ms div 100 mod 63
      in if phase < 32 then 200 + uint phase * (600 sdiv 31) else 800 - uint (phase - 32) * (600 sdiv 31))"

definition sensor_data :: "FaultType_t \<Rightarrow> u32 \<Rightarrow> u32 \<Rightarrow> SensorData_t \<times> u32" where
  "sensor_data fault now_ms rng =
     (if fault = FAULT_SENSOR_FAILURE
      then (\<lparr>sd_temperature_c_x10 = 1550, sd_accel_x_x100 = 420, sd_accel_y_x100 = 420,
             sd_accel_z_x100 = 420, sd_timestamp_ms = now_ms\<rparr>, rng)
      else
        let temp_x10 = sensor_temperature now_ms;
            rng = lcg_rand rng; x = word_of_int (noise rng 200 - 100);
            rng = lcg_rand rng; y = word_of_int (noise rng 200 - 100);
            rng = lcg_rand rng; z = word_of_int (980 + noise rng 40 - 20)
        in (\<lparr>sd_temperature_c_x10 = word_of_int temp_x10, sd_accel_x_x100 = x, sd_accel_y_x100 = y,
             sd_accel_z_x100 = z, sd_timestamp_ms = now_ms\<rparr>, rng))"

subsection \<open>The processing task's arithmetic\<close>

function isqrt_loop :: "u32 \<Rightarrow> u32 \<Rightarrow> u32 \<Rightarrow> c_ub + u32" where
  "isqrt_loop n x y =
     (if y < x
      then let x = y in if x = 0 then Inl DivByZero else isqrt_loop n x ((x + n div x) div 2)
      else Inr x)"
  by pat_completeness auto
termination
  by (relation "measure (\<lambda>(n, x, y). unat x)") (auto simp: word_less_nat_alt)

declare isqrt_loop.simps [simp del]

definition isqrt32 :: "u32 \<Rightarrow> c_ub + u32" where
  "isqrt32 n = (if n = 0 then Inr 0 else let x = n; y = (x + 1) div 2 in isqrt_loop n x y)"

definition accel_mag_sq :: "SensorData_t \<Rightarrow> c_ub + u32" where
  "accel_mag_sq sensor =
     (let ax = sint (sd_accel_x_x100 sensor); ay = sint (sd_accel_y_x100 sensor);
          az = sint (sd_accel_z_x100 sensor);
          sum = ax * ax + ay * ay + az * az
      in if in_i32 sum then Inr (word_of_int sum) else Inl SignedOverflow)"

definition speed_update :: "int \<Rightarrow> u32 \<Rightarrow> c_ub + int" where
  "speed_update speed mag_x100 =
     (let delta = (sint mag_x100 - 980) sdiv 10;
          speed = speed + delta
      in if in_i32 speed
         then let speed = (if speed < 0 then 0 else speed)
              in Inr (if speed > 2000 then 2000 else speed)
         else Inl SignedOverflow)"

definition telem_rpm :: "int \<Rightarrow> u32 \<Rightarrow> u32" where
  "telem_rpm temp mag_x100 = 700 + word_of_int (temp * 175 sdiv 1000) + mag_x100 * 125 div 10000"

definition telem_throttle :: "int \<Rightarrow> u32 \<Rightarrow> int" where
  "telem_throttle temp mag_x100 =
     (let throttle_x10 = 120 + sint (mag_x100 * 140 div 10000) + temp * 10 sdiv 60;
          throttle_x10 = (if throttle_x10 < 0 then 0 else throttle_x10)
      in if throttle_x10 > 1000 then 1000 else throttle_x10)"

text \<open>
  The message, and the loop body between the receive and the send; \<open>fault\<close> is \<open>g_active_fault\<close> where the
  code reads it. \<open>td_valid\<close> is false exactly where the code also sets \<open>EVT_FAULT_DETECTED\<close>.
\<close>

definition telem_data :: "FaultType_t \<Rightarrow> int \<Rightarrow> u32 \<Rightarrow> SensorData_t \<Rightarrow> TelemetryData_t" where
  "telem_data fault speed mag_x100 sensor =
     (let temp = sint (sd_temperature_c_x10 sensor);
          bad = temp > 750 \<or> fault = FAULT_SENSOR_FAILURE
      in \<lparr>td_sensor = sensor, td_speed_kmh_x10 = word_of_int speed,
          td_rpm = ucast (telem_rpm temp mag_x100),
          td_throttle_pct_x10 = word_of_int (telem_throttle temp mag_x100),
          td_fault_code = (if bad then 1 else 0), td_valid = \<not> bad,
          td_timestamp_ms = sd_timestamp_ms sensor\<rparr>)"

definition process_data :: "FaultType_t \<Rightarrow> int \<Rightarrow> SensorData_t \<Rightarrow> c_ub + (int \<times> TelemetryData_t)" where
  "process_data fault speed sensor =
     (case accel_mag_sq sensor of
        Inl e \<Rightarrow> Inl e
      | Inr mag_sq \<Rightarrow>
          (case isqrt32 mag_sq of
             Inl e \<Rightarrow> Inl e
           | Inr mag_x100 \<Rightarrow>
               (case speed_update speed mag_x100 of
                  Inl e \<Rightarrow> Inl e
                | Inr speed \<Rightarrow> Inr (speed, telem_data fault speed mag_x100 sensor))))"

subsection \<open>The telemetry task's line\<close>

definition telem_fmt :: string where
  "telem_fmt = ''[TELEM] ts=%lu temp=%d.%dC ax=%d.%02d ay=%d.%02d az=%d.%02d spd=%u.%ukm/h rpm=%u thr=%u.%u%% fault=0x%02X valid=%d'' @ [CHR 0x0D, CHR 0x0A]"

definition whole_parg :: "i16 \<Rightarrow> int \<Rightarrow> 'd parg" where
  "whole_parg v scale = PInt (word_of_int (sint v sdiv scale))"

definition frac_parg :: "i16 \<Rightarrow> int \<Rightarrow> 'd parg" where
  "frac_parg v scale = PInt (word_of_int (if sint v < 0 then - (sint v smod scale) else sint v smod scale))"

definition telem_args :: "TelemetryData_t \<Rightarrow> 'd parg list" where
  "telem_args telem =
     (let s = td_sensor telem in
      [PULong (td_timestamp_ms telem),
       whole_parg (sd_temperature_c_x10 s) 10, frac_parg (sd_temperature_c_x10 s) 10,
       whole_parg (sd_accel_x_x100 s) 100, frac_parg (sd_accel_x_x100 s) 100,
       whole_parg (sd_accel_y_x100 s) 100, frac_parg (sd_accel_y_x100 s) 100,
       whole_parg (sd_accel_z_x100 s) 100, frac_parg (sd_accel_z_x100 s) 100,
       PUInt (ucast (td_speed_kmh_x10 telem) div 10), PUInt (ucast (td_speed_kmh_x10 telem) mod 10),
       PUInt (ucast (td_rpm telem)),
       PUInt (ucast (td_throttle_pct_x10 telem) div 10), PUInt (ucast (td_throttle_pct_x10 telem) mod 10),
       PUInt (ucast (td_fault_code telem)),
       PInt (if td_valid telem then 1 else 0)])"

subsection \<open>The integer square root\<close>

text \<open>The step of Newton's method never goes below the root, and stops decreasing only at the root.\<close>

lemma newton_above:
  fixes n x s :: nat
  assumes "0 < x" and "s * s \<le> n"
  shows "s \<le> (x + n div x) div 2"
proof (rule ccontr)
  assume "\<not> s \<le> (x + n div x) div 2"
  then have lt: "x + n div x + 1 \<le> 2 * s" by linarith
  have "n < x * (n div x + 1)" using assms(1) dividend_less_times_div [of x n] by simp
  also have "\<dots> \<le> x * (2 * s - x)" using lt by (intro mult_le_mono2) simp
  also have "\<dots> \<le> s * s"
  proof -
    have "int (x * (2 * s - x)) = int x * (2 * int s - int x)" using lt by (simp add: of_nat_diff)
    also have "\<dots> = int s * int s - (int s - int x)\<^sup>2" by (simp add: power2_eq_square algebra_simps)
    also have "\<dots> \<le> int (s * s)" by simp
    finally show ?thesis by linarith
  qed
  finally show False using assms(2) by simp
qed

lemma newton_stops:
  fixes n x :: nat
  assumes "0 < x" and "x \<le> (x + n div x) div 2"
  shows "x * x \<le> n"
proof -
  have "x \<le> n div x" using assms(2) by linarith
  then have "x * x \<le> n div x * x" by simp
  also have "\<dots> \<le> n" by (rule div_times_less_eq_dividend)
  finally show ?thesis .
qed

lemma newton_no_wrap:
  fixes n x :: nat
  assumes "0 < x" and "x \<le> n"
  shows "x + n div x \<le> n + 1"
proof -
  have "1 \<le> n div x" using assms div_greater_zero_iff [of n x] by simp
  then have "0 \<le> (int x - 1) * (int (n div x) - 1)" using assms(1) by (intro mult_nonneg_nonneg) auto
  then have "int x + int (n div x) \<le> int x * int (n div x) + 1" by (simp add: algebra_simps)
  then have "x + n div x \<le> x * (n div x) + 1" by (simp flip: of_nat_mult)
  then show ?thesis using times_div_less_eq_dividend [of x n] by linarith
qed

lemma isqrt_loop_root:
  assumes "unat y = (unat x + unat n div unat x) div 2" and "0 < unat x" and "unat x \<le> unat n"
    and "unat n < 2 ^ 32 - 1" and "s * s \<le> unat n" and "unat n < Suc s * Suc s" and "s \<le> unat x" and "0 < s"
  shows "isqrt_loop n x y = Inr (word_of_nat s)"
  using assms
proof (induction n x y rule: isqrt_loop.induct)
  case (1 n x y)
  show ?case
  proof (cases "y < x")
    case True
    have sy: "s \<le> unat y" using newton_above [OF "1.prems"(2,5)] "1.prems"(1) by simp
    with "1.prems"(8) have y0: "0 < unat y" by simp
    then have "y \<noteq> 0" by auto
    have yn: "unat y \<le> unat n" using True "1.prems"(3) by (simp add: word_less_nat_alt)
    have "unat y + unat n div unat y < 2 ^ 32"
      using newton_no_wrap [OF y0 yn] "1.prems"(4) by simp
    then have "unat ((y + n div y) div 2) = (unat y + unat n div unat y) div 2"
      by (simp add: unat_div unat_plus_nowrap)
    with "1.IH" [OF True refl \<open>y \<noteq> 0\<close>] y0 yn sy "1.prems"(4-8) True \<open>y \<noteq> 0\<close> show ?thesis
      by (simp add: isqrt_loop.simps [of n x y])
  next
    case False
    then have "unat x \<le> unat y" by (simp add: word_less_nat_alt)
    with "1.prems"(1) have "unat x \<le> (unat x + unat n div unat x) div 2" by simp
    from newton_stops [OF "1.prems"(2) this] have "unat x * unat x \<le> unat n" .
    with "1.prems"(6) have "unat x * unat x < Suc s * Suc s" by simp
    then have "unat x < Suc s" by (metis mult_le_mono not_le)
    with "1.prems"(7) have "unat x = s" by simp
    with False show ?thesis by (auto simp: isqrt_loop.simps [of n x y])
  qed
qed

lemma isqrt32_root:
  assumes "unat n < 2 ^ 32 - 1" and "s * s \<le> unat n" and "unat n < Suc s * Suc s"
  shows "isqrt32 n = Inr (word_of_nat s)"
proof (cases "n = 0")
  case True
  with assms(2) show ?thesis by (simp add: isqrt32_def)
next
  case False
  then have n: "0 < unat n" by (simp add: unat_gt_0)
  with assms(3) have s: "0 < s" by (cases s) auto
  then have "s \<le> s * s" by simp
  with assms(2) have sn: "s \<le> unat n" by linarith
  have "unat ((n + 1) div 2) = (unat n + unat n div unat n) div 2"
    using n assms(1) by (simp add: unat_div unat_plus_nowrap)
  from isqrt_loop_root [OF this n order_refl assms sn s] False show ?thesis
    by (simp add: isqrt32_def)
qed

lemma isqrt_exists: "\<exists>s. s * s \<le> n \<and> n < Suc s * Suc s" for n :: nat
proof (induction n)
  case 0
  then show ?case by (intro exI [of _ 0]) simp
next
  case (Suc n)
  then obtain s where "s * s \<le> n" "n < Suc s * Suc s" by blast
  then show ?case by (cases "Suc n < Suc s * Suc s") (auto intro: exI [of _ s] exI [of _ "Suc s"])
qed

subsection \<open>Ranges\<close>

lemma uint_and_mask16: "uint ((x :: u32) AND 0xFFFF) \<le> 65535"
proof -
  have "x AND 0xFFFF = take_bit 16 x" by (simp add: take_bit_eq_mask mask_eq_decr_exp)
  then show ?thesis using take_bit_int_less_exp [of 16 "uint x"] by (simp add: unsigned_take_bit_eq)
qed

lemma noise_range:
  assumes "0 \<le> scale"
  shows "0 \<le> noise rng scale" and "noise rng scale \<le> scale"
proof -
  let ?u = "uint (rng AND 0xFFFF)"
  have n: "noise rng scale = ?u * scale div 65535"
    using assms by (simp add: noise_def sdiv_nonneg)
  have "0 \<le> ?u * scale" using assms by simp
  then show "0 \<le> noise rng scale" unfolding n by (simp add: pos_imp_zdiv_nonneg_iff)
  have "?u * scale \<le> 65535 * scale" using uint_and_mask16 [of rng] assms by (intro mult_right_mono)
  then have "?u * scale div 65535 \<le> 65535 * scale div 65535" by (rule zdiv_mono1) simp
  then show "noise rng scale \<le> scale" unfolding n by simp
qed

definition sensor_phase :: "u32 \<Rightarrow> int" where
  "sensor_phase now_ms = uint now_ms div 100 mod 63"

lemma sensor_temperature_phase:
  "sensor_temperature now_ms =
    (let k = sensor_phase now_ms in if k < 32 then 200 + 19 * k else 800 - 19 * (k - 32))"
proof -
  let ?p = "now_ms div 100 mod 63"
  have u: "uint ?p = sensor_phase now_ms" by (simp add: sensor_phase_def uint_mod uint_div)
  have c: "?p < 32 \<longleftrightarrow> sensor_phase now_ms < 32" by (simp add: word_less_def u)
  have d: "uint (?p - 32) = sensor_phase now_ms - 32" if "\<not> ?p < 32"
  proof -
    have "32 \<le> ?p" using that by simp
    then have "uint (?p - 32) = uint ?p - uint (32 :: u32)" by (simp add: uint_minus_simple_alt)
    with u show ?thesis by simp
  qed
  have "(600 :: int) sdiv 31 = 19" by (simp add: sdiv_nonneg)
  then show ?thesis by (simp add: sensor_temperature_def Let_def u c d)
qed

lemma sensor_phase_range: "0 \<le> sensor_phase now_ms" "sensor_phase now_ms \<le> 62"
  using pos_mod_bound [of 63 "uint now_ms div 100"] by (simp_all add: sensor_phase_def)

lemma sensor_temperature_range: "200 \<le> sensor_temperature now_ms" "sensor_temperature now_ms \<le> 800"
  using sensor_phase_range [of now_ms] by (simp_all add: sensor_temperature_phase Let_def)

text \<open>What a sample of the sensor task looks like.\<close>

definition plausible :: "SensorData_t \<Rightarrow> bool" where
  "plausible s \<longleftrightarrow> sint (sd_temperature_c_x10 s) \<in> {200..800} \<and> sint (sd_accel_x_x100 s) \<in> {-100..100}
     \<and> sint (sd_accel_y_x100 s) \<in> {-100..100} \<and> sint (sd_accel_z_x100 s) \<in> {960..1000}"

definition sentinel :: "SensorData_t \<Rightarrow> bool" where
  "sentinel s \<longleftrightarrow> sint (sd_temperature_c_x10 s) = 1550 \<and> sint (sd_accel_x_x100 s) = 420
     \<and> sint (sd_accel_y_x100 s) = 420 \<and> sint (sd_accel_z_x100 s) = 420"

lemma sensor_data_kind:
  "if fault = FAULT_SENSOR_FAILURE then sentinel (fst (sensor_data fault now_ms rng))
   else plausible (fst (sensor_data fault now_ms rng))
     \<and> sint (sd_temperature_c_x10 (fst (sensor_data fault now_ms rng))) = sensor_temperature now_ms"
proof (cases "fault = FAULT_SENSOR_FAILURE")
  case True
  then show ?thesis by (simp add: sensor_data_def sentinel_def)
next
  case False
  have s: "a \<le> k \<Longrightarrow> k \<le> b \<Longrightarrow> - 32768 \<le> a \<Longrightarrow> b < 32768 \<Longrightarrow> sint (word_of_int k :: i16) = k" for a b k
    by (rule sint_word_of_int_16) auto
  note n = noise_range [of 200] noise_range [of 40] and t = sensor_temperature_range [of now_ms]
  have x: "sint (word_of_int (noise r 200 - 100) :: i16) = noise r 200 - 100" for r
    using n(1,2) [of r] by (intro s [of "- 100" _ 100]) auto
  have z: "sint (word_of_int (980 + noise r 40 - 20) :: i16) = 980 + noise r 40 - 20" for r
    using n(3,4) [of r] by (intro s [of 960 _ 1000]) auto
  have "sint (word_of_int (sensor_temperature now_ms) :: i16) = sensor_temperature now_ms"
    using t by (intro s [of 200 _ 800]) auto
  with x z n t False show ?thesis
    by (simp add: sensor_data_def plausible_def Let_def del: of_int_diff of_int_add)
qed

subsection \<open>The derived values\<close>

definition mag_sum :: "SensorData_t \<Rightarrow> int" where
  "mag_sum s = (sint (sd_accel_x_x100 s))\<^sup>2 + (sint (sd_accel_y_x100 s))\<^sup>2 + (sint (sd_accel_z_x100 s))\<^sup>2"

lemma process_data_root:
  assumes "mag_sum s < 2 ^ 31" and "int r * int r \<le> mag_sum s" and "mag_sum s < (int r + 1) * (int r + 1)"
  shows "process_data fault speed s = map_sum id (\<lambda>v. (v, telem_data fault v (word_of_nat r) s)) (speed_update speed (word_of_nat r))"
proof -
  have p: "0 \<le> mag_sum s" by (simp add: mag_sum_def)
  have m: "accel_mag_sq s = Inr (word_of_int (mag_sum s))"
  proof -
    have "in_i32 (mag_sum s)" using assms(1) p by (simp add: in_i32_def)
    then show ?thesis by (simp add: accel_mag_sq_def mag_sum_def power2_eq_square Let_def)
  qed
  have u: "unat (word_of_int (mag_sum s) :: u32) = nat (mag_sum s)"
    using assms(1) p by (simp add: unat_eq_nat_uint uint_word_of_int)
  have "isqrt32 (word_of_int (mag_sum s)) = Inr (word_of_nat r)"
  proof (rule isqrt32_root)
    have "int (r * r) \<le> mag_sum s" "mag_sum s < int (Suc r * Suc r)"
      using assms(2,3) by (simp_all add: algebra_simps)
    then show "r * r \<le> unat (word_of_int (mag_sum s) :: u32)" "unat (word_of_int (mag_sum s) :: u32) < Suc r * Suc r"
      unfolding u by linarith+
  qed (use u assms(1) p in simp)
  with m show ?thesis by (cases "speed_update speed (word_of_nat r)") (simp_all add: process_data_def)
qed

lemma mag_small:
  assumes "r \<le> 1024"
  shows "uint (word_of_nat r :: u32) = int r" and "sint (word_of_nat r :: u32) = int r"
proof -
  have "(word_of_nat r :: u32) = word_of_int (int r)" by simp
  then show "uint (word_of_nat r :: u32) = int r" "sint (word_of_nat r :: u32) = int r"
    using assms by (simp_all add: unsigned_of_nat signed_of_nat take_bit_nat_eq_self
        signed_take_bit_int_eq_self)
qed

lemma mag_scaled:
  assumes "r \<le> 1024" and "k \<le> 1024"
  shows "uint (word_of_nat r * word_of_nat k div 10000 :: u32) = int r * int k div 10000"
    and "sint (word_of_nat r * word_of_nat k div 10000 :: u32) = int r * int k div 10000"
proof -
  let ?w = "word_of_nat r * word_of_nat k div 10000 :: u32"
  have "int r * int k \<le> 1024 * 1024" using assms by (intro mult_mono) auto
  then have b: "int r * int k < 2 ^ 21" "0 \<le> int r * int k" by simp_all
  have "uint (word_of_nat r * word_of_nat k :: u32) = int r * int k"
    using b mag_small(1) [OF assms(1)] mag_small(1) [OF assms(2)]
    by (simp add: uint_word_ariths)
  then show u: "uint ?w = int r * int k div 10000" by (simp add: uint_div)
  moreover have "sint ?w = uint ?w"
  proof -
    let ?q = "int r * int k div 10000"
    have "0 \<le> ?q" using b(2) by (simp add: pos_imp_zdiv_nonneg_iff)
    moreover have "?q \<le> 2 ^ 21 div 10000" using b(1) by (intro zdiv_mono1) simp_all
    ultimately have "- (2 ^ 31) \<le> ?q" "?q < 2 ^ 31" using b(1) by simp_all
    then show ?thesis using \<open>uint ?w = ?q\<close> by (simp add: sint_uint signed_take_bit_int_eq_self)
  qed
  ultimately show "sint ?w = int r * int k div 10000" by simp
qed

lemma uint_plus_small: "uint a + uint b < 2 ^ 32 \<Longrightarrow> uint (a + b) = uint a + uint b" for a b :: u32
  by (simp add: uint_word_ariths)

lemma div_between: "a \<le> x \<Longrightarrow> x \<le> b \<Longrightarrow> 0 < c \<Longrightarrow> a div c \<le> x div c \<and> x div c \<le> b div c" for x :: int
  by (simp add: zdiv_mono1)

lemma telem_values:
  assumes "0 \<le> temp" and "temp \<le> 1550" and "r \<le> 1024"
  shows "uint (telem_rpm temp (word_of_nat r)) = 700 + temp * 175 div 1000 + int r * 125 div 10000"
    and "telem_throttle temp (word_of_nat r) = 120 + int r * 140 div 10000 + temp * 10 div 60"
proof -
  let ?t = "temp * 175 div 1000" and ?m = "int r * 125 div 10000"
  have t: "0 \<le> ?t" "?t \<le> 1550 * 175 div 1000"
    using assms(1,2) by (simp add: pos_imp_zdiv_nonneg_iff, intro zdiv_mono1 mult_right_mono) simp_all
  have m: "0 \<le> ?m" "?m \<le> 1024 * 125 div 10000" using assms(3) by (simp, intro zdiv_mono1) simp_all
  have w: "uint (word_of_int ?t :: u32) = ?t" using t by (simp add: uint_word_of_int)
  have r: "uint (word_of_nat r * 125 div 10000 :: u32) = ?m"
    using mag_scaled(1) [OF assms(3), of 125] by simp
  have "uint (700 + word_of_int ?t :: u32) = 700 + ?t"
    using w t by (subst uint_plus_small) simp_all
  then have "uint (700 + word_of_int ?t + word_of_nat r * 125 div 10000 :: u32) = 700 + ?t + ?m"
    using r t m by (subst uint_plus_small) simp_all
  moreover have "temp * 175 sdiv 1000 = ?t" using assms(1) by (simp add: sdiv_nonneg)
  ultimately show "uint (telem_rpm temp (word_of_nat r)) = 700 + ?t + ?m" by (simp add: telem_rpm_def)
  let ?k = "int r * 140 div 10000" and ?c = "temp * 10 div 60"
  have k: "0 \<le> ?k" "?k \<le> 1024 * 140 div 10000" using assms(3) by (simp, intro zdiv_mono1) simp_all
  have c: "0 \<le> ?c" "?c \<le> 1550 * 10 div 60" using assms(1,2) by (simp, intro zdiv_mono1) simp_all
  have "sint (word_of_nat r * 140 div 10000 :: u32) = ?k"
    using mag_scaled(2) [OF assms(3), of 140] by simp
  moreover have "temp * 10 sdiv 60 = ?c" using assms(1) by (simp add: sdiv_nonneg)
  ultimately show "telem_throttle temp (word_of_nat r) = 120 + ?k + ?c"
    using k c by (simp add: telem_throttle_def Let_def)
qed

lemma speed_update_small:
  assumes "0 \<le> speed" and "speed \<le> 2000" and "r \<le> 1024"
  obtains v where "speed_update speed (word_of_nat r) = Inr v" and "0 \<le> v" and "v \<le> 2000"
    and "\<bar>v - speed\<bar> \<le> \<bar>(int r - 980) sdiv 10\<bar>"
proof -
  let ?d = "(int r - 980) sdiv 10"
  have "- 98 \<le> ?d \<and> ?d \<le> 98"
    using assms(3) by (cases "int r < 980") (auto simp: sdiv_neg sdiv_nonneg)
  then have "in_i32 (speed + ?d)" using assms(1,2) by (auto simp: in_i32_def)
  then have "speed_update speed (word_of_nat r) =
      Inr (if speed + ?d < 0 then 0 else if speed + ?d > 2000 then 2000 else speed + ?d)"
    using mag_small(2) [OF assms(3)] by (simp add: speed_update_def Let_def)
  then show thesis by (rule that) (use assms(1,2) in \<open>simp_all add: abs_if\<close>)
qed

lemma root_range:
  assumes "m * m \<le> k" and "k < (int r + 1) * (int r + 1)" and "int r * int r \<le> k" and "k < M * M"
    and "0 \<le> m" and "0 \<le> M"
  shows "m \<le> int r" and "int r < M"
proof -
  show "m \<le> int r"
  proof (rule ccontr)
    assume "\<not> m \<le> int r"
    then have "(int r + 1) * (int r + 1) \<le> m * m" by (intro mult_mono) auto
    with assms(1,2) show False by linarith
  qed
  show "int r < M"
  proof (rule ccontr)
    assume "\<not> int r < M"
    then have "M * M \<le> int r * int r" using assms(6) by (intro mult_mono) auto
    with assms(3,4) show False by linarith
  qed
qed

lemma plausible_mag:
  assumes "plausible s"
  shows "960 * 960 \<le> mag_sum s" and "mag_sum s < 1010 * 1010"
proof -
  have sq: "v\<^sup>2 \<le> 10000" if "- 100 \<le> v" "v \<le> 100" for v :: int
    using abs_le_square_iff [of v 100] that by (simp add: abs_le_iff)
  have z: "960 * 960 \<le> v\<^sup>2 \<and> v\<^sup>2 \<le> 1000 * 1000" if "960 \<le> v" "v \<le> 1000" for v :: int
      proof -
    have "960 * 960 \<le> v * v" "v * v \<le> 1000 * 1000" using that by (intro mult_mono; simp)+
    then show ?thesis by (simp add: power2_eq_square)
  qed
  from assms sq [of "sint (sd_accel_x_x100 s)"] sq [of "sint (sd_accel_y_x100 s)"]
    z [of "sint (sd_accel_z_x100 s)"]
  show "960 * 960 \<le> mag_sum s" "mag_sum s < 1010 * 1010" by (auto simp: plausible_def mag_sum_def add_increasing)
qed

lemma process_data_bounds_lemma:
  assumes "plausible s \<or> sentinel s" and "0 \<le> speed" and "speed \<le> 2000"
  shows "\<exists>v t. process_data fault speed s = Inr (v, t) \<and> 0 \<le> v \<and> v \<le> 2000
    \<and> \<bar>v - speed\<bar> \<le> 25 \<and> uint (td_speed_kmh_x10 t) = v \<and> td_sensor t = s
    \<and> uint (td_rpm t) \<in> {747..980} \<and> uint (td_throttle_pct_x10 t) \<in> {166..388}"
proof -
  let ?temp = "sint (sd_temperature_c_x10 s)"
  obtain r where r: "mag_sum s < 2 ^ 31" "int r * int r \<le> mag_sum s" "mag_sum s < (int r + 1) * (int r + 1)"
    "(200 \<le> ?temp \<and> ?temp \<le> 800 \<and> 960 \<le> int r \<and> int r < 1010) \<or> (?temp = 1550 \<and> r = 727)"
  proof (cases "plausible s")
    case True
    note m = plausible_mag [OF True]
    obtain r where "r * r \<le> nat (mag_sum s)" "nat (mag_sum s) < Suc r * Suc r" using isqrt_exists by blast
    then have q: "int (r * r) \<le> mag_sum s" "mag_sum s < int (Suc r * Suc r)" using m(1) by linarith+
    then have q: "int r * int r \<le> mag_sum s" "mag_sum s < (int r + 1) * (int r + 1)"
      by (simp_all add: algebra_simps)
    from root_range [OF m(1) q(2,1) m(2)] have "960 \<le> int r" "int r < 1010" by simp_all
    with m q True show thesis by (intro that [of r]) (auto simp: plausible_def)
  next
    case False
    with assms(1) have "sentinel s" by simp
    then have "mag_sum s = 529200" "?temp = 1550" by (simp_all add: mag_sum_def sentinel_def)
    then show thesis by (intro that [of 727]) simp_all
  qed
  then have small: "r \<le> 1024" by auto
  obtain v where v: "speed_update speed (word_of_nat r) = Inr v" "0 \<le> v" "v \<le> 2000"
    "\<bar>v - speed\<bar> \<le> \<bar>(int r - 980) sdiv 10\<bar>"
    by (rule speed_update_small [OF assms(2,3) small])
  have "\<bar>(int r - 980) sdiv 10\<bar> \<le> 25" using r(4) by (cases "int r < 980") (auto simp: sdiv_neg sdiv_nonneg)
  have t: "0 \<le> ?temp" "?temp \<le> 1550" using r(4) by auto
  note nums = telem_values [OF t small]
  let ?f = "telem_data fault v (word_of_nat r) s"
  have "process_data fault speed s = Inr (v, ?f)"
    using process_data_root [OF r(1-3)] v(1) by simp
  moreover have "\<bar>v - speed\<bar> \<le> 25" using v(4) \<open>\<bar>(int r - 980) sdiv 10\<bar> \<le> 25\<close> by linarith
  moreover have "uint (td_speed_kmh_x10 ?f) = v" "td_sensor ?f = s"
    using v(2,3) by (simp_all add: telem_data_def Let_def uint_word_of_int)
  moreover have "uint (telem_rpm ?temp (word_of_nat r)) \<in> {747..980}
      \<and> telem_throttle ?temp (word_of_nat r) \<in> {166..388}"
  proof (cases "?temp = 1550 \<and> r = 727")
    case True
    then show ?thesis unfolding nums by simp
  next
    case False
    with r(4) have "200 \<le> ?temp" "?temp \<le> 800" "960 \<le> int r" "int r \<le> 1009" by auto
    then show ?thesis
      unfolding nums
      using div_between [of "200 * 175" "?temp * 175" "800 * 175" 1000] div_between [of "960 * 125" "int r * 125" "1009 * 125" 10000]
        div_between [of "200 * 10" "?temp * 10" "800 * 10" 60] div_between [of "960 * 140" "int r * 140" "1009 * 140" 10000]
      by simp
  qed
  then have "uint (td_rpm ?f) \<in> {747..980}" "uint (td_throttle_pct_x10 ?f) \<in> {166..388}"
    by (auto simp: telem_data_def Let_def uint_ucast_16 uint_word_of_int)
  ultimately show ?thesis using v(2,3) by blast
qed

subsection \<open>Properties\<close>

text \<open>C34: \<open>isqrt32\<close> returns the integer square root, rounded down, of every 32-bit number but the
  largest one, whose successor wraps to 0, so that the first step divides by zero.\<close>

theorem isqrt32_correct:
  "if n = - 1 then isqrt32 n = Inl DivByZero
   else \<exists>r. isqrt32 n = Inr r \<and> unat r * unat r \<le> unat n \<and> unat n < Suc (unat r) * Suc (unat r)"
proof (cases "n = - 1")
  case True
  then show ?thesis by (simp add: isqrt32_def isqrt_loop.simps [of "- 1" "- 1" 0] word_less_nat_alt Let_def unat_gt_0)
next
  case False
  obtain s where s: "s * s \<le> unat n" "unat n < Suc s * Suc s" using isqrt_exists by blast
  have "unat n \<noteq> unat (- 1 :: u32)" using False by (metis word_unat_eq_iff)
  moreover have "unat (- 1 :: u32) = 2 ^ 32 - 1" by (simp add: unsigned_minus_1_eq_mask mask_eq_exp_minus_1)
  ultimately have n: "unat n < 2 ^ 32 - 1" using unsigned_less [of n, where 'a = nat] by simp
  have "s < 2 ^ 16"
  proof (rule ccontr)
    assume "\<not> s < 2 ^ 16"
    then have "2 ^ 16 * 2 ^ 16 \<le> s * s" by (intro mult_le_mono) simp_all
    with s(1) n show False by simp
  qed
  then have "unat (word_of_nat s :: u32) = s" by (simp add: unat_of_nat)
  with isqrt32_root [OF n s] s False show ?thesis by auto
qed

text \<open>C36: Without an injected fault every sample of the sensor task is plausible (20.0 to 80.0 degrees,
  accelerations within 1 g of rest), and yet the processing task reports a fault for some of them:
  exactly for those in the phases 29 to 34 of the 63 of the temperature wave, whose peak lies above
  the limit of 75.0 degrees.\<close>

theorem sensor_fault_window:
  assumes "fault \<noteq> FAULT_SENSOR_FAILURE" and "fault' \<noteq> FAULT_SENSOR_FAILURE"
  shows "plausible (fst (sensor_data fault now_ms rng))
    \<and> (td_valid (telem_data fault' speed mag (fst (sensor_data fault now_ms rng)))
        \<longleftrightarrow> uint now_ms div 100 mod 63 \<notin> {29..34})"
proof -
  have k: "plausible (fst (sensor_data fault now_ms rng))"
    "sint (sd_temperature_c_x10 (fst (sensor_data fault now_ms rng))) = sensor_temperature now_ms"
    using sensor_data_kind [of fault now_ms rng] assms(1) by simp_all
  have "sensor_temperature now_ms > 750 \<longleftrightarrow> sensor_phase now_ms \<in> {29..34}"
    using sensor_phase_range [of now_ms] by (auto simp: sensor_temperature_phase Let_def)
  with k assms(2) show ?thesis by (auto simp: telem_data_def Let_def sensor_phase_def)
qed

theorem sensor_fault_window_witness:
  "\<not> td_valid (telem_data FAULT_NONE 0 980 (fst (sensor_data FAULT_NONE 3000 7)))"
  using sensor_fault_window [of FAULT_NONE FAULT_NONE 3000 7 0 980] by simp

text \<open>C35: Processing what the sensor task makes is always defined and stays in bounds: from a speed between 0
  and 200.0 km/h it goes to such a speed, changing it by at most 2.5 km/h, and the engine speed and
  the throttle lie in fixed ranges, far from wrap-around.\<close>

theorem process_data_bounds:
  assumes "plausible s \<or> sentinel s" and "0 \<le> speed" and "speed \<le> 2000"
  shows "\<exists>v t. process_data fault speed s = Inr (v, t) \<and> 0 \<le> v \<and> v \<le> 2000
    \<and> \<bar>v - speed\<bar> \<le> 25 \<and> uint (td_speed_kmh_x10 t) = v \<and> td_sensor t = s
    \<and> uint (td_rpm t) \<in> {747..980} \<and> uint (td_throttle_pct_x10 t) \<in> {166..388}"
  by (rule process_data_bounds_lemma [OF assms])

theorem process_data_bounds_witness:
  "\<exists>v t. process_data FAULT_SENSOR_FAILURE 100 (fst (sensor_data FAULT_SENSOR_FAILURE 5 7)) = Inr (v, t)
    \<and> 0 \<le> v \<and> uint (td_rpm t) \<in> {747..980}"
proof -
  have "sentinel (fst (sensor_data FAULT_SENSOR_FAILURE 5 7))"
    using sensor_data_kind [of FAULT_SENSOR_FAILURE 5 7] by simp
  then show ?thesis
    using process_data_bounds [of "fst (sensor_data FAULT_SENSOR_FAILURE 5 7)" 100 FAULT_SENSOR_FAILURE] by auto
qed

end
