(* ===== verification/Uart.thy ===== *)
theory Uart
  imports MiniPrintf
begin

text \<open>
  The serial port of the lm3s build, \<open>src/src/uart.c\<close>. The two registers are the readings of the flag
  register to come and the values written to the data register. Writing a character polls the flag
  "transmit FIFO full"; where the readings run out, the caller is still polling (\<open>None\<close>). \<open>char\<close> is
  unsigned on the target.
\<close>

record uart =
  fr_reads :: "u32 list"
  dr_writes :: "u32 list"

definition UART0_FR_TXFF :: u32 where
  "UART0_FR_TXFF = push_bit 5 1"

fun tx_wait :: "u32 list \<Rightarrow> u32 list option" where
  "tx_wait [] = None"
| "tx_wait (fr # rs) = (if fr AND UART0_FR_TXFF \<noteq> 0 then tx_wait rs else Some rs)"

definition uart_putchar :: "char \<Rightarrow> uart \<Rightarrow> uart option" where
  "uart_putchar c u =
     map_option (\<lambda>rs. u\<lparr>fr_reads := rs, dr_writes := dr_writes u @ [of_char c]\<rparr>) (tx_wait (fr_reads u))"

fun uart_puts :: "string \<Rightarrow> uart \<Rightarrow> uart option" where
  "uart_puts s u =
     (if peek s \<noteq> NUL
      then (case uart_putchar (peek s) u of None \<Rightarrow> None | Some u' \<Rightarrow> uart_puts (tl s) u')
      else Some u)"

declare uart_puts.simps [simp del]

text \<open>
  \<open>uart_printf\<close> formats into 256 bytes on the stack. The outer option is the polling, the sum the
  formatter's undefined behaviour; the string read is the buffer up to its NUL.
\<close>

definition uart_printf :: "'d dbl \<Rightarrow> string \<Rightarrow> string \<Rightarrow> 'd parg list \<Rightarrow> uart \<Rightarrow> c_ub + uart option" where
  "uart_printf D garbage fmt args u =
     (case mini_vsnprintf D 256 garbage fmt args of
        Inl e \<Rightarrow> Inl e
      | Inr (buf, n) \<Rightarrow> map_sum id (\<lambda>s. uart_puts s u) (c_string buf))"

subsection \<open>What arrives on the line\<close>

definition tx_ready :: "u32 \<Rightarrow> bool" where
  "tx_ready fr \<longleftrightarrow> fr AND UART0_FR_TXFF = 0"

lemma tx_wait_ready: "tx_wait rs = (case dropWhile (\<lambda>fr. \<not> tx_ready fr) rs of [] \<Rightarrow> None | _ # r \<Rightarrow> Some r)"
  by (induction rs) (simp_all add: tx_ready_def)

lemma tx_wait_count:
  "(tx_wait rs = None \<longleftrightarrow> filter tx_ready rs = [])
    \<and> (tx_wait rs = Some r \<longrightarrow> (\<exists>fr. filter tx_ready rs = fr # filter tx_ready r))"
  by (induction rs) (auto simp: tx_ready_def)

lemma tx_wait_cases:
  obtains "tx_wait rs = None" and "filter tx_ready rs = []"
  | r where "tx_wait rs = Some r" and "length (filter tx_ready rs) = Suc (length (filter tx_ready r))"
proof (cases "tx_wait rs")
  case None
  with tx_wait_count [of rs] that(1) show thesis by blast
next
  case (Some r)
  with tx_wait_count [of rs r] that(2) [of r] show thesis by auto
qed

text \<open>A string arrives whole, in order, exactly if the line becomes ready often enough.\<close>

lemma uart_puts_sends:
  "if length (up_to_nul s) \<le> length (filter tx_ready (fr_reads u))
   then \<exists>rs. uart_puts s u = Some (u\<lparr>fr_reads := rs, dr_writes := dr_writes u @ map of_char (up_to_nul s)\<rparr>)
          \<and> length (filter tx_ready (fr_reads u)) = length (up_to_nul s) + length (filter tx_ready rs)
   else uart_puts s u = None"
proof (induction s arbitrary: u)
  case Nil
  show ?case by (auto simp: uart_puts.simps intro!: exI [of _ "fr_reads u"])
next
  case (Cons c s)
  show ?case
  proof (cases "c = NUL")
    case True
    then show ?thesis by (auto simp: uart_puts.simps [of "NUL # s"] intro!: exI [of _ "fr_reads u"])
  next
    case False
    show ?thesis
    proof (cases rule: tx_wait_cases [of "fr_reads u"])
      case 1
      with False show ?thesis by (simp add: uart_puts.simps [of "c # s"] uart_putchar_def)
    next
      case (2 r)
      with False Cons.IH [of "u\<lparr>fr_reads := r, dr_writes := dr_writes u @ [of_char c]\<rparr>"] show ?thesis
        by (auto simp: uart_puts.simps [of "c # s"] uart_putchar_def split: if_splits)
    qed
  qed
qed

lemma c_string_app: "nul_free s \<Longrightarrow> c_string (s @ NUL # r) = Inr s"
  by (induction s) (auto simp: c_string_def nul_free_def split: if_splits)

lemma mini_vsnprintf_shown:
  assumes "length g = sz" and "0 < sz" and "mp_render D fmt args = Inr t" and "nul_free t"
  obtains buf where "mini_vsnprintf D sz g fmt args = Inr (buf, length t)"
    and "c_string buf = Inr (take (sz - 1) t)"
proof
  let ?s = "take (sz - 1) t"
  let ?buf = "?s @ NUL # drop (Suc (min (length t) (sz - 1))) g"
  show "mini_vsnprintf D sz g fmt args = Inr (?buf, length t)"
    using assms mini_vsnprintf_text [OF assms(1), of D fmt args] by simp
  have "nul_free ?s" using assms(4) by (rule nul_free_take)
  then show "c_string ?buf = Inr ?s" by (rule c_string_app)
qed

end
