(* ===== verification/Syscalls.thy ===== *)
theory Syscalls
  imports Complex_Main Uart
begin

text \<open>
  The C library of the lm3s build, \<open>src/src/syscalls.c\<close>: memory, strings, the \<open>printf\<close> family over
  the formatter of \<open>MiniPrintf\<close>, and the floating-point functions. The definitions carry the prefix
  \<open>sys_\<close>, since the firmware of the other board has its own functions of the same names. As there,
  memory is a map from addresses to bytes; a string that is only read is the list of its characters
  before the NUL, and one that is written to is a place in memory. Loops that count down are recursions
  over their counter; loops that may run for ever are partial functions, where \<open>None\<close> is not
  returning. The functions \<open>abort\<close> and \<open>free\<close> have no result.
\<close>

subsection \<open>Memory\<close>

definition sys_malloc :: "u32 \<Rightarrow> nat option" where
  "sys_malloc n = None"

definition sys_xPortGetFreeHeapSize :: u32 where
  "sys_xPortGetFreeHeapSize = 0"

definition sys_abs :: "i32 \<Rightarrow> c_ub + i32" where
  "sys_abs x =
     (if sint x < 0 then if sint x = - (2 ^ 31) then Inl SignedOverflow else Inr (- x) else Inr x)"

fun fill_up :: "mem \<Rightarrow> nat \<Rightarrow> int \<Rightarrow> nat \<Rightarrow> mem" where
  "fill_up m d c 0 = m"
| "fill_up m d c (Suc n) = fill_up (m(d := word_of_int c)) (d + 1) c n"

definition sys_memset :: "mem \<Rightarrow> nat \<Rightarrow> int \<Rightarrow> nat \<Rightarrow> mem \<times> nat" where
  "sys_memset m dst c n = (fill_up m dst c n, dst)"

fun copy_up :: "mem \<Rightarrow> nat \<Rightarrow> nat \<Rightarrow> nat \<Rightarrow> mem" where
  "copy_up m d s 0 = m"
| "copy_up m d s (Suc n) = copy_up (m(d := m s)) (d + 1) (s + 1) n"

fun copy_down :: "mem \<Rightarrow> nat \<Rightarrow> nat \<Rightarrow> nat \<Rightarrow> mem" where
  "copy_down m d s 0 = m"
| "copy_down m d s (Suc n) = copy_down (m(d - 1 := m (s - 1))) (d - 1) (s - 1) n"

definition sys_memcpy :: "mem \<Rightarrow> nat \<Rightarrow> nat \<Rightarrow> nat \<Rightarrow> mem \<times> nat" where
  "sys_memcpy m dst src n = (copy_up m dst src n, dst)"

definition sys_memmove :: "mem \<Rightarrow> nat \<Rightarrow> nat \<Rightarrow> nat \<Rightarrow> mem \<times> nat" where
  "sys_memmove m dst src n =
     (if dst < src then copy_up m dst src n else copy_down m (dst + n) (src + n) n, dst)"

fun sys_memcmp :: "mem \<Rightarrow> nat \<Rightarrow> nat \<Rightarrow> nat \<Rightarrow> int" where
  "sys_memcmp m p q 0 = 0"
| "sys_memcmp m p q (Suc n) =
     (if m p \<noteq> m q then uint (m p) - uint (m q) else sys_memcmp m (p + 1) (q + 1) n)"

lemma fill_up_spec: "fill_up m d c n a = (if d \<le> a \<and> a < d + n then word_of_int c else m a)"
  by (induction n arbitrary: m d) auto

lemma copy_up_spec:
  assumes "d \<le> s \<or> s + n \<le> d"
  shows "copy_up m d s n a = (if d \<le> a \<and> a < d + n then m (s + (a - d)) else m a)"
  using assms
proof (induction n arbitrary: m d s)
  case 0
  then show ?case by auto
next
  case (Suc n)
  let ?m = "m(d := m s)"
  have "copy_up m d s (Suc n) a = copy_up ?m (d + 1) (s + 1) n a" by simp
  also have "\<dots> = (if d + 1 \<le> a \<and> a < d + 1 + n then ?m (s + 1 + (a - (d + 1))) else ?m a)"
    by (rule Suc.IH) (use Suc.prems in auto)
  also have "\<dots> = (if d \<le> a \<and> a < d + Suc n then m (s + (a - d)) else m a)"
  proof (cases "Suc d \<le> a")
    case True
    then have "s + 1 + (a - (d + 1)) = s + (a - d)" by arith
    with True Suc.prems show ?thesis by auto
  qed auto
  finally show ?case .
qed

lemma copy_down_spec:
  "s \<le> d \<Longrightarrow> copy_down m (d + n) (s + n) n a = (if d \<le> a \<and> a < d + n then m (s + (a - d)) else m a)"
proof (induction n arbitrary: m)
  case 0
  then show ?case by auto
next
  case (Suc n)
  let ?m = "m(d + n := m (s + n))"
  have "copy_down m (d + Suc n) (s + Suc n) (Suc n) a = copy_down ?m (d + n) (s + n) n a" by simp
  also have "\<dots> = (if d \<le> a \<and> a < d + n then ?m (s + (a - d)) else ?m a)"
    by (rule Suc.IH [OF Suc.prems])
  also have "\<dots> = (if d \<le> a \<and> a < d + Suc n then m (s + (a - d)) else m a)"
    using Suc.prems by (cases "a = d + n") auto
  finally show ?case .
qed

lemma sys_memcmp_spec: "sys_memcmp m p q n = 0 \<longleftrightarrow> region m p n = region m q n"
proof (induction n arbitrary: p q)
  case 0
  then show ?case by (simp add: region_def)
next
  case (Suc n)
  have r: "region m a (Suc n) = m a # region m (a + 1) n" for a
    by (simp add: region_def upt_rec)
  show ?case
    using Suc.IH [of "p + 1" "q + 1"] by (auto simp: r dest: unsigned_word_eqI)
qed

interpretation sys_copy: byte_copy "\<lambda>m d s n. fst (sys_memcpy m d s n)" "\<lambda>d s n. d \<le> s \<or> s + n \<le> d"
  by unfold_locales (simp add: sys_memcpy_def copy_up_spec)

interpretation sys_move: byte_copy "\<lambda>m d s n. fst (sys_memmove m d s n)" "\<lambda>d s n. True"
  by unfold_locales (simp add: sys_memmove_def copy_up_spec copy_down_spec)

subsection \<open>Strings\<close>

fun sys_strlen_loop :: "string \<Rightarrow> nat \<Rightarrow> nat" where
  "sys_strlen_loop p k = (if peek p \<noteq> NUL then sys_strlen_loop (tl p) (k + 1) else k)"

declare sys_strlen_loop.simps [simp del]

definition sys_strlen :: "string \<Rightarrow> nat" where
  "sys_strlen s = sys_strlen_loop s 0"

text \<open>The copies work in memory, where source and destination may overlap.\<close>

partial_function (option) strcpy_loop :: "mem \<Rightarrow> nat \<Rightarrow> nat \<Rightarrow> mem option" where
  "strcpy_loop m d s =
     (let m' = m(d := m s) in if m' d \<noteq> 0 then strcpy_loop m' (d + 1) (s + 1) else Some m')"

definition sys_strcpy :: "mem \<Rightarrow> nat \<Rightarrow> nat \<Rightarrow> (mem \<times> nat) option" where
  "sys_strcpy m dst src = map_option (\<lambda>m'. (m', dst)) (strcpy_loop m dst src)"

text \<open>
  The first loop of \<open>strncpy\<close>, \<open>while (n && (*d++ = *src++)) n--\<close>, leaves the counter as it is when it
  has copied the NUL.
\<close>

fun strncpy_loop :: "mem \<Rightarrow> nat \<Rightarrow> nat \<Rightarrow> nat \<Rightarrow> mem \<times> nat \<times> nat" where
  "strncpy_loop m d s 0 = (m, d, 0)"
| "strncpy_loop m d s (Suc n) =
     (let m' = m(d := m s) in if m' d \<noteq> 0 then strncpy_loop m' (d + 1) (s + 1) n else (m', d + 1, Suc n))"

definition sys_strncpy :: "mem \<Rightarrow> nat \<Rightarrow> nat \<Rightarrow> nat \<Rightarrow> mem \<times> nat" where
  "sys_strncpy m dst src n = (let (m, d, n) = strncpy_loop m dst src n in (fill_up m d 0 n, dst))"

fun sys_strcmp :: "string \<Rightarrow> string \<Rightarrow> int" where
  "sys_strcmp a b =
     (if peek a \<noteq> NUL \<and> peek a = peek b then sys_strcmp (tl a) (tl b)
      else of_char (peek a) - of_char (peek b))"

declare sys_strcmp.simps [simp del]

fun sys_strncmp :: "string \<Rightarrow> string \<Rightarrow> nat \<Rightarrow> int" where
  "sys_strncmp a b n =
     (if n \<noteq> 0 \<and> peek a \<noteq> NUL \<and> peek a = peek b then sys_strncmp (tl a) (tl b) (n - 1)
      else if n = 0 then 0
      else of_char (peek a) - of_char (peek b))"

declare sys_strncmp.simps [simp del]

text \<open>The pointer that \<open>strchr\<close> returns is its distance from the start of the string.\<close>

fun strchr_loop :: "string \<Rightarrow> int \<Rightarrow> nat \<Rightarrow> nat option" where
  "strchr_loop s c k =
     (if peek s \<noteq> NUL
      then if peek s = char_of c then Some k else strchr_loop (tl s) c (k + 1)
      else if c = 0 then Some k else None)"

declare strchr_loop.simps [simp del]

definition sys_strchr :: "string \<Rightarrow> int \<Rightarrow> nat option" where
  "sys_strchr s c = strchr_loop s c 0"

subsection \<open>What the string functions do\<close>

definition str_at :: "mem \<Rightarrow> nat \<Rightarrow> nat \<Rightarrow> bool" where
  "str_at m s k \<longleftrightarrow> (\<forall>i < k. m (s + i) \<noteq> 0) \<and> m (s + k) = 0"

lemma str_at_step:
  assumes "str_at m s (Suc k)" and "d \<le> s \<or> s + Suc k < d"
  shows "str_at (m(d := m s)) (s + 1) k"
  using assms by (auto simp: str_at_def less_Suc_eq_0_disj)

lemma strcpy_loop_step:
  "strcpy_loop m d s =
     (if m s \<noteq> 0 then strcpy_loop (m(d := m s)) (d + 1) (s + 1) else Some (m(d := m s)))"
  by (subst strcpy_loop.simps) (simp add: Let_def)

lemma strncpy_loop_step:
  "strncpy_loop m d s (Suc n) =
     (if m s \<noteq> 0 then strncpy_loop (m(d := m s)) (d + 1) (s + 1) n else (m(d := m s), d + 1, Suc n))"
  by (simp add: Let_def)

declare strncpy_loop.simps(2) [simp del]

lemma strcpy_loop_copies:
  "str_at m s k \<Longrightarrow> d \<le> s \<or> s + k < d \<Longrightarrow> strcpy_loop m d s = Some (copy_up m d s (Suc k))"
proof (induction k arbitrary: m d s)
  case 0
  then show ?case by (simp add: strcpy_loop_step [of m d s] str_at_def del: fun_upd_apply)
next
  case (Suc k)
  have "m s \<noteq> 0" using Suc.prems(1) by (force simp: str_at_def)
  with Suc.IH [OF str_at_step [OF Suc.prems]] Suc.prems(2) show ?case
    by (auto simp: strcpy_loop_step [of m d s] simp del: fun_upd_apply)
qed

text \<open>A copy onto the string's own tail overwrites the NUL before it gets there.\<close>

lemma strcpy_loop_chases:
  assumes "\<forall>a. s \<le> a \<and> a < d \<longrightarrow> m a \<noteq> 0" and "s < d"
  shows "strcpy_loop m d s = None"
proof (rule ccontr)
  let ?P = "\<lambda>m d s y. \<not> ((\<forall>a. s \<le> a \<and> a < d \<longrightarrow> m a \<noteq> (0 :: u8)) \<and> s < (d :: nat))"
  assume "strcpy_loop m d s \<noteq> None"
  then obtain y where ret: "strcpy_loop m d s = Some y" by auto
  have "?P m d s y"
  proof (rule strcpy_loop.raw_induct [where P = ?P, OF _ ret])
    fix f :: "mem \<Rightarrow> nat \<Rightarrow> nat \<Rightarrow> mem option" and m d s y
    assume IH: "\<And>m d s y. f m d s = Some y \<Longrightarrow> ?P m d s y"
      and eq: "(let m' = m(d := m s) in if m' d \<noteq> 0 then f m' (d + 1) (s + 1) else Some m') = Some y"
    show "?P m d s y"
    proof
      assume inv: "(\<forall>a. s \<le> a \<and> a < d \<longrightarrow> m a \<noteq> 0) \<and> s < d"
      then have "m s \<noteq> 0" by auto
      with eq have "f (m(d := m s)) (d + 1) (s + 1) = Some y" by simp
      from IH [OF this] inv \<open>m s \<noteq> 0\<close> show False by (auto split: if_splits)
    qed
  qed
  with assms show False by blast
qed

lemma strncpy_loop_short:
  "str_at m s k \<Longrightarrow> k < n \<Longrightarrow> d \<le> s \<or> s + k < d
    \<Longrightarrow> strncpy_loop m d s n = (copy_up m d s (Suc k), d + Suc k, n - k)"
proof (induction k arbitrary: m d s n)
  case 0
  then show ?case by (cases n) (auto simp: str_at_def strncpy_loop_step simp del: fun_upd_apply)
next
  case (Suc k)
  obtain j where n: "n = Suc j" using Suc.prems(2) by (cases n) auto
  have "m s \<noteq> 0" using Suc.prems(1) by (force simp: str_at_def)
  with Suc.IH [OF str_at_step [OF Suc.prems(1,3)], of j "d + 1"] Suc.prems n show ?case
    by (auto simp: strncpy_loop_step simp del: fun_upd_apply)
qed

lemma sys_strcmp_eq: "sys_strcmp a b = strcmp a b"
  by (induction a b rule: sys_strcmp.induct) (subst sys_strcmp.simps, subst strcmp.simps, simp)

lemma sys_strncmp_take: "sys_strncmp a b n = strcmp (take n a) (take n b)"
proof (induction a b n rule: sys_strncmp.induct)
  case (1 a b n)
  have p: "peek (take n s) = (if n = 0 then NUL else peek s)" for s by (cases s; cases n) auto
  have t: "tl (take n s) = take (n - 1) (tl s)" for s :: string by (cases s; cases n) auto
  show ?case
    using 1 by (subst sys_strncmp.simps, subst strcmp.simps) (auto simp: p t)
qed

lemma strchr_loop_spec:
  assumes "nul_free s"
  shows "strchr_loop s c k =
    (if char_of c \<in> set s then Some (k + length (takeWhile (\<lambda>x. x \<noteq> char_of c) s))
     else if c = 0 then Some (k + length s) else None)"
  using assms
proof (induction s arbitrary: k)
  case Nil
  then show ?case by (simp add: strchr_loop.simps)
next
  case (Cons x s)
  then have "strchr_loop (x # s) c k = (if x = char_of c then Some k else strchr_loop s c (k + 1))"
    by (simp add: strchr_loop.simps [of "x # s"])
  with Cons.IH [of "k + 1"] Cons.prems show ?case by auto
qed

subsection \<open>The \<open>printf\<close> family\<close>

definition sys_vsnprintf :: "'d dbl \<Rightarrow> nat \<Rightarrow> string \<Rightarrow> string \<Rightarrow> 'd parg list \<Rightarrow> c_ub + (string \<times> nat)" where
  "sys_vsnprintf D sz garbage fmt args = mini_vsnprintf D sz garbage fmt args"

definition sys_snprintf :: "'d dbl \<Rightarrow> nat \<Rightarrow> string \<Rightarrow> string \<Rightarrow> 'd parg list \<Rightarrow> c_ub + (string \<times> nat)" where
  "sys_snprintf D sz garbage fmt args = mini_vsnprintf D sz garbage fmt args"

definition sys_printf :: "'d dbl \<Rightarrow> string \<Rightarrow> string \<Rightarrow> 'd parg list \<Rightarrow> uart \<Rightarrow> c_ub + (uart \<times> nat) option" where
  "sys_printf D garbage fmt args u =
     (case mini_vsnprintf D 256 garbage fmt args of
        Inl e \<Rightarrow> Inl e
      | Inr (buf, r) \<Rightarrow> map_sum id (\<lambda>s. map_option (\<lambda>u. (u, r)) (uart_puts s u)) (c_string buf))"

subsection \<open>Floating point\<close>

text \<open>
  The operations on \<open>float\<close> are parameters; \<open>fl_lit m d\<close> is the literal with the digits \<open>m\<close>, \<open>d\<close> of them
  after the point, \<open>fl_less\<close> and \<open>fl_le\<close> are \<open><\<close> and \<open><=\<close>.
\<close>

record 'g flt =
  fl_lit :: "int \<Rightarrow> nat \<Rightarrow> 'g"
  fl_less :: "'g \<Rightarrow> 'g \<Rightarrow> bool"
  fl_le :: "'g \<Rightarrow> 'g \<Rightarrow> bool"
  fl_add :: "'g \<Rightarrow> 'g \<Rightarrow> 'g"
  fl_sub :: "'g \<Rightarrow> 'g \<Rightarrow> 'g"
  fl_mul :: "'g \<Rightarrow> 'g \<Rightarrow> 'g"
  fl_div :: "'g \<Rightarrow> 'g \<Rightarrow> 'g"
  fl_neg :: "'g \<Rightarrow> 'g"

definition flt_PI :: "'g flt \<Rightarrow> 'g" where
  "flt_PI F = fl_lit F 314159265 8"

definition flt_TWO_PI :: "'g flt \<Rightarrow> 'g" where
  "flt_TWO_PI F = fl_lit F 628318530 8"

partial_function (option) sin_down :: "'g flt \<Rightarrow> 'g \<Rightarrow> 'g option" where
  "sin_down F x = (if fl_less F (flt_PI F) x then sin_down F (fl_sub F x (flt_TWO_PI F)) else Some x)"

partial_function (option) sin_up :: "'g flt \<Rightarrow> 'g \<Rightarrow> 'g option" where
  "sin_up F x =
     (if fl_less F x (fl_neg F (flt_PI F)) then sin_up F (fl_add F x (flt_TWO_PI F)) else Some x)"

definition sin_series :: "'g flt \<Rightarrow> 'g \<Rightarrow> 'g" where
  "sin_series F x =
     (let x2 = fl_mul F x x; x3 = fl_mul F x2 x; x5 = fl_mul F x3 x2; x7 = fl_mul F x5 x2
      in fl_sub F (fl_add F (fl_sub F x (fl_div F x3 (fl_lit F 60 1))) (fl_div F x5 (fl_lit F 1200 1)))
           (fl_div F x7 (fl_lit F 50400 1)))"

definition sys_sinf :: "'g flt \<Rightarrow> 'g \<Rightarrow> 'g option" where
  "sys_sinf F x = map_option (sin_series F) (Option.bind (sin_down F x) (sin_up F))"

definition sys_cosf :: "'g flt \<Rightarrow> 'g \<Rightarrow> 'g option" where
  "sys_cosf F x = sys_sinf F (fl_add F x (fl_lit F 15707963 7))"

function sqrt_loop :: "'g flt \<Rightarrow> 'g \<Rightarrow> nat \<Rightarrow> 'g \<Rightarrow> 'g" where
  "sqrt_loop F x i g =
     (if i < 8 then sqrt_loop F x (Suc i) (fl_mul F (fl_add F g (fl_div F x g)) (fl_lit F 5 1)) else g)"
  by pat_completeness auto
termination
  by (relation "measure (\<lambda>(F, x, i, g). 8 - i)") auto

declare sqrt_loop.simps [simp del]

definition sys_sqrtf :: "'g flt \<Rightarrow> 'g \<Rightarrow> 'g" where
  "sys_sqrtf F x =
     (if fl_le F x (fl_lit F 0 1) then fl_lit F 0 1 else sqrt_loop F x 0 (fl_mul F x (fl_lit F 5 1)))"

definition sys_fabsf :: "'g flt \<Rightarrow> 'g \<Rightarrow> 'g" where
  "sys_fabsf F x = (if fl_less F x (fl_lit F 0 1) then fl_neg F x else x)"

text \<open>A loop that subtracts without effect never ends.\<close>

lemma sin_down_stuck:
  assumes "fl_less F (flt_PI F) x" and "fl_sub F x (flt_TWO_PI F) = x"
  shows "sin_down F x = None"
proof (rule ccontr)
  assume "sin_down F x \<noteq> None"
  then obtain y where ret: "sin_down F x = Some y" by auto
  have "F = F \<longrightarrow> x \<noteq> x"
  proof (rule sin_down.raw_induct [where P = "\<lambda>F' x' y. F' = F \<longrightarrow> x' \<noteq> x" and xa = "(F, x)",
        unfolded prod.case, OF _ ret], rule impI)
    fix f :: "'a flt \<Rightarrow> 'a \<Rightarrow> 'a option" and F' x' y
    assume IH: "\<And>F' x' y. f F' x' = Some y \<Longrightarrow> F' = F \<longrightarrow> x' \<noteq> x"
      and eq: "(if fl_less F' (flt_PI F') x' then f F' (fl_sub F' x' (flt_TWO_PI F')) else Some x') = Some y"
      and "F' = F"
    show "x' \<noteq> x"
    proof
      assume "x' = x"
      with eq assms \<open>F' = F\<close> have "f F x = Some y" by simp
      from IH [OF this] show False by simp
    qed
  qed
  then show False by simp
qed

subsection \<open>Exact arithmetic\<close>

definition real_flt :: "real flt" where
  "real_flt = \<lparr>fl_lit = \<lambda>m d. of_int m / 10 ^ d, fl_less = (<), fl_le = (\<le>), fl_add = (+), fl_sub = (-),
     fl_mul = (*), fl_div = (/), fl_neg = uminus\<rparr>"

lemma flt_PI_real: "0 < flt_PI real_flt" and flt_TWO_PI_real: "flt_TWO_PI real_flt = 2 * flt_PI real_flt"
  by (simp_all add: flt_PI_def flt_TWO_PI_def real_flt_def)

lemma sin_down_real:
  "x \<le> flt_PI real_flt + of_nat k * flt_TWO_PI real_flt \<Longrightarrow>
    \<exists>j. sin_down real_flt x = Some (x - of_nat j * flt_TWO_PI real_flt)
      \<and> x - of_nat j * flt_TWO_PI real_flt \<le> flt_PI real_flt
      \<and> (j = 0 \<or> - flt_PI real_flt \<le> x - of_nat j * flt_TWO_PI real_flt)"
proof (induction k arbitrary: x)
  case 0
  then show ?case by (intro exI [of _ 0]) (simp add: sin_down.simps [of _ x] real_flt_def)
next
  case (Suc k)
  let ?P = "flt_PI real_flt" and ?T = "flt_TWO_PI real_flt"
  show ?case
  proof (cases "?P < x")
    case True
    have "x - ?T \<le> ?P + of_nat k * ?T" using Suc.prems by (simp add: algebra_simps)
    from Suc.IH [OF this] obtain j where j: "sin_down real_flt (x - ?T) = Some (x - ?T - of_nat j * ?T)"
      "x - ?T - of_nat j * ?T \<le> ?P" "j = 0 \<or> - ?P \<le> x - ?T - of_nat j * ?T" by blast
    have "sin_down real_flt x = sin_down real_flt (x - ?T)"
      using True by (subst sin_down.simps) (simp add: real_flt_def)
    with j True flt_TWO_PI_real show ?thesis
      by (intro exI [of _ "Suc j"]) (auto simp: algebra_simps)
  next
    case False
    then show ?thesis by (intro exI [of _ 0]) (simp add: sin_down.simps [of _ x] real_flt_def)
  qed
qed

lemma sin_up_real:
  "- flt_PI real_flt \<le> x + of_nat k * flt_TWO_PI real_flt \<Longrightarrow> x \<le> flt_PI real_flt \<Longrightarrow>
    \<exists>j. sin_up real_flt x = Some (x + of_nat j * flt_TWO_PI real_flt)
      \<and> - flt_PI real_flt \<le> x + of_nat j * flt_TWO_PI real_flt
      \<and> x + of_nat j * flt_TWO_PI real_flt \<le> flt_PI real_flt"
proof (induction k arbitrary: x)
  case 0
  then show ?case by (intro exI [of _ 0]) (simp add: sin_up.simps [of _ x] real_flt_def)
next
  case (Suc k)
  let ?P = "flt_PI real_flt" and ?T = "flt_TWO_PI real_flt"
  show ?case
  proof (cases "x < - ?P")
    case True
    have "- ?P \<le> x + ?T + of_nat k * ?T" using Suc.prems by (simp add: algebra_simps)
    moreover have "x + ?T \<le> ?P" using True flt_TWO_PI_real by simp
    ultimately obtain j where j: "sin_up real_flt (x + ?T) = Some (x + ?T + of_nat j * ?T)"
      "- ?P \<le> x + ?T + of_nat j * ?T" "x + ?T + of_nat j * ?T \<le> ?P" using Suc.IH by blast
    have "sin_up real_flt x = sin_up real_flt (x + ?T)"
      using True by (subst sin_up.simps) (simp add: real_flt_def)
    with j show ?thesis by (intro exI [of _ "Suc j"]) (auto simp: algebra_simps)
  next
    case False
    with Suc.prems show ?thesis by (intro exI [of _ 0]) (simp add: sin_up.simps [of _ x] real_flt_def)
  qed
qed

text \<open>With exact arithmetic the reduction ends, within one period of the argument.\<close>

lemma sinf_exact:
  "\<exists>k :: int. \<bar>x + of_int k * flt_TWO_PI real_flt\<bar> \<le> flt_PI real_flt
    \<and> sys_sinf real_flt x = Some (sin_series real_flt (x + of_int k * flt_TWO_PI real_flt))"
proof -
  let ?P = "flt_PI real_flt" and ?T = "flt_TWO_PI real_flt"
  have T: "0 < ?T" using flt_PI_real flt_TWO_PI_real by simp
  obtain n where "x - ?P < of_nat n * ?T" using reals_Archimedean3 [OF T] by blast
  then have "x \<le> ?P + of_nat n * ?T" by simp
  then obtain j where down: "sin_down real_flt x = Some (x - of_nat j * ?T)" "x - of_nat j * ?T \<le> ?P"
    using sin_down_real by blast
  let ?y = "x - of_nat j * ?T"
  obtain m where "- ?P - ?y < of_nat m * ?T" using reals_Archimedean3 [OF T] by blast
  then have "- ?P \<le> ?y + of_nat m * ?T" by simp
  then obtain i where up: "sin_up real_flt ?y = Some (?y + of_nat i * ?T)"
    "- ?P \<le> ?y + of_nat i * ?T" "?y + of_nat i * ?T \<le> ?P"
    using sin_up_real down(2) by blast
  have "?y + of_nat i * ?T = x + of_int (int i - int j) * ?T" by (simp add: algebra_simps)
  with up down(1) show ?thesis
    by (intro exI [of _ "int i - int j"]) (simp add: sys_sinf_def abs_le_iff)
qed

lemma sqrt_loop_real:
  "0 < x \<Longrightarrow> 0 < g \<Longrightarrow> i < 8 \<Longrightarrow>
    g / 2 ^ (8 - i) \<le> sqrt_loop real_flt x i g \<and> x \<le> (sqrt_loop real_flt x i g)\<^sup>2"
proof (induction real_flt x i g rule: sqrt_loop.induct)
  case (1 x i g)
  let ?g = "(g + x / g) / 2"
  have step: "sqrt_loop real_flt x i g = sqrt_loop real_flt x (Suc i) ?g"
    using "1.prems" by (subst sqrt_loop.simps) (simp add: real_flt_def)
  have half: "g / 2 \<le> ?g" and pos: "0 < ?g" using "1.prems" by (simp_all add: field_simps add_pos_pos)
  have "0 \<le> (g - x / g)\<^sup>2" by simp
  then have sq: "x \<le> ?g\<^sup>2" using "1.prems"
    by (simp add: power2_eq_square field_simps)
  show ?case
  proof (cases "Suc i < 8")
    case True
    have e: "fl_mul real_flt (fl_add real_flt g (fl_div real_flt x g)) (fl_lit real_flt 5 1) = ?g"
      by (simp add: real_flt_def)
    from "1.hyps" [unfolded e, OF "1.prems"(3,1) pos True]
    have ih: "?g / 2 ^ (8 - Suc i) \<le> sqrt_loop real_flt x (Suc i) ?g"
      "x \<le> (sqrt_loop real_flt x (Suc i) ?g)\<^sup>2" by simp_all
    have "g / 2 ^ (8 - i) = (g / 2) / 2 ^ (8 - Suc i)"
      using "1.prems"(3) by (simp add: Suc_diff_Suc [symmetric] power_Suc)
    also have "\<dots> \<le> ?g / 2 ^ (8 - Suc i)" using half by (intro divide_right_mono) simp_all
    finally show ?thesis using ih step by simp
  next
    case False
    then have i: "i = 7" using "1.prems"(3) by simp
    then have r: "sqrt_loop real_flt x i g = ?g"
      using step sqrt_loop.simps [of real_flt x 8 ?g] by simp
    show ?thesis unfolding r using half sq i by simp
  qed
qed

subsection \<open>Properties\<close>

text \<open>C30: \<open>memmove\<close> returns its destination and moves the region whatever the overlap: the destination
  holds what the source held, and no other byte changes. Where source and destination do not overlap
  the regions then compare equal under \<open>memcmp\<close>, and a second move back changes nothing.\<close>

theorem memmove_correct:
  "snd (sys_memmove m d s n) = d \<and> region (fst (sys_memmove m d s n)) d n = region m s n
    \<and> (\<forall>a. a < d \<or> d + n \<le> a \<longrightarrow> fst (sys_memmove m d s n) a = m a)
    \<and> (d + n \<le> s \<or> s + n \<le> d \<longrightarrow>
        sys_memcmp (fst (sys_memmove m d s n)) d s n = 0
        \<and> fst (sys_memmove (fst (sys_memmove m d s n)) s d n) = fst (sys_memmove m d s n))"
proof -
  let ?m = "fst (sys_memmove m d s n)"
  have r: "region ?m d n = region m s n" by (simp add: region_eq_iff sys_move.copied)
  have other: "a < d \<or> d + n \<le> a \<Longrightarrow> ?m a = m a" for a by (rule sys_move.elsewhere) auto
  have "region ?m s n = region m s n" if "d + n \<le> s \<or> s + n \<le> d"
    using that by (auto simp: region_eq_iff intro!: other)
  moreover have "fst (sys_memmove ?m s d n) = ?m" if "d + n \<le> s \<or> s + n \<le> d"
    by (rule sys_move.copy_back) (use that in auto)
  moreover have "snd (sys_memmove m d s n) = d" by (simp add: sys_memmove_def)
  ultimately show ?thesis using r other by (simp add: sys_memcmp_spec)
qed

theorem memmove_correct_witness:
  "region (fst (sys_memmove (\<lambda>a. of_nat a) 5 4 3)) 5 3 = [4, 5, 6]
    \<and> sys_memcmp (fst (sys_memmove (\<lambda>a. of_nat a) 9 4 3)) 9 4 3 = 0"
  using memmove_correct [of "\<lambda>a. of_nat a" 5 4 3] memmove_correct [of "\<lambda>a. of_nat a" 9 4 3]
  by (simp add: region_def upt_rec)

text \<open>C31: \<open>strcpy\<close> of a string of length \<open>k\<close> returns exactly if the destination does not start inside
  the string or at its NUL, and then it has copied the string with its NUL and changed nothing else;
  otherwise it overwrites the NUL it is running towards and never stops.\<close>

theorem strcpy_terminates:
  assumes "str_at m s k"
  shows "if s < d \<and> d \<le> s + k then sys_strcpy m d s = None
    else \<exists>m'. sys_strcpy m d s = Some (m', d) \<and> region m' d (Suc k) = region m s (Suc k)
           \<and> (\<forall>a. a < d \<or> d + k < a \<longrightarrow> m' a = m a)"
proof (cases "s < d \<and> d \<le> s + k")
  case True
  have "m a \<noteq> 0" if "s \<le> a" "a < d" for a
  proof -
    have "m (s + (a - s)) \<noteq> 0" using assms that True by (intro str_at_def [THEN iffD1, THEN conjunct1, rule_format]) auto
    with that show ?thesis by simp
  qed
  with True strcpy_loop_chases [of s d m] show ?thesis by (simp add: sys_strcpy_def)
next
  case False
  then have o: "d \<le> s \<or> s + k < d" by auto
  then have "d \<le> s \<or> s + Suc k \<le> d" by auto
  from copy_up_spec [OF this] strcpy_loop_copies [OF assms o] False show ?thesis
    by (auto simp: sys_strcpy_def region_eq_iff simp del: copy_up.simps)
qed

theorem strcpy_terminates_witness:
  "sys_strcpy (\<lambda>a. if a = 3 then 0 else 7) 2 1 = None"
  using strcpy_terminates [of "\<lambda>a. if a = 3 then 0 else 7" 1 2 2] by (simp add: str_at_def)

text \<open>C32: \<open>strncpy\<close> of a string shorter than \<open>n\<close> writes one byte too many: the string, and NULs up to and
  including the byte after the \<open>n\<close> that the caller provides.\<close>

theorem strncpy_overruns:
  assumes "str_at m s k" and "k < n" and "d \<le> s \<or> s + k < d"
  shows "fst (sys_strncpy m d s n) a =
    (if d \<le> a \<and> a < d + k then m (s + (a - d)) else if d + k \<le> a \<and> a \<le> d + n then 0 else m a)"
proof -
  have "d \<le> s \<or> s + Suc k \<le> d" using assms(3) by auto
  note c = copy_up_spec [OF this, of m] and l = strncpy_loop_short [OF assms]
  show ?thesis
  proof (cases "a = d + k")
    case True
    with c l assms(1,2) show ?thesis
      by (simp add: sys_strncpy_def fill_up_spec str_at_def del: copy_up.simps)
  next
    case False
    with c l assms(2) show ?thesis
      by (auto simp: sys_strncpy_def fill_up_spec simp del: copy_up.simps)
  qed
qed

theorem strncpy_overruns_witness:
  "fst (sys_strncpy (\<lambda>a. if a = 1 then 0 else 7) 8 0 4) 12 = 0"
  using strncpy_overruns [of "\<lambda>a. if a = 1 then 0 else 7" 0 1 4 8 12] by (simp add: str_at_def)

text \<open>C33: \<open>sinf\<close> never returns for an argument above pi that is so large that subtracting two pi rounds back
  to it.\<close>

theorem sinf_hangs:
  assumes "fl_less F (flt_PI F) x" and "fl_sub F x (flt_TWO_PI F) = x"
  shows "sys_sinf F x = None"
  using sin_down_stuck [OF assms] by (simp add: sys_sinf_def)

text \<open>For the witness: a binary floating point with 24 significant bits, in units of \<open>2^-20\<close>.\<close>

function round24 :: "int \<Rightarrow> int" where
  "round24 n = (if \<bar>n\<bar> < 2 ^ 24 then n else 2 * round24 ((n + 1) div 2))"
  by pat_completeness auto
termination
  by (relation "measure (\<lambda>n. nat \<bar>n\<bar>)") auto

declare round24.simps [simp del]

definition flt24 :: "int flt" where
  "flt24 = \<lparr>fl_lit = \<lambda>m d. round24 (m * 2 ^ 20 div 10 ^ d), fl_less = (<), fl_le = (\<le>),
     fl_add = \<lambda>a b. round24 (a + b), fl_sub = \<lambda>a b. round24 (a - b),
     fl_mul = \<lambda>a b. round24 (a * b div 2 ^ 20), fl_div = \<lambda>a b. round24 (a * 2 ^ 20 div b),
     fl_neg = uminus\<rparr>"

theorem sinf_hangs_witness: "sys_sinf flt24 (2 ^ 48) = None"
proof -
  have "fl_less flt24 (flt_PI flt24) (2 ^ 48)" by code_simp
  moreover have "fl_sub flt24 (2 ^ 48) (flt_TWO_PI flt24) = 2 ^ 48" by code_simp
  ultimately show ?thesis by (rule sinf_hangs)
qed

text \<open>\<open>printf\<close> and \<open>uart_printf\<close> put the text that the format denotes on the line, cut at 255
  characters, if the line becomes ready often enough, and otherwise are still polling; \<open>printf\<close> returns
  the length of the whole text.\<close>

theorem printf_sends:
  assumes "length g = 256" and "mp_render D fmt args = Inr t" and "nul_free t"
  shows "if min (length t) 255 \<le> length (filter tx_ready (fr_reads u))
    then \<exists>rs. sys_printf D g fmt args u =
           Inr (Some (u\<lparr>fr_reads := rs, dr_writes := dr_writes u @ map of_char (take 255 t)\<rparr>, length t))
         \<and> uart_printf D g fmt args u =
           Inr (Some (u\<lparr>fr_reads := rs, dr_writes := dr_writes u @ map of_char (take 255 t)\<rparr>))
    else sys_printf D g fmt args u = Inr None \<and> uart_printf D g fmt args u = Inr None"
proof -
  obtain buf where buf: "mini_vsnprintf D 256 g fmt args = Inr (buf, length t)"
    "c_string buf = Inr (take 255 t)"
    by (rule mini_vsnprintf_shown [OF assms(1) _ assms(2,3)]) simp_all
  let ?s = "take 255 t"
  have "up_to_nul ?s = ?s" using assms(3) by (simp add: up_to_nul_id nul_free_take)
  note sends = uart_puts_sends [of ?s u, unfolded this]
  have p: "sys_printf D g fmt args u = Inr (map_option (\<lambda>u. (u, length t)) (uart_puts ?s u))"
    "uart_printf D g fmt args u = Inr (uart_puts ?s u)"
    using buf by (simp_all add: sys_printf_def uart_printf_def)
  show ?thesis
  proof (cases "length ?s \<le> length (filter tx_ready (fr_reads u))")
    case True
    with sends obtain rs where "uart_puts ?s u
        = Some (u\<lparr>fr_reads := rs, dr_writes := dr_writes u @ map of_char ?s\<rparr>)" by (auto simp only: if_True)
    with p have "sys_printf D g fmt args u =
        Inr (Some (u\<lparr>fr_reads := rs, dr_writes := dr_writes u @ map of_char ?s\<rparr>, length t))
      \<and> uart_printf D g fmt args u =
        Inr (Some (u\<lparr>fr_reads := rs, dr_writes := dr_writes u @ map of_char ?s\<rparr>))" by simp
    then show ?thesis unfolding if_P [OF True [unfolded length_take]] by (rule exI [of _ rs])
  next
    case False
    with sends have "uart_puts ?s u = None" by (simp only: if_False)
    with False p show ?thesis by simp
  qed
qed

theorem printf_sends_witness:
  "\<exists>rs. uart_printf cent_dbl (replicate 256 NUL) ''n=%u'' [PUInt 42] \<lparr>fr_reads = replicate 4 0, dr_writes = []\<rparr>
    = Inr (Some \<lparr>fr_reads = rs, dr_writes = map of_char ''n=42''\<rparr>)"
proof -
  have r: "mp_render cent_dbl ''n=%u'' [PUInt 42] = Inr ''n=42''" by code_simp
  let ?u = "\<lparr>fr_reads = replicate 4 0, dr_writes = []\<rparr>"
  have p: "min (length ''n=42'') 255 \<le> length (filter tx_ready (fr_reads ?u))"
    by (simp add: tx_ready_def)
  have "nul_free ''n=42''" by simp
  from printf_sends [OF length_replicate r this, where u = ?u, unfolded if_P [OF p]]
  obtain rs where "uart_printf cent_dbl (replicate 256 NUL) ''n=%u'' [PUInt 42] ?u
      = Inr (Some (?u\<lparr>fr_reads := rs, dr_writes := dr_writes ?u @ map of_char (take 255 ''n=42'')\<rparr>))" by blast
  then show ?thesis by (intro exI [of _ rs]) simp
qed

text \<open>
  The other string functions meet the standard's description, with one exception: a search for the
  terminator succeeds only if it is asked for as 0, not as another \<open>int\<close> that converts to it.
\<close>

theorem strings_correct:
  assumes "nul_free a" and "nul_free b"
  shows "sys_strlen a = length a"
    and "sys_strcmp a b = 0 \<longleftrightarrow> a = b"
    and "sys_strncmp a b n = 0 \<longleftrightarrow> take n a = take n b"
    and "sys_strchr a (of_char c) =
      (if c \<in> set a then Some (length (takeWhile (\<lambda>x. x \<noteq> c) a)) else if c = NUL then Some (length a) else None)"
    and "sys_strchr a 256 = None"
proof -
  have "sys_strlen_loop s k = k + length s" if "nul_free s" for s k
    using that
  proof (induction s arbitrary: k)
    case Nil
    then show ?case by (simp add: sys_strlen_loop.simps)
  next
    case (Cons x s)
    then show ?case by (simp add: sys_strlen_loop.simps [of "x # s"])
  qed
  then show "sys_strlen a = length a" using assms(1) by (simp add: sys_strlen_def)
  show "sys_strcmp a b = 0 \<longleftrightarrow> a = b" using assms by (simp add: sys_strcmp_eq strcmp_zero)
  show "sys_strncmp a b n = 0 \<longleftrightarrow> take n a = take n b"
    using assms by (simp add: sys_strncmp_take strcmp_zero nul_free_take)
  have z: "of_char c = (0 :: int) \<longleftrightarrow> c = NUL"
    using of_char_eq_iff [of c NUL, where 'a = int] by simp
  show "sys_strchr a (of_char c) =
      (if c \<in> set a then Some (length (takeWhile (\<lambda>x. x \<noteq> c) a)) else if c = NUL then Some (length a) else None)"
    using strchr_loop_spec [OF assms(1), of "of_char c" 0] by (simp add: sys_strchr_def z)
  have "char_of (256 :: int) = NUL" by code_simp
  then show "sys_strchr a 256 = None"
    using strchr_loop_spec [OF assms(1), of 256 0] assms(1) by (simp add: sys_strchr_def nul_free_def)
qed

text \<open>
  The eight steps of \<open>sqrtf\<close> are too few for a large argument: even with exact arithmetic the result is
  at least \<open>x / 512\<close>, which from \<open>x = 2^20\<close> on is at least twice the root.
\<close>

theorem sqrtf_too_large:
  assumes "0 < x"
  shows "x / 512 \<le> sys_sqrtf real_flt x \<and> x \<le> (sys_sqrtf real_flt x)\<^sup>2"
  using sqrt_loop_real [of x "x * (5 / 10)" 0] assms by (simp add: sys_sqrtf_def real_flt_def)

end
