(* ===== verification/Lm3sTasks.thy ===== *)
theory Lm3sTasks
  imports Lm3sData Rtos Syscalls
begin

unbundle bit_operations_syntax

text \<open>
  The tasks of the lm3s firmware (\<open>src/src/tasks\<close>), its kernel objects (\<open>src/src/ipc/ipc.c\<close>), the fault
  switch (\<open>src/src/fault/fault_injection.c\<close>) and \<open>main\<close> (\<open>src/src/main.c\<close>), over a kernel that is a
  parameter as in \<open>Rtos\<close>. Each task is its control point with the locals that are live there, and a
  function that performs the next access to shared state: one kernel call, one read of
  \<open>g_active_fault\<close>, one character on the serial line. \<open>None\<close> is a task that is blocked. The formatter
  runs on a buffer of the task's own, so a whole call of \<open>mini_snprintf\<close> is part of a step.
\<close>

subsection \<open>Kernel objects and state\<close>

text \<open>
  \<open>xQueueReceive\<close> on the sensor queue has a block time of 0: \<open>None\<close> is its \<open>pdFALSE\<close>. The tick has 1 ms.
\<close>

record ('sq, 'tq, 'eg, 'sem) lm3s_rtos = "('eg, 'sem) objects_api" +
  sensor_data_api :: "('sq, SensorData_t) queue_api"
  telemetry_data_api :: "('tq, TelemetryData_t) queue_api"
  uxTaskGetNumberOfTasks :: u32

definition EVT_SENSOR_READY :: u32 where "EVT_SENSOR_READY = 1"
definition EVT_FAULT_DETECTED :: u32 where "EVT_FAULT_DETECTED = 2"
definition EVT_WATCHDOG_RESET :: u32 where "EVT_WATCHDOG_RESET = 4"
definition EVT_SENSOR :: u32 where "EVT_SENSOR = 1"
definition EVT_PROCESSOR :: u32 where "EVT_PROCESSOR = 2"
definition EVT_TELEMETRY :: u32 where "EVT_TELEMETRY = 4"
definition ALL_HEARTBEAT_BITS :: u32 where
  "ALL_HEARTBEAT_BITS = EVT_SENSOR OR EVT_PROCESSOR OR EVT_TELEMETRY"

text \<open>
  \<open>tx\<close> is what went out on the line, \<open>rx\<close> what waits in the receiver; \<open>ub\<close> says that a task has run
  into undefined behaviour, and \<open>reset_request\<close> that the reset register was written.
\<close>

record ('sq, 'tq, 'eg, 'sem) lm3s =
  xSensorQueue :: 'sq
  xTelemetryQueue :: 'tq
  xUartMutex :: 'sem
  xDataReadySem :: 'sem
  xSensorKickSem :: 'sem
  xSystemEventGroup :: 'eg
  xHeartbeatEvents :: 'eg
  g_active_fault :: FaultType_t
  ticks :: u32
  tx :: string
  rx :: string
  speed_kmh_x10 :: int
  watchdog_warnings :: u32
  beat_count :: "u32 \<times> u32 \<times> u32"
  cmd_buf :: string
  cmd_len :: nat
  ub :: "c_ub option"
  reset_request :: bool

definition fault_inject :: "FaultType_t \<Rightarrow> ('sq, 'tq, 'eg, 'sem) lm3s \<Rightarrow> ('sq, 'tq, 'eg, 'sem) lm3s" where
  "fault_inject fault s = s\<lparr>g_active_fault := fault\<rparr>"

definition fault_clear :: "('sq, 'tq, 'eg, 'sem) lm3s \<Rightarrow> ('sq, 'tq, 'eg, 'sem) lm3s" where
  "fault_clear s = s\<lparr>g_active_fault := FAULT_NONE\<rparr>"

definition system_event :: "('sq, 'tq, 'eg, 'sem) lm3s_rtos \<Rightarrow> u32 \<Rightarrow> ('sq, 'tq, 'eg, 'sem) lm3s \<Rightarrow>
    ('sq, 'tq, 'eg, 'sem) lm3s" where
  "system_event K evt s = s\<lparr>xSystemEventGroup := xEventGroupSetBits K (xSystemEventGroup s) evt\<rparr>"

definition heartbeat :: "('sq, 'tq, 'eg, 'sem) lm3s_rtos \<Rightarrow> u32 \<Rightarrow> ('sq, 'tq, 'eg, 'sem) lm3s \<Rightarrow>
    ('sq, 'tq, 'eg, 'sem) lm3s" where
  "heartbeat K evt s = s\<lparr>xHeartbeatEvents := xEventGroupSetBits K (xHeartbeatEvents s) evt\<rparr>"

subsection \<open>Printing under the mutex\<close>

text \<open>
  The triple \<open>xSemaphoreTake(xUartMutex)\<close>, \<open>uart_puts\<close>, \<open>xSemaphoreGive(xUartMutex)\<close> that every task
  prints with; the control point behind it is the last argument. \<open>Put\<close> holds the characters that
  \<open>uart_puts\<close> has sent and those that it has still to send.
\<close>

datatype 'pc ctl = At 'pc | Lock string 'pc | Put string string 'pc | Unlock string 'pc

fun print_step :: "('sq, 'tq, 'eg, 'sem) lm3s_rtos \<Rightarrow> 'pc ctl \<Rightarrow> ('sq, 'tq, 'eg, 'sem) lm3s \<Rightarrow>
    ('pc ctl \<times> ('sq, 'tq, 'eg, 'sem) lm3s) option" where
  "print_step K (At pc) s = Some (At pc, s)"
| "print_step K (Lock t pc) s =
     map_option (\<lambda>m. (Put [] t pc, s\<lparr>xUartMutex := m\<rparr>)) (xSemaphoreTake K (xUartMutex s))"
| "print_step K (Put d t pc) s =
     Some (if peek t \<noteq> NUL then (Put (d @ [peek t]) (tl t) pc, s\<lparr>tx := tx s @ [peek t]\<rparr>)
           else (Unlock d pc, s))"
| "print_step K (Unlock d pc) s = Some (At pc, s\<lparr>xUartMutex := xSemaphoreGive K (xUartMutex s)\<rparr>)"

text \<open>The formatting before it, into a buffer of \<open>sz\<close> bytes, where \<open>garbage sz\<close> is what it held.\<close>

definition print_fmt :: "'d dbl \<Rightarrow> nat \<Rightarrow> (nat \<Rightarrow> string) \<Rightarrow> string \<Rightarrow> 'd parg list \<Rightarrow> 'pc \<Rightarrow> 'pc \<Rightarrow>
    ('sq, 'tq, 'eg, 'sem) lm3s \<Rightarrow> 'pc ctl \<times> ('sq, 'tq, 'eg, 'sem) lm3s" where
  "print_fmt D sz garbage fmt args here next s =
     (case mini_snprintf D sz (garbage sz) fmt args of
        Inl e \<Rightarrow> (At here, s\<lparr>ub := Some e\<rparr>)
      | Inr (buf, n) \<Rightarrow>
          (case c_string buf of Inl e \<Rightarrow> (At here, s\<lparr>ub := Some e\<rparr>) | Inr t \<Rightarrow> (Lock t next, s)))"

subsection \<open>The sensor task\<close>

datatype sensor_point =
    SN_Take u32
  | SN_Mode u32
  | SN_Delay nat u32
  | SN_Tick u32
  | SN_Data u32 u32
  | SN_Send SensorData_t u32
  | SN_Ready u32
  | SN_Give u32
  | SN_Beat u32

definition sensor_task :: "('sq, 'tq, 'eg, 'sem) lm3s_rtos \<Rightarrow> sensor_point \<Rightarrow> ('sq, 'tq, 'eg, 'sem) lm3s \<Rightarrow>
    (sensor_point \<times> ('sq, 'tq, 'eg, 'sem) lm3s) option" where
  "sensor_task K pc s =
     (case pc of
        SN_Take rng \<Rightarrow>
          map_option (\<lambda>m. (SN_Mode rng, s\<lparr>xSensorKickSem := m\<rparr>)) (xSemaphoreTake K (xSensorKickSem s))
      | SN_Mode rng \<Rightarrow>
          Some (if g_active_fault s = FAULT_TASK_DELAY then SN_Delay 3000 rng else SN_Tick rng, s)
      | SN_Delay ms rng \<Rightarrow> Some (SN_Tick rng, s)
      | SN_Tick rng \<Rightarrow> Some (SN_Data (ticks s) rng, s)
      | SN_Data now_ms rng \<Rightarrow>
          (let (data, rng) = sensor_data (g_active_fault s) now_ms rng in Some (SN_Send data rng, s))
      | SN_Send data rng \<Rightarrow>
          (let (ok, q) = xQueueSend (sensor_data_api K) (xSensorQueue s) data
           in Some (SN_Ready rng, s\<lparr>xSensorQueue := q\<rparr>))
      | SN_Ready rng \<Rightarrow> Some (SN_Give rng, system_event K EVT_SENSOR_READY s)
      | SN_Give rng \<Rightarrow> Some (SN_Beat rng, s\<lparr>xDataReadySem := xSemaphoreGive K (xDataReadySem s)\<rparr>)
      | SN_Beat rng \<Rightarrow> Some (SN_Take rng, heartbeat K EVT_SENSOR s))"

subsection \<open>The processing task\<close>

datatype processing_pc =
    PR_Take
  | PR_Receive
  | PR_Compute SensorData_t
  | PR_Fault TelemetryData_t
  | PR_Send TelemetryData_t
  | PR_Beat

definition processing_task :: "('sq, 'tq, 'eg, 'sem) lm3s_rtos \<Rightarrow> processing_pc \<Rightarrow> ('sq, 'tq, 'eg, 'sem) lm3s \<Rightarrow>
    (processing_pc \<times> ('sq, 'tq, 'eg, 'sem) lm3s) option" where
  "processing_task K pc s =
     (case pc of
        PR_Take \<Rightarrow>
          map_option (\<lambda>m. (PR_Receive, s\<lparr>xDataReadySem := m\<rparr>)) (xSemaphoreTake K (xDataReadySem s))
      | PR_Receive \<Rightarrow>
          Some (case xQueueReceive (sensor_data_api K) (xSensorQueue s) of
                  None \<Rightarrow> (PR_Beat, s)
                | Some (sensor, q) \<Rightarrow> (PR_Compute sensor, s\<lparr>xSensorQueue := q\<rparr>))
      | PR_Compute sensor \<Rightarrow>
          Some (case process_data (g_active_fault s) (speed_kmh_x10 s) sensor of
                  Inl e \<Rightarrow> (PR_Compute sensor, s\<lparr>ub := Some e\<rparr>)
                | Inr (speed, telem) \<Rightarrow>
                    (if td_valid telem then PR_Send telem else PR_Fault telem, s\<lparr>speed_kmh_x10 := speed\<rparr>))
      | PR_Fault telem \<Rightarrow> Some (PR_Send telem, system_event K EVT_FAULT_DETECTED s)
      | PR_Send telem \<Rightarrow>
          (let (ok, q) = xQueueSend (telemetry_data_api K) (xTelemetryQueue s) telem
           in Some (PR_Beat, s\<lparr>xTelemetryQueue := q\<rparr>))
      | PR_Beat \<Rightarrow> Some (PR_Take, heartbeat K EVT_PROCESSOR s))"

subsection \<open>The telemetry task\<close>

datatype telemetry_pc = TL_Receive | TL_Format TelemetryData_t | TL_Beat

definition telemetry_task :: "('sq, 'tq, 'eg, 'sem) lm3s_rtos \<Rightarrow> 'd dbl \<Rightarrow> (nat \<Rightarrow> string) \<Rightarrow> telemetry_pc ctl \<Rightarrow>
    ('sq, 'tq, 'eg, 'sem) lm3s \<Rightarrow> (telemetry_pc ctl \<times> ('sq, 'tq, 'eg, 'sem) lm3s) option" where
  "telemetry_task K D garbage pc s =
     (case pc of
        At TL_Receive \<Rightarrow>
          map_option (\<lambda>(telem, q). (At (TL_Format telem), s\<lparr>xTelemetryQueue := q\<rparr>))
            (xQueueReceive (telemetry_data_api K) (xTelemetryQueue s))
      | At (TL_Format telem) \<Rightarrow>
          Some (print_fmt D 200 garbage telem_fmt (telem_args telem) (TL_Format telem) TL_Beat s)
      | At TL_Beat \<Rightarrow> Some (At TL_Receive, heartbeat K EVT_TELEMETRY s)
      | _ \<Rightarrow> print_step K pc s)"

subsection \<open>The health monitor task\<close>

datatype health_pc = HL_Wait | HL_Ok | HL_Timeout u32 | HL_Reset

definition health_fmt :: string where
  "health_fmt = ''[HLTH] OK sensor=%lu proc=%lu telem=%lu heap=%u'' @ [CHR 0x0D, CHR 0x0A]"

definition wdog_fmt :: string where
  "wdog_fmt = ''[WDOG] TIMEOUT warnings=%lu missing:%s%s%s'' @ [CHR 0x0D, CHR 0x0A]"

definition missing_args :: "u32 \<Rightarrow> 'd parg list" where
  "missing_args bits =
     [PStr (Some (if bits AND EVT_SENSOR \<noteq> 0 then [] else '' Sensor'')),
      PStr (Some (if bits AND EVT_PROCESSOR \<noteq> 0 then [] else '' Processor'')),
      PStr (Some (if bits AND EVT_TELEMETRY \<noteq> 0 then [] else '' Telemetry''))]"

text \<open>\<open>expired\<close> says whether the second that the wait may take is over.\<close>

definition health_monitor_task :: "('sq, 'tq, 'eg, 'sem) lm3s_rtos \<Rightarrow> 'd dbl \<Rightarrow> (nat \<Rightarrow> string) \<Rightarrow> bool \<Rightarrow> health_pc ctl \<Rightarrow>
    ('sq, 'tq, 'eg, 'sem) lm3s \<Rightarrow> (health_pc ctl \<times> ('sq, 'tq, 'eg, 'sem) lm3s) option" where
  "health_monitor_task K D garbage expired pc s =
     (case pc of
        At HL_Wait \<Rightarrow>
          map_option (\<lambda>(bits, e).
              if bits AND ALL_HEARTBEAT_BITS = ALL_HEARTBEAT_BITS
              then (At HL_Ok, s\<lparr>xHeartbeatEvents := e,
                      beat_count := (case beat_count s of (a, b, c) \<Rightarrow> (a + 1, b + 1, c + 1))\<rparr>)
              else (At (HL_Timeout bits), s\<lparr>xHeartbeatEvents := e, watchdog_warnings := watchdog_warnings s + 1\<rparr>))
            (xEventGroupWaitBits K (xHeartbeatEvents s) ALL_HEARTBEAT_BITS True True expired)
      | At HL_Ok \<Rightarrow>
          (case beat_count s of (a, b, c) \<Rightarrow>
             Some (print_fmt D 128 garbage health_fmt
                     [PULong a, PULong b, PULong c, PUInt sys_xPortGetFreeHeapSize] HL_Ok HL_Wait s))
      | At (HL_Timeout bits) \<Rightarrow>
          Some (print_fmt D 192 garbage wdog_fmt (PULong (watchdog_warnings s) # missing_args bits)
                  (HL_Timeout bits) HL_Reset s)
      | At HL_Reset \<Rightarrow> Some (At HL_Wait, system_event K EVT_WATCHDOG_RESET s)
      | _ \<Rightarrow> print_step K pc s)"

subsection \<open>The diagnostics task\<close>

datatype diagnostics_pc = DG_Start | DG_Ready | DG_Poll | DG_Cmd | DG_Delay nat

abbreviation crlf :: string where "crlf \<equiv> [CHR 0x0D, CHR 0x0A]"

definition diag_status_fmt :: string where
  "diag_status_fmt = ''[DIAG] Uptime=%lu ms  FreeHeap=%u'' @ crlf"

definition diag_tasks_fmt :: string where
  "diag_tasks_fmt = ''[DIAG] Tasks running: %u'' @ crlf"

definition diag_heap_fmt :: string where
  "diag_heap_fmt = ''[DIAG] FreeHeap=%u'' @ crlf"

definition diag_stats_fmt :: string where
  "diag_stats_fmt = ''[DIAG] Heap=%u Tasks=%u'' @ crlf"

definition diag_help :: string where
  "diag_help = ''[DIAG] Commands: status tasks heap stats fault none/overflow/sensor/process reset help'' @ crlf"

definition diag_ready :: string where
  "diag_ready = ''[DIAG] Ready. Commands: status tasks heap stats fault none/overflow/sensor/process reset help'' @ crlf"

definition diag_unknown :: string where
  "diag_unknown = ''[DIAG] Unknown cmd. Type '' @ CHR 0x27 # ''help'' @ CHR 0x27 # crlf"

definition do_cmd :: "('sq, 'tq, 'eg, 'sem) lm3s_rtos \<Rightarrow> 'd dbl \<Rightarrow> (nat \<Rightarrow> string) \<Rightarrow> string \<Rightarrow>
    ('sq, 'tq, 'eg, 'sem) lm3s \<Rightarrow> diagnostics_pc ctl \<times> ('sq, 'tq, 'eg, 'sem) lm3s" where
  "do_cmd K D garbage cmd s =
     (let heap = PUInt sys_xPortGetFreeHeapSize; tasks = PUInt (uxTaskGetNumberOfTasks K) in
      if sys_strcmp cmd ''status'' = 0 then
        print_fmt D 256 garbage diag_status_fmt [PULong (ticks s), heap] DG_Cmd DG_Poll s
      else if sys_strcmp cmd ''tasks'' = 0 then print_fmt D 256 garbage diag_tasks_fmt [tasks] DG_Cmd DG_Poll s
      else if sys_strcmp cmd ''heap'' = 0 then print_fmt D 256 garbage diag_heap_fmt [heap] DG_Cmd DG_Poll s
      else if sys_strcmp cmd ''stats'' = 0 then
        print_fmt D 256 garbage diag_stats_fmt [heap, tasks] DG_Cmd DG_Poll s
      else if sys_strcmp cmd ''fault none'' = 0 then
        (Lock (''[DIAG] Fault cleared'' @ crlf) DG_Poll, fault_clear s)
      else if sys_strcmp cmd ''fault overflow'' = 0 then
        (Lock (''[DIAG] Fault: QUEUE_OVERFLOW'' @ crlf) DG_Poll, fault_inject FAULT_QUEUE_OVERFLOW s)
      else if sys_strcmp cmd ''fault sensor'' = 0 \<or> sys_strcmp cmd ''fault'' = 0 then
        (Lock (''[DIAG] Fault: SENSOR_FAILURE'' @ crlf) DG_Poll, fault_inject FAULT_SENSOR_FAILURE s)
      else if sys_strcmp cmd ''fault process'' = 0 then
        (Lock (''[DIAG] Fault: TASK_DELAY (process stall)'' @ crlf) DG_Poll, fault_inject FAULT_TASK_DELAY s)
      else if sys_strcmp cmd ''reset'' = 0 then (At DG_Poll, s\<lparr>reset_request := True\<rparr>)
      else if sys_strcmp cmd ''help'' = 0 then (Lock diag_help DG_Poll, s)
      else (Lock diag_unknown DG_Poll, s))"

text \<open>One round of the loop of \<open>poll_uart\<close>: the receive flag, and the character if there is one.\<close>

definition poll_uart :: "('sq, 'tq, 'eg, 'sem) lm3s \<Rightarrow> diagnostics_pc ctl \<times> ('sq, 'tq, 'eg, 'sem) lm3s" where
  "poll_uart s =
     (case rx s of
        [] \<Rightarrow> (At (DG_Delay 50), s)
      | c # cs \<Rightarrow>
          (let s = s\<lparr>rx := cs\<rparr> in
           if c = CHR 0x0D \<or> c = CHR 0x0A then
             if cmd_len s > 0
             then (Lock crlf DG_Cmd, s\<lparr>cmd_buf := (cmd_buf s)[cmd_len s := NUL], cmd_len := 0\<rparr>)
             else (At DG_Poll, s)
           else if cmd_len s < 64 - 1
           then (At DG_Poll, s\<lparr>cmd_buf := (cmd_buf s)[cmd_len s := c], cmd_len := cmd_len s + 1\<rparr>)
           else (At DG_Poll, s)))"

definition diagnostics_task :: "('sq, 'tq, 'eg, 'sem) lm3s_rtos \<Rightarrow> 'd dbl \<Rightarrow> (nat \<Rightarrow> string) \<Rightarrow> diagnostics_pc ctl \<Rightarrow>
    ('sq, 'tq, 'eg, 'sem) lm3s \<Rightarrow> (diagnostics_pc ctl \<times> ('sq, 'tq, 'eg, 'sem) lm3s) option" where
  "diagnostics_task K D garbage pc s =
     (case pc of
        At DG_Start \<Rightarrow> Some (At DG_Ready, s)
      | At DG_Ready \<Rightarrow> Some (Lock diag_ready DG_Poll, s)
      | At DG_Poll \<Rightarrow> Some (poll_uart s)
      | At DG_Cmd \<Rightarrow> Some (do_cmd K D garbage (up_to_nul (cmd_buf s)) s)
      | At (DG_Delay ms) \<Rightarrow> Some (At DG_Poll, s)
      | _ \<Rightarrow> print_step K pc s)"

subsection \<open>Start-up\<close>

definition ipc_prvSensorTimerCallback :: "('sq, 'tq, 'eg, 'sem) lm3s_rtos \<Rightarrow> ('sq, 'tq, 'eg, 'sem) lm3s \<Rightarrow>
    ('sq, 'tq, 'eg, 'sem) lm3s" where
  "ipc_prvSensorTimerCallback K s = s\<lparr>xSensorKickSem := xSemaphoreGive K (xSensorKickSem s)\<rparr>"

text \<open>Static creation does not fail. The members that \<open>ipc_init\<close> does not set are the zeroed statics.\<close>

definition ipc_init :: "('sq, 'tq, 'eg, 'sem) lm3s_rtos \<Rightarrow> string \<Rightarrow> ('sq, 'tq, 'eg, 'sem) lm3s" where
  "ipc_init K sent =
     \<lparr>xSensorQueue = xQueueCreateStatic (sensor_data_api K) 10,
      xTelemetryQueue = xQueueCreateStatic (telemetry_data_api K) 10,
      xUartMutex = xSemaphoreCreateMutexStatic K,
      xDataReadySem = xSemaphoreCreateBinaryStatic K, xSensorKickSem = xSemaphoreCreateBinaryStatic K,
      xSystemEventGroup = xEventGroupCreateStatic K, xHeartbeatEvents = xEventGroupCreateStatic K,
      g_active_fault = FAULT_NONE, ticks = 0, tx = sent, rx = [], speed_kmh_x10 = 0,
      watchdog_warnings = 0, beat_count = (0, 0, 0), cmd_buf = replicate 64 NUL, cmd_len = 0,
      ub = None, reset_request = False\<rparr>"

record ('sq, 'tq, 'eg, 'sem) board =
  shared :: "('sq, 'tq, 'eg, 'sem) lm3s"
  sensor_at :: sensor_point
  processing_at :: processing_pc
  telemetry_at :: "telemetry_pc ctl"
  health_at :: "health_pc ctl"
  diag_at :: "diagnostics_pc ctl"

definition lm3s_banner :: string where
  "lm3s_banner = crlf @ replicate 40 CHR ''='' @ crlf @ ''  FreeRTOS ECU Simulator - lm3s6965evb  '' @ crlf
     @ replicate 40 CHR ''='' @ crlf"

text \<open>The tasks that \<open>main\<close> creates, with their stack depths and priorities.\<close>

definition lm3s_tasks :: "(string \<times> nat \<times> nat) list" where
  "lm3s_tasks = [(''Sensor'', 256, 3), (''Proc'', 256, 3), (''Telem'', 256, 2), (''Health'', 256, 4),
     (''Diag'', 512, 1)]"

definition lm3s_main :: "('sq, 'tq, 'eg, 'sem) lm3s_rtos \<Rightarrow> ('sq, 'tq, 'eg, 'sem) board" where
  "lm3s_main K =
     (let s = ipc_init K lm3s_banner;
          s = s\<lparr>tx := tx s @ ''[MAIN] Tasks created. Starting scheduler...'' @ crlf\<rparr>
      in \<lparr>shared = s, sensor_at = SN_Take 0xDEADBEEF, processing_at = PR_Take, telemetry_at = At TL_Receive,
          health_at = At HL_Wait, diag_at = At DG_Start\<rparr>)"

text \<open>
  A step of the board: of one of the tasks, the expiry of the 100 ms timer, a tick, or a character that
  arrives. Any order is allowed.
\<close>

inductive lm3s_step :: "('sq, 'tq, 'eg, 'sem) lm3s_rtos \<Rightarrow> 'd dbl \<Rightarrow> ('sq, 'tq, 'eg, 'sem) board \<Rightarrow>
    ('sq, 'tq, 'eg, 'sem) board \<Rightarrow> bool" for K D where
  sensor: "sensor_task K (sensor_at b) (shared b) = Some (pc, s) \<Longrightarrow>
    lm3s_step K D b (b\<lparr>sensor_at := pc, shared := s\<rparr>)"
| processing: "processing_task K (processing_at b) (shared b) = Some (pc, s) \<Longrightarrow>
    lm3s_step K D b (b\<lparr>processing_at := pc, shared := s\<rparr>)"
| telemetry: "telemetry_task K D garbage (telemetry_at b) (shared b) = Some (pc, s) \<Longrightarrow>
    (\<And>n. length (garbage n) = n) \<Longrightarrow> lm3s_step K D b (b\<lparr>telemetry_at := pc, shared := s\<rparr>)"
| health: "health_monitor_task K D garbage expired (health_at b) (shared b) = Some (pc, s) \<Longrightarrow>
    (\<And>n. length (garbage n) = n) \<Longrightarrow> lm3s_step K D b (b\<lparr>health_at := pc, shared := s\<rparr>)"
| diagnostics: "diagnostics_task K D garbage (diag_at b) (shared b) = Some (pc, s) \<Longrightarrow>
    (\<And>n. length (garbage n) = n) \<Longrightarrow> lm3s_step K D b (b\<lparr>diag_at := pc, shared := s\<rparr>)"
| timer: "lm3s_step K D b (b\<lparr>shared := ipc_prvSensorTimerCallback K (shared b)\<rparr>)"
| tick: "lm3s_step K D b (b\<lparr>shared := (shared b)\<lparr>ticks := ticks (shared b) + 1\<rparr>\<rparr>)"
| receive: "lm3s_step K D b (b\<lparr>shared := (shared b)\<lparr>rx := rx (shared b) @ [c]\<rparr>\<rparr>)"

inductive lm3s_reach :: "('sq, 'tq, 'eg, 'sem) lm3s_rtos \<Rightarrow> 'd dbl \<Rightarrow> ('sq, 'tq, 'eg, 'sem) board \<Rightarrow> bool"
  for K D where
  boot: "lm3s_reach K D (lm3s_main K)"
| step: "lm3s_reach K D b \<Longrightarrow> lm3s_step K D b b' \<Longrightarrow> lm3s_reach K D b'"

end
