(* ===== verification/Lm3sText.thy ===== *)
theory Lm3sText
  imports Lm3sTasks
begin

text \<open>
  What the lm3s tasks print: the text of each message, written without the formatter. As in \<open>Console\<close>,
  a literal format is evaluated character by character with symbolic arguments.
\<close>

subsection \<open>Evaluation of a literal format\<close>

lemma mp_number_none: "\<not> is_digit (peek fmt) \<Longrightarrow> mp_number w fmt = Inr (w, fmt)"
  by (simp add: mp_number.simps [of w fmt])

lemma is_digit_NUL [simp]: "\<not> is_digit NUL"
  by (simp add: is_digit_def)

abbreviation plain_directive :: directive where
  "plain_directive \<equiv> \<lparr>left_align = False, dpad = CHR '' '', dwidth = 0, dprec = - 1, is_long = False\<rparr>"

lemma mp_directive_plain:
  "\<not> is_digit c \<Longrightarrow> c \<noteq> CHR ''-'' \<Longrightarrow> c \<noteq> CHR ''.'' \<Longrightarrow> c \<noteq> CHR ''l'' \<Longrightarrow>
    mp_directive (c # fmt) = Inr (plain_directive, c # fmt)"
proof -
  assume c: "\<not> is_digit c" "c \<noteq> CHR ''-''" "c \<noteq> CHR ''.''" "c \<noteq> CHR ''l''"
  moreover have "is_digit CHR ''0''" by (simp add: is_digit_def)
  ultimately have "c \<noteq> CHR ''0''" by auto
  with c show ?thesis by (simp add: mp_directive_def mp_number_none)
qed

lemma mp_directive_long:
  "peek fmt \<noteq> CHR ''l'' \<Longrightarrow> mp_directive (CHR ''l'' # fmt) = Inr (plain_directive\<lparr>is_long := True\<rparr>, fmt)"
  by (simp add: mp_directive_def mp_number_none is_digit_def)

lemma mp_directive_02:
  assumes "\<not> is_digit (peek fmt)" and "peek fmt \<noteq> CHR ''.''" and "peek fmt \<noteq> CHR ''l''"
  shows "mp_directive (CHR ''0'' # CHR ''2'' # fmt) = Inr (plain_directive\<lparr>dpad := CHR ''0'', dwidth := 2\<rparr>, fmt)"
  using assms by (simp add: mp_directive_def mp_number.simps [of 0 "CHR ''2'' # fmt"] mp_number_none is_digit_def)

lemma field_0 [simp]: "field left pad 0 t = t"
  by (simp add: field_def)

definition sdigits :: "int \<Rightarrow> string" where
  "sdigits k = (if k < 0 then CHR ''-'' # udigits 10 (nat (- k)) else udigits 10 (nat k))"

lemma mp_render_Nil: "mp_render D [] args = Inr []"
  by (simp add: mp_render.simps)

lemma mp_render_char:
  "c \<noteq> NUL \<Longrightarrow> c \<noteq> CHR ''%'' \<Longrightarrow> mp_render D (c # fmt) args = map_sum id (Cons c) (mp_render D fmt args)"
  by (simp add: mp_render.simps [of D "c # fmt"])

lemma mp_render_pct: "mp_render D (CHR ''%'' # CHR ''%'' # fmt) args = map_sum id (Cons CHR ''%'') (mp_render D fmt args)"
  by (cases "mp_render D fmt args")
    (simp_all add: mp_render.simps [of D "CHR ''%'' # CHR ''%'' # fmt"] mp_directive_plain is_digit_def mp_conv_text_def)

lemma mp_render_lu: "mp_render D (CHR ''%'' # CHR ''l'' # CHR ''u'' # fmt) (PULong v # args) =
    map_sum id ((@) (udigits 10 (unat v))) (mp_render D fmt args)"
  by (simp add: mp_render.simps [of D "CHR ''%'' # CHR ''l'' # CHR ''u'' # fmt"] mp_directive_long mp_conv_text_def uint_text_def)

lemma mp_render_u: "mp_render D (CHR ''%'' # CHR ''u'' # fmt) (PUInt v # args) =
    map_sum id ((@) (udigits 10 (unat v))) (mp_render D fmt args)"
  by (simp add: mp_render.simps [of D "CHR ''%'' # CHR ''u'' # fmt"] mp_directive_plain is_digit_def mp_conv_text_def uint_text_def)

lemma mp_render_d: "sint v \<noteq> - (2 ^ 31) \<Longrightarrow> mp_render D (CHR ''%'' # CHR ''d'' # fmt) (PInt v # args) =
    map_sum id ((@) (sdigits (sint v))) (mp_render D fmt args)"
  by (simp add: mp_render.simps [of D "CHR ''%'' # CHR ''d'' # fmt"] mp_directive_plain is_digit_def mp_conv_text_def sdigits_def)

lemma mp_render_02d: "0 \<le> sint v \<Longrightarrow> mp_render D (CHR ''%'' # CHR ''0'' # CHR ''2'' # CHR ''d'' # fmt) (PInt v # args) =
    map_sum id ((@) (field False CHR ''0'' 2 (udigits 10 (nat (sint v))))) (mp_render D fmt args)"
  by (simp add: mp_render.simps [of D "CHR ''%'' # CHR ''0'' # CHR ''2'' # CHR ''d'' # fmt"] mp_directive_02 is_digit_def mp_conv_text_def)

lemma mp_render_02X: "mp_render D (CHR ''%'' # CHR ''0'' # CHR ''2'' # CHR ''X'' # fmt) (PUInt v # args) =
    map_sum id ((@) (field False CHR ''0'' 2 (uint_text True 16 (unat v)))) (mp_render D fmt args)"
  by (simp add: mp_render.simps [of D "CHR ''%'' # CHR ''0'' # CHR ''2'' # CHR ''X'' # fmt"] mp_directive_02 is_digit_def mp_conv_text_def)

lemma mp_render_s: "nul_free t \<Longrightarrow> mp_render D (CHR ''%'' # CHR ''s'' # fmt) (PStr (Some t) # args) =
    map_sum id ((@) t) (mp_render D fmt args)"
  by (simp add: mp_render.simps [of D "CHR ''%'' # CHR ''s'' # fmt"] mp_directive_plain is_digit_def mp_conv_text_def up_to_nul_id)

lemmas mp_render_simps = mp_render_Nil mp_render_char mp_render_pct mp_render_lu mp_render_u mp_render_d
  mp_render_02d mp_render_02X mp_render_s

subsection \<open>The messages\<close>

definition dec2 :: "nat \<Rightarrow> string" where
  "dec2 n = field False CHR ''0'' 2 (udigits 10 n)"

text \<open>A telemetry line: whole parts toward zero, fractions of the absolute value.\<close>

definition telem_text :: "TelemetryData_t \<Rightarrow> string" where
  "telem_text t =
     (let s = td_sensor t; temp = sint (sd_temperature_c_x10 s);
          acc = (\<lambda>v. sdigits (sint v sdiv 100) @ CHR ''.'' # dec2 (nat (\<bar>sint v\<bar> mod 100))) in
      ''[TELEM] ts='' @ udigits 10 (unat (td_timestamp_ms t))
      @ '' temp='' @ sdigits (temp sdiv 10) @ CHR ''.'' # udigits 10 (nat (\<bar>temp\<bar> mod 10))
      @ ''C ax='' @ acc (sd_accel_x_x100 s) @ '' ay='' @ acc (sd_accel_y_x100 s) @ '' az='' @ acc (sd_accel_z_x100 s)
      @ '' spd='' @ udigits 10 (unat (td_speed_kmh_x10 t) div 10) @ CHR ''.'' # udigits 10 (unat (td_speed_kmh_x10 t) mod 10)
      @ ''km/h rpm='' @ udigits 10 (unat (td_rpm t))
      @ '' thr='' @ udigits 10 (unat (td_throttle_pct_x10 t) div 10) @ CHR ''.'' # udigits 10 (unat (td_throttle_pct_x10 t) mod 10)
      @ ''% fault=0x'' @ field False CHR ''0'' 2 (uint_text True 16 (unat (td_fault_code t)))
      @ '' valid='' @ udigits 10 (if td_valid t then 1 else 0) @ crlf)"

definition health_text :: "u32 \<Rightarrow> u32 \<Rightarrow> u32 \<Rightarrow> string" where
  "health_text a b c = ''[HLTH] OK sensor='' @ udigits 10 (unat a) @ '' proc='' @ udigits 10 (unat b)
     @ '' telem='' @ udigits 10 (unat c) @ '' heap=0'' @ crlf"

definition wdog_text :: "u32 \<Rightarrow> u32 \<Rightarrow> string" where
  "wdog_text w bits = ''[WDOG] TIMEOUT warnings='' @ udigits 10 (unat w) @ '' missing:''
     @ (if bits AND EVT_SENSOR \<noteq> 0 then [] else '' Sensor'')
     @ (if bits AND EVT_PROCESSOR \<noteq> 0 then [] else '' Processor'')
     @ (if bits AND EVT_TELEMETRY \<noteq> 0 then [] else '' Telemetry'') @ crlf"

lemma frac_parg_value:
  assumes "2 \<le> scale" and "scale \<le> 100"
  shows "sint (word_of_int (if sint v < 0 then - (sint v smod scale) else sint v smod scale) :: i32) = \<bar>sint (v :: i16)\<bar> mod scale"
proof -
  have e: "(if sint v < 0 then - (sint v smod scale) else sint v smod scale) = \<bar>sint v\<bar> mod scale"
    using assms by (simp add: smod_neg smod_nonneg)
  have "0 \<le> \<bar>sint v\<bar> mod scale" "\<bar>sint v\<bar> mod scale < scale" using assms by simp_all
  then have "- (2 ^ 31) \<le> \<bar>sint v\<bar> mod scale" "\<bar>sint v\<bar> mod scale < 2 ^ 31" using assms(2) by simp_all
  then show ?thesis unfolding e by (simp add: signed_of_int signed_take_bit_int_eq_self)
qed

lemma whole_parg_value:
  assumes "2 \<le> scale"
  shows "sint (word_of_int (sint (v :: i16) sdiv scale) :: i32) = sint v sdiv scale"
    and "\<bar>sint v sdiv scale\<bar> \<le> 32768 div scale" and "\<bar>sint v sdiv scale\<bar> \<le> 32768"
proof -
  have a: "\<bar>sint v sdiv scale\<bar> = \<bar>sint v\<bar> div scale"
    using assms by (cases "sint v < 0") (simp_all add: sdiv_neg sdiv_nonneg pos_imp_zdiv_nonneg_iff)
  also have "\<dots> \<le> 32768 div scale" using sint16_range [of v] assms by (intro zdiv_mono1) auto
  finally show b: "\<bar>sint v sdiv scale\<bar> \<le> 32768 div scale" .
  also have "\<dots> \<le> 32768" using assms zdiv_mono2 [of 32768 1 scale] by simp
  finally show c: "\<bar>sint v sdiv scale\<bar> \<le> 32768" .
  from c show "sint (word_of_int (sint v sdiv scale) :: i32) = sint v sdiv scale"
    by (simp add: signed_of_int signed_take_bit_int_eq_self abs_le_iff)
qed

lemma ucast_small: "unat (ucast w :: u32) = unat (w :: u16)" "unat (ucast x :: u32) = unat (x :: u8)"
proof -
  have "unat w < 2 ^ 32" using unsigned_less [of w, where 'a = nat] by simp
  then show "unat (ucast w :: u32) = unat w" by (simp add: unsigned_ucast_eq take_bit_nat_eq_self)
  have "unat x < 2 ^ 32" using unsigned_less [of x, where 'a = nat] by simp
  then show "unat (ucast x :: u32) = unat x" by (simp add: unsigned_ucast_eq take_bit_nat_eq_self)
qed

lemma unat_tenths:
  "unat (ucast w div 10 :: u32) = unat (w :: u16) div 10" "unat (ucast w mod 10 :: u32) = unat w mod 10"
  by (simp_all add: unat_div unat_mod ucast_small)

lemma mp_render_whole:
  assumes "2 \<le> scale"
  shows "mp_render D (CHR ''%'' # CHR ''d'' # fmt) (whole_parg v scale # args) =
    map_sum id ((@) (sdigits (sint v sdiv scale))) (mp_render D fmt args)"
proof -
  note w = whole_parg_value [OF assms, of v]
  have "sint (word_of_int (sint v sdiv scale) :: i32) \<noteq> - (2 ^ 31)" unfolding w(1) using w(3) by auto
  from mp_render_d [OF this] show ?thesis by (simp only: whole_parg_def w(1))
qed

lemma mp_render_frac:
  assumes "2 \<le> scale" and "scale \<le> 100"
  shows "mp_render D (CHR ''%'' # CHR ''d'' # fmt) (frac_parg v scale # args) =
      map_sum id ((@) (udigits 10 (nat (\<bar>sint v\<bar> mod scale)))) (mp_render D fmt args)"
    and "mp_render D (CHR ''%'' # CHR ''0'' # CHR ''2'' # CHR ''d'' # fmt) (frac_parg v scale # args) =
      map_sum id ((@) (dec2 (nat (\<bar>sint v\<bar> mod scale)))) (mp_render D fmt args)"
proof -
  note f = frac_parg_value [OF assms, of v]
  have p: "0 \<le> \<bar>sint v\<bar> mod scale" using assms by simp
  then have "- (2 ^ 31) < \<bar>sint v\<bar> mod scale" by (rule less_le_trans [rotated]) simp
  then have "sint (word_of_int (if sint v < 0 then - (sint v smod scale) else sint v smod scale) :: i32) \<noteq> - (2 ^ 31)"
    unfolding f by (rule less_imp_neq [symmetric])
  note d = mp_render_d [OF this]
  have "sdigits (\<bar>sint v\<bar> mod scale) = udigits 10 (nat (\<bar>sint v\<bar> mod scale))"
    using p by (simp only: sdigits_def not_less [symmetric] if_False)
  with d show "mp_render D (CHR ''%'' # CHR ''d'' # fmt) (frac_parg v scale # args) =
      map_sum id ((@) (udigits 10 (nat (\<bar>sint v\<bar> mod scale)))) (mp_render D fmt args)"
    by (simp only: frac_parg_def f)
  show "mp_render D (CHR ''%'' # CHR ''0'' # CHR ''2'' # CHR ''d'' # fmt) (frac_parg v scale # args) =
      map_sum id ((@) (dec2 (nat (\<bar>sint v\<bar> mod scale)))) (mp_render D fmt args)"
    unfolding frac_parg_def using p by (simp only: mp_render_02d f dec2_def)
qed

lemma mp_render_bool: "mp_render D (CHR ''%'' # CHR ''d'' # fmt) (PInt (if c then 1 else 0) # args) =
    map_sum id ((@) (udigits 10 (if c then 1 else 0))) (mp_render D fmt args)"
  by (simp add: mp_render_d sdigits_def)

lemma telem_render: "mp_render D telem_fmt (telem_args t) = Inr (telem_text t)"
  by (simp add: telem_fmt_def telem_args_def telem_text_def Let_def mp_render_simps mp_render_whole mp_render_frac
      mp_render_bool unat_tenths ucast_small split del: if_split)

lemma health_render:
  "mp_render D health_fmt [PULong a, PULong b, PULong c, PUInt sys_xPortGetFreeHeapSize] = Inr (health_text a b c)"
  by (simp add: health_fmt_def health_text_def mp_render_simps sys_xPortGetFreeHeapSize_def
      udigits.simps [of 10 0] digit_char_def char_zero)

lemma wdog_render: "mp_render D wdog_fmt (PULong w # missing_args bits) = Inr (wdog_text w bits)"
  by (simp add: wdog_fmt_def wdog_text_def missing_args_def mp_render_simps)

subsection \<open>They fit\<close>

lemma length_udigits_le: "n < 10 ^ k \<Longrightarrow> 0 < k \<Longrightarrow> length (udigits 10 n) \<le> k"
  using length_udigits [of 10 n "k - 1"] by simp

lemma length_sdigits: "\<bar>v\<bar> < 10 ^ k \<Longrightarrow> 0 < k \<Longrightarrow> length (sdigits v) \<le> Suc k"
proof -
  assume v: "\<bar>v\<bar> < 10 ^ k" "0 < k"
  then have "nat \<bar>v\<bar> < 10 ^ k" by (simp add: nat_less_iff)
  then have "length (udigits 10 (nat \<bar>v\<bar>)) \<le> k" using v(2) by (rule length_udigits_le)
  then show ?thesis by (auto simp: sdigits_def)
qed

lemma length_dec2: "n < 100 \<Longrightarrow> length (dec2 n) = 2"
proof -
  assume "n < 100"
  then have "length (udigits 10 n) \<le> 2" by (intro length_udigits_le) simp_all
  then show ?thesis by (simp add: dec2_def field_def)
qed

lemma nul_free_sdigits [simp]: "nul_free (sdigits v)"
  by (simp add: sdigits_def)

lemma upcase_not_NUL: "c \<noteq> NUL \<Longrightarrow> upcase c \<noteq> NUL"
proof -
  have "char_of k \<noteq> NUL" if "65 \<le> k" "k \<le> 90" for k :: nat
  proof
    assume "char_of k = NUL"
    then have "of_char (char_of k :: char) = (of_char NUL :: nat)" by simp
    with that show False by simp
  qed
  then show "c \<noteq> NUL \<Longrightarrow> upcase c \<noteq> NUL" by (auto simp: upcase_def Let_def)
qed

lemma nul_free_field: "nul_free t \<Longrightarrow> nul_free (field False CHR ''0'' w t)"
  by (auto simp: field_def) (simp add: nul_free_def)

lemma nul_free_uint_text [simp]: "nul_free (uint_text True 16 n)"
  using nul_free_udigits [of 16 n] by (simp add: uint_text_def nul_free_def image_iff) (metis upcase_not_NUL)

lemma nul_free_dec2 [simp]: "nul_free (dec2 n)"
  by (simp add: dec2_def nul_free_field)

lemma nul_free_hex2 [simp]: "nul_free (field False CHR ''0'' 2 (uint_text True 16 n))"
  by (simp add: nul_free_field)

lemma nul_free_health: "nul_free (health_text a b c)" "nul_free (wdog_text w bits)"
  by (simp_all add: health_text_def wdog_text_def)

lemma nul_free_telem: "nul_free (telem_text t)"
  by (simp add: telem_text_def Let_def)

lemma length_words: "length (udigits 10 (unat (w :: u16))) \<le> 5" "length (udigits 10 (unat w div 10)) \<le> 4"
  "length (uint_text True 16 (unat (x :: u8))) \<le> 2"
proof -
  have w: "unat w < 65536" using unsigned_less [of w, where 'a = nat] by simp
  then show "length (udigits 10 (unat w)) \<le> 5" "length (udigits 10 (unat w div 10)) \<le> 4"
    by (intro length_udigits_le; simp)+
  have "unat x < 16 ^ Suc 1" using unsigned_less [of x, where 'a = nat] by simp
  then show "length (uint_text True 16 (unat x)) \<le> 2"
    using length_udigits [of 16 "unat x" 1] by (simp add: uint_text_def)
qed

lemma length_line:
  assumes "length ts \<le> 10" and "length temp \<le> 5" and "length tf \<le> 1" and "length ax \<le> 4" and "length fx = 2"
    and "length ay \<le> 4" and "length fy = 2" and "length az \<le> 4" and "length fz = 2" and "length sp \<le> 4"
    and "length sf \<le> 1" and "length rp \<le> 5" and "length th \<le> 4" and "length hf \<le> 1" and "length fc \<le> 2"
    and "length vd \<le> 1"
  shows "length (''[TELEM] ts='' @ ts @ '' temp='' @ temp @ CHR ''.'' # tf @ ''C ax='' @ (ax @ CHR ''.'' # fx)
      @ '' ay='' @ (ay @ CHR ''.'' # fy) @ '' az='' @ (az @ CHR ''.'' # fz) @ '' spd='' @ sp @ CHR ''.'' # sf
      @ ''km/h rpm='' @ rp @ '' thr='' @ th @ CHR ''.'' # hf @ ''% fault=0x'' @ fc @ '' valid='' @ vd @ crlf) \<le> 199"
  using assms by simp

lemma length_telem: "length (telem_text t) \<le> 199"
proof -
  let ?s = "td_sensor t" and ?w = "\<lambda>v. sint (v :: i16) sdiv 100"
  have d: "length (udigits 10 (n mod 10)) \<le> 1" for n by (rule length_udigits_le) simp_all
  have e: "length (udigits 10 (nat (\<bar>k\<bar> mod 10))) \<le> 1" for k :: int
    by (rule length_udigits_le) (simp_all add: nat_less_iff)
  have f: "length (dec2 (nat (\<bar>k\<bar> mod 100))) = 2" for k :: int by (rule length_dec2) (simp add: nat_less_iff)
  have a: "length (sdigits (?w v)) \<le> 4" for v
    using whole_parg_value(2) [of 100 v] length_sdigits [of "?w v" 3] by simp
  have b: "length (sdigits (sint v sdiv 10)) \<le> 5" for v :: i16
    using whole_parg_value(2) [of 10 v] length_sdigits [of "sint v sdiv 10" 4] by simp
  have x: "length (field False CHR ''0'' 2 (uint_text True 16 (unat (td_fault_code t)))) \<le> 2"
    using length_words(3) [of "td_fault_code t"] by (simp add: field_def)
  have v: "length (udigits 10 (if td_valid t then 1 else 0)) \<le> 1" by (rule length_udigits_le) simp_all
  show ?thesis unfolding telem_text_def Let_def
    by (rule length_line [OF length_udigits_32 b e a f a f a f length_words(2) d length_words(1) length_words(2) d x v])
qed

lemma length_health: "length (health_text a b c) \<le> 127" "length (wdog_text w bits) \<le> 191"
  using length_udigits_32 [of a] length_udigits_32 [of b] length_udigits_32 [of c] length_udigits_32 [of w]
  by (simp_all add: health_text_def wdog_text_def)

lemma print_fmt_lock:
  assumes "\<And>n. length (g n) = n" and "mp_render D fmt args = Inr t" and "nul_free t" and "length t < sz"
  shows "print_fmt D sz g fmt args here next s = (Lock t next, s)"
proof -
  have "0 < sz" using assms(4) by simp
  from mini_vsnprintf_shown [OF assms(1) this assms(2,3)]
  obtain buf where "mini_vsnprintf D sz (g sz) fmt args = Inr (buf, length t)" "c_string buf = Inr (take (sz - 1) t)" .
  with assms(4) show ?thesis by (simp add: print_fmt_def mini_snprintf_def)
qed

end
