(* ===== verification/Lm3sSafety.thy ===== *)
theory Lm3sSafety
  imports Lm3sText
begin

text \<open>
  What holds on the lm3s board in every reachable state, over any kernel that keeps its contract and
  any interleaving: the lines on the serial port are never mixed, no task runs into undefined
  behaviour, and the static variables stay in their bounds.
\<close>

subsection \<open>The kernel's contract\<close>

record ('sq, 'tq, 'eg, 'sem) lm3s_view =
  sdata_ok :: "'sq \<Rightarrow> bool"
  sdata_items :: "'sq \<Rightarrow> SensorData_t list"
  tdata_ok :: "'tq \<Rightarrow> bool"
  tdata_items :: "'tq \<Rightarrow> TelemetryData_t list"
  group_bits :: "'eg \<Rightarrow> u32"
  free_sem :: "'sem \<Rightarrow> bool"

definition lm3s_contract :: "('sq, 'tq, 'eg, 'sem) lm3s_rtos \<Rightarrow> ('sq, 'tq, 'eg, 'sem) lm3s_view \<Rightarrow> bool" where
  "lm3s_contract K V \<longleftrightarrow>
     queue_contract (sensor_data_api K) (sdata_ok V) (sdata_items V) 10
     \<and> queue_contract (telemetry_data_api K) (tdata_ok V) (tdata_items V) 10
     \<and> event_contract K (group_bits V) \<and> semaphore_contract K (free_sem V)"

lemma lm3s_contractD:
  assumes "lm3s_contract K V"
  shows "queue_contract (sensor_data_api K) (sdata_ok V) (sdata_items V) 10"
    and "queue_contract (telemetry_data_api K) (tdata_ok V) (tdata_items V) 10"
    and "event_contract K (group_bits V)" and "semaphore_contract K (free_sem V)"
  using assms by (simp_all add: lm3s_contract_def)

text \<open>The kernel of lists, as in \<open>Rtos\<close>.\<close>

definition list_lm3s :: "(SensorData_t list, TelemetryData_t list, u32, bool) lm3s_rtos" where
  "list_lm3s = \<lparr>xEventGroupCreateStatic = 0, xEventGroupSetBits = \<lambda>e b. e OR b,
     xEventGroupClearBits = \<lambda>e b. e AND NOT b, xEventGroupWaitBits = spec_wait_bits,
     xSemaphoreCreateBinaryStatic = False, xSemaphoreCreateMutexStatic = True,
     xSemaphoreTake = \<lambda>m. if m then Some False else None, xSemaphoreGive = \<lambda>_. True,
     sensor_data_api = list_queue 10, telemetry_data_api = list_queue 10, uxTaskGetNumberOfTasks = 7\<rparr>"

definition list_lm3s_view :: "(SensorData_t list, TelemetryData_t list, u32, bool) lm3s_view" where
  "list_lm3s_view = \<lparr>sdata_ok = \<lambda>q. length q \<le> 10, sdata_items = \<lambda>q. q, tdata_ok = \<lambda>q. length q \<le> 10,
     tdata_items = \<lambda>q. q, group_bits = \<lambda>e. e, free_sem = \<lambda>m. m\<rparr>"

lemma list_lm3s_contract: "lm3s_contract list_lm3s list_lm3s_view"
  using list_queue_contract [of 10, where ?'a = SensorData_t] list_queue_contract [of 10, where ?'a = TelemetryData_t]
  by (simp add: lm3s_contract_def event_contract_def semaphore_contract_def list_lm3s_def list_lm3s_view_def
      apsnd_def map_prod_def option.map_id)

subsection \<open>Messages\<close>

definition diag_text :: "string \<Rightarrow> bool" where
  "diag_text t \<longleftrightarrow> t \<in> {crlf, diag_help, diag_ready, diag_unknown, ''[DIAG] Fault cleared'' @ crlf,
       ''[DIAG] Fault: QUEUE_OVERFLOW'' @ crlf, ''[DIAG] Fault: SENSOR_FAILURE'' @ crlf,
       ''[DIAG] Fault: TASK_DELAY (process stall)'' @ crlf, ''[DIAG] FreeHeap=0'' @ crlf}
     \<or> (\<exists>n. t = ''[DIAG] Uptime='' @ udigits 10 (unat (n :: u32)) @ '' ms  FreeHeap=0'' @ crlf)
     \<or> (\<exists>n. t = ''[DIAG] Tasks running: '' @ udigits 10 (unat (n :: u32)) @ crlf)
     \<or> (\<exists>n. t = ''[DIAG] Heap=0 Tasks='' @ udigits 10 (unat (n :: u32)) @ crlf)"

definition lm3s_message :: "string \<Rightarrow> bool" where
  "lm3s_message t \<longleftrightarrow> (\<exists>f. t = telem_text f) \<or> (\<exists>a b c. t = health_text a b c)
     \<or> (\<exists>w bits. t = wdog_text w bits) \<or> diag_text t"

lemma diag_text_nul_free: "diag_text t \<Longrightarrow> nul_free t"
  by (auto simp: diag_text_def diag_help_def diag_ready_def diag_unknown_def)

lemma message_nul_free: "lm3s_message t \<Longrightarrow> nul_free t"
  by (auto simp: lm3s_message_def nul_free_telem nul_free_health diag_text_nul_free)

lemma lm3s_messages [simp]: "lm3s_message (telem_text f)" "lm3s_message (health_text a b c)" "lm3s_message (wdog_text w bits)"
  unfolding lm3s_message_def by blast+

text \<open>What a task has put on the line so far, and that what it prints is a message.\<close>

definition sent :: "'pc ctl \<Rightarrow> string list" where
  "sent c = (case c of Put d t pc \<Rightarrow> [d] | Unlock d pc \<Rightarrow> [d] | _ \<Rightarrow> [])"

definition prints :: "'pc ctl \<Rightarrow> bool" where
  "prints c = (case c of At pc \<Rightarrow> True | Lock t pc \<Rightarrow> lm3s_message t | Put d t pc \<Rightarrow> lm3s_message (d @ t)
     | Unlock d pc \<Rightarrow> lm3s_message d)"

lemma sent_simps [simp]: "sent (At pc) = []" "sent (Lock t pc) = []" "sent (Put d t pc) = [d]" "sent (Unlock d pc) = [d]"
  by (simp_all add: sent_def)

lemma prints_simps [simp]: "prints (At pc)" "prints (Lock t pc) \<longleftrightarrow> lm3s_message t"
  "prints (Put d t pc) \<longleftrightarrow> lm3s_message (d @ t)" "prints (Unlock d pc) \<longleftrightarrow> lm3s_message d"
  by (simp_all add: prints_def)

text \<open>The moves of a task that prints: none, take the mutex, send, give the mutex.\<close>

definition line_move :: "('sq, 'tq, 'eg, 'sem) lm3s_view \<Rightarrow> 'pc ctl \<Rightarrow> ('sq, 'tq, 'eg, 'sem) lm3s \<Rightarrow> 'pc ctl \<Rightarrow>
    ('sq, 'tq, 'eg, 'sem) lm3s \<Rightarrow> bool" where
  "line_move V c s c' s' \<longleftrightarrow>
     (sent c' = sent c \<and> tx s' = tx s \<and> xUartMutex s' = xUartMutex s)
     \<or> (sent c = [] \<and> sent c' = [[]] \<and> tx s' = tx s \<and> free_sem V (xUartMutex s) \<and> \<not> free_sem V (xUartMutex s'))
     \<or> (\<exists>d x. sent c = [d] \<and> sent c' = [d @ x] \<and> tx s' = tx s @ x \<and> xUartMutex s' = xUartMutex s)
     \<or> (\<exists>d. sent c = [d] \<and> sent c' = [] \<and> tx s' = tx s \<and> lm3s_message d \<and> free_sem V (xUartMutex s'))"

text \<open>What printing leaves alone.\<close>

definition same_data :: "('sq, 'tq, 'eg, 'sem) lm3s \<Rightarrow> ('sq, 'tq, 'eg, 'sem) lm3s \<Rightarrow> bool" where
  "same_data s s' \<longleftrightarrow> xSensorQueue s' = xSensorQueue s \<and> xTelemetryQueue s' = xTelemetryQueue s
     \<and> xDataReadySem s' = xDataReadySem s \<and> speed_kmh_x10 s' = speed_kmh_x10 s \<and> cmd_buf s' = cmd_buf s
     \<and> cmd_len s' = cmd_len s \<and> ub s' = ub s"

lemma same_data_refl [simp]: "same_data s s"
  by (simp add: same_data_def)

lemma print_step_moves:
  assumes "lm3s_contract K V" and "prints c" and "print_step K c s = Some (c', s')"
  shows "prints c' \<and> line_move V c s c' s' \<and> same_data s s'"
proof (cases c)
  case (At pc)
  with assms(3) show ?thesis by (auto simp: line_move_def)
next
  case (Lock t pc)
  note sem = semaphore_contractD [OF lm3s_contractD(4) [OF assms(1)]]
  obtain m where m: "xSemaphoreTake K (xUartMutex s) = Some m" "c' = Put [] t pc" "s' = s\<lparr>xUartMutex := m\<rparr>"
    using assms(3) Lock by auto
  then have "free_sem V (xUartMutex s)" using sem(5) [of "xUartMutex s"] by auto
  with sem(4) [of "xUartMutex s"] m have "\<not> free_sem V m" by auto
  with m Lock assms(2) \<open>free_sem V (xUartMutex s)\<close> show ?thesis by (simp add: line_move_def same_data_def)
next
  case (Put d t pc)
  have "nul_free t" using assms(2) Put message_nul_free [of "d @ t"] by simp
  show ?thesis
  proof (cases t)
    case Nil
    with assms(2,3) Put show ?thesis by (auto simp: line_move_def)
  next
    case (Cons x r)
    with \<open>nul_free t\<close> assms(2,3) Put show ?thesis by (auto simp: line_move_def same_data_def)
  qed
next
  case (Unlock d pc)
  with assms(2,3) semaphore_contractD(3) [OF lm3s_contractD(4) [OF assms(1)], of "xUartMutex s"] show ?thesis
    by (auto simp: line_move_def same_data_def)
qed

lemma print_fmt_moves:
  assumes "\<And>n. length (g n) = n" and "mp_render D fmt args = Inr t" and "lm3s_message t" and "length t < sz"
    and "print_fmt D sz g fmt args here next s = (c', s')"
  shows "prints c' \<and> line_move V (At pc) s c' s' \<and> same_data s s'"
  using print_fmt_lock [OF assms(1,2) message_nul_free [OF assms(3)] assms(4), of here "next" s] assms(3,5)
  by (auto simp: line_move_def)

subsection \<open>The tasks one by one\<close>

definition good :: "SensorData_t \<Rightarrow> bool" where
  "good d \<longleftrightarrow> plausible d \<or> sentinel d"

definition data_ok :: "('sq, 'tq, 'eg, 'sem) lm3s_view \<Rightarrow> ('sq, 'tq, 'eg, 'sem) lm3s \<Rightarrow> bool" where
  "data_ok V s \<longleftrightarrow> sdata_ok V (xSensorQueue s) \<and> tdata_ok V (xTelemetryQueue s)
     \<and> list_all good (sdata_items V (xSensorQueue s)) \<and> 0 \<le> speed_kmh_x10 s \<and> speed_kmh_x10 s \<le> 2000
     \<and> cmd_len s \<le> 63 \<and> length (cmd_buf s) = 64 \<and> ub s = None"

definition quiet :: "('sq, 'tq, 'eg, 'sem) lm3s \<Rightarrow> ('sq, 'tq, 'eg, 'sem) lm3s \<Rightarrow> bool" where
  "quiet s s' \<longleftrightarrow> tx s' = tx s \<and> xUartMutex s' = xUartMutex s"

lemma same_data_ok: "same_data s s' \<Longrightarrow> data_ok V s \<Longrightarrow> data_ok V s'"
  by (simp add: same_data_def data_ok_def)

lemma quiet_move: "quiet s s' \<Longrightarrow> line_move V (At pc) s (At pc') s'"
  by (simp add: quiet_def line_move_def)

definition sensor_good :: "sensor_point \<Rightarrow> bool" where
  "sensor_good pc = (case pc of SN_Send d rng \<Rightarrow> good d | _ \<Rightarrow> True)"

definition processing_good :: "processing_pc \<Rightarrow> bool" where
  "processing_good pc = (case pc of PR_Compute d \<Rightarrow> good d | _ \<Rightarrow> True)"

lemma good_sensor_data: "good (fst (sensor_data fault now_ms rng))"
  using sensor_data_kind [of fault now_ms rng] by (auto simp: good_def split: if_splits)

lemma sensor_task_ok:
  assumes "lm3s_contract K V" and "data_ok V s" and "sensor_good pc" and "sensor_task K pc s = Some (pc', s')"
  shows "data_ok V s' \<and> sensor_good pc' \<and> quiet s s'"
proof (cases pc)
  case (SN_Send d rng)
  note q = queue_contract_send [OF lm3s_contractD(1) [OF assms(1)], of "xSensorQueue s" d]
  obtain ok q' where e: "xQueueSend (sensor_data_api K) (xSensorQueue s) d = (ok, q')"
    by (cases "xQueueSend (sensor_data_api K) (xSensorQueue s) d")
  have "sdata_ok V (xSensorQueue s)" using assms(2) by (simp add: data_ok_def)
  with q e have "sdata_ok V q'" "sdata_items V q' = snd (spec_push 10 (sdata_items V (xSensorQueue s)) d)"
    by simp_all (metis snd_conv)
  with e SN_Send assms(2-4) show ?thesis
    by (auto simp: sensor_task_def data_ok_def sensor_good_def quiet_def spec_push_def split: if_splits)
next
  case (SN_Data now rng)
  with assms(2,4) good_sensor_data [of "g_active_fault s" now rng] show ?thesis
    by (auto simp: sensor_task_def sensor_good_def quiet_def split: prod.splits)
qed (use assms(2,4) in \<open>auto simp: sensor_task_def data_ok_def sensor_good_def quiet_def system_event_def heartbeat_def\<close>)

lemma processing_task_ok:
  assumes "lm3s_contract K V" and "data_ok V s" and "processing_good pc" and "processing_task K pc s = Some (pc', s')"
  shows "data_ok V s' \<and> processing_good pc' \<and> quiet s s'"
proof (cases pc)
  case PR_Receive
  note q = queue_contract_receive [OF lm3s_contractD(1) [OF assms(1)], of "xSensorQueue s"]
  have ok: "sdata_ok V (xSensorQueue s)" using assms(2) by (simp add: data_ok_def)
  show ?thesis
  proof (cases "xQueueReceive (sensor_data_api K) (xSensorQueue s)")
    case None
    with PR_Receive assms(2,4) show ?thesis by (auto simp: processing_task_def processing_good_def quiet_def)
  next
    case (Some dq)
    obtain d q' where dq: "dq = (d, q')" by (cases dq)
    have "spec_pop (sdata_items V (xSensorQueue s)) = Some (d, sdata_items V q')"
      using q(2) [OF ok] Some dq by simp
    then have "sdata_items V (xSensorQueue s) = d # sdata_items V q'"
      by (cases "sdata_items V (xSensorQueue s)") simp_all
    with Some dq q(1) [OF ok] PR_Receive assms(2,4) show ?thesis
      by (auto simp: processing_task_def processing_good_def quiet_def data_ok_def)
  qed
next
  case (PR_Compute d)
  then have "plausible d \<or> sentinel d" "0 \<le> speed_kmh_x10 s" "speed_kmh_x10 s \<le> 2000"
    using assms(2,3) by (simp_all add: processing_good_def good_def data_ok_def)
  from process_data_bounds_lemma [OF this, of "g_active_fault s"]
  obtain v t where "process_data (g_active_fault s) (speed_kmh_x10 s) d = Inr (v, t)" "0 \<le> v" "v \<le> 2000" by blast
  with PR_Compute assms(2,4) show ?thesis
    by (auto simp: processing_task_def processing_good_def quiet_def data_ok_def split: if_splits)
next
  case (PR_Send t)
  note q = queue_contract_send [OF lm3s_contractD(2) [OF assms(1)], of "xTelemetryQueue s" t]
  have "tdata_ok V (xTelemetryQueue s)" using assms(2) by (simp add: data_ok_def)
  from q(1) [OF this] PR_Send assms(2,4) show ?thesis
    by (auto simp: processing_task_def processing_good_def quiet_def data_ok_def split: prod.splits)
qed (use assms(2,4) in \<open>auto simp: processing_task_def data_ok_def processing_good_def quiet_def system_event_def heartbeat_def\<close>)


lemma telemetry_task_ok:
  assumes "lm3s_contract K V" and "data_ok V s" and "prints c" and "\<And>n. length (g n) = n"
    and "telemetry_task K D g c s = Some (c', s')"
  shows "data_ok V s' \<and> prints c' \<and> line_move V c s c' s'"
proof -
  note ps = print_step_moves [OF assms(1,3), of s c' s'] same_data_ok [of s s' V]
  have ok: "tdata_ok V (xTelemetryQueue s)" using assms(2) by (simp add: data_ok_def)
  show ?thesis
  proof (cases "\<exists>pc. c = At pc")
    case False
    then have "print_step K c s = Some (c', s')" using assms(5) by (cases c) (simp_all add: telemetry_task_def)
    with ps assms(2) show ?thesis by blast
  next
    case True
    then obtain pc where c: "c = At pc" by blast
    show ?thesis
    proof (cases pc)
      case TL_Receive
      with c assms(5) obtain t q where "c' = At (TL_Format t)" "s' = s\<lparr>xTelemetryQueue := q\<rparr>"
          "xQueueReceive (telemetry_data_api K) (xTelemetryQueue s) = Some (t, q)"
        by (auto simp: telemetry_task_def)
      with queue_contract_receive(1) [OF lm3s_contractD(2) [OF assms(1)] ok] c assms(2) show ?thesis
        by (simp add: data_ok_def line_move_def)
    next
      case (TL_Format t)
      with c assms(5) have "print_fmt D 200 g telem_fmt (telem_args t) (TL_Format t) TL_Beat s = (c', s')"
        by (simp add: telemetry_task_def)
      moreover have "lm3s_message (telem_text t)" "length (telem_text t) < 200"
        using length_telem [of t] by simp_all
      ultimately show ?thesis
        using print_fmt_moves [OF assms(4) telem_render] ps(2) c TL_Format assms(2) by (metis (no_types, lifting))
    next
      case TL_Beat
      with c assms(2,5) show ?thesis by (auto simp: telemetry_task_def heartbeat_def data_ok_def line_move_def)
    qed
  qed
qed

lemma health_task_ok:
  assumes "lm3s_contract K V" and "data_ok V s" and "prints c" and "\<And>n. length (g n) = n"
    and "health_monitor_task K D g expired c s = Some (c', s')"
  shows "data_ok V s' \<and> prints c' \<and> line_move V c s c' s'"
proof -
  note ps = print_step_moves [OF assms(1,3), of s c' s'] same_data_ok [of s s' V]
  show ?thesis
  proof (cases "\<exists>pc. c = At pc")
    case False
    then have "print_step K c s = Some (c', s')" using assms(5) by (cases c) (simp_all add: health_monitor_task_def)
    with ps assms(2) show ?thesis by blast
  next
    case True
    then obtain pc where c: "c = At pc" by blast
    show ?thesis
    proof (cases pc)
      case HL_Wait
      with c assms(2,5) show ?thesis
        by (auto simp: health_monitor_task_def data_ok_def line_move_def split: if_splits)
    next
      case HL_Ok
      obtain x y z where b: "beat_count s = (x, y, z)" by (metis surj_pair)
      with HL_Ok c assms(5) have "print_fmt D 128 g health_fmt
          [PULong x, PULong y, PULong z, PUInt sys_xPortGetFreeHeapSize] HL_Ok HL_Wait s = (c', s')"
        by (simp add: health_monitor_task_def)
      moreover have "lm3s_message (health_text x y z)" "length (health_text x y z) < 128"
        using length_health(1) [of x y z] by simp_all
      ultimately show ?thesis
        using print_fmt_moves [OF assms(4) health_render] ps(2) c HL_Ok assms(2) by (metis (no_types, lifting))
    next
      case (HL_Timeout bits)
      with c assms(5) have "print_fmt D 192 g wdog_fmt (PULong (watchdog_warnings s) # missing_args bits)
          (HL_Timeout bits) HL_Reset s = (c', s')"
        by (simp add: health_monitor_task_def)
      moreover have "lm3s_message (wdog_text (watchdog_warnings s) bits)" "length (wdog_text (watchdog_warnings s) bits) < 192"
        using length_health(2) [of "watchdog_warnings s" bits] by simp_all
      ultimately show ?thesis
        using print_fmt_moves [OF assms(4) wdog_render] ps(2) c HL_Timeout assms(2) by (metis (no_types, lifting))
    next
      case HL_Reset
      with c assms(2,5) show ?thesis by (auto simp: health_monitor_task_def system_event_def data_ok_def line_move_def)
    qed
  qed
qed


lemma diag_renders:
  "mp_render D diag_status_fmt [PULong t, PUInt sys_xPortGetFreeHeapSize] =
     Inr (''[DIAG] Uptime='' @ udigits 10 (unat t) @ '' ms  FreeHeap=0'' @ crlf)"
  "mp_render D diag_tasks_fmt [PUInt n] = Inr (''[DIAG] Tasks running: '' @ udigits 10 (unat n) @ crlf)"
  "mp_render D diag_heap_fmt [PUInt sys_xPortGetFreeHeapSize] = Inr (''[DIAG] FreeHeap=0'' @ crlf)"
  "mp_render D diag_stats_fmt [PUInt sys_xPortGetFreeHeapSize, PUInt n] =
     Inr (''[DIAG] Heap=0 Tasks='' @ udigits 10 (unat n) @ crlf)"
  by (simp_all add: diag_status_fmt_def diag_tasks_fmt_def diag_heap_fmt_def diag_stats_fmt_def mp_render_simps
      sys_xPortGetFreeHeapSize_def udigits.simps [of 10 0] digit_char_def char_zero)

lemma message_diag: "diag_text t \<Longrightarrow> lm3s_message t"
  by (simp add: lm3s_message_def)

lemma diag_constants [simp]:
  "lm3s_message crlf" "lm3s_message diag_help" "lm3s_message diag_ready" "lm3s_message diag_unknown"
  "lm3s_message (''[DIAG] Fault cleared'' @ crlf)" "lm3s_message (''[DIAG] Fault: QUEUE_OVERFLOW'' @ crlf)"
  "lm3s_message (''[DIAG] Fault: SENSOR_FAILURE'' @ crlf)"
  "lm3s_message (''[DIAG] Fault: TASK_DELAY (process stall)'' @ crlf)"
  "lm3s_message (''[DIAG] FreeHeap=0'' @ crlf)"
  by ((rule message_diag, unfold diag_text_def insert_iff, rule disjI1, iprover intro: refl disjI1 disjI2)+)

lemma diag_numbers [simp]:
  "lm3s_message (''[DIAG] Uptime='' @ udigits 10 (unat (n :: u32)) @ '' ms  FreeHeap=0'' @ crlf)"
  "lm3s_message (''[DIAG] Tasks running: '' @ udigits 10 (unat (n :: u32)) @ crlf)"
  "lm3s_message (''[DIAG] Heap=0 Tasks='' @ udigits 10 (unat (n :: u32)) @ crlf)"
  by ((rule message_diag, unfold diag_text_def, rule disjI2, iprover intro: refl disjI1 disjI2 exI)+)

definition cmd_outcome :: "('sq, 'tq, 'eg, 'sem) lm3s \<Rightarrow> diagnostics_pc ctl \<times> ('sq, 'tq, 'eg, 'sem) lm3s \<Rightarrow> bool" where
  "cmd_outcome s r \<longleftrightarrow> same_data s (snd r) \<and> quiet s (snd r) \<and> prints (fst r) \<and> sent (fst r) = []"

lemma cmd_outcomes [simp]:
  "cmd_outcome s (Lock t pc, s) \<longleftrightarrow> lm3s_message t" "cmd_outcome s (Lock t pc, fault_clear s) \<longleftrightarrow> lm3s_message t"
  "cmd_outcome s (Lock t pc, fault_inject f s) \<longleftrightarrow> lm3s_message t" "cmd_outcome s (At pc, s\<lparr>reset_request := True\<rparr>)"
  by (simp_all add: cmd_outcome_def same_data_def quiet_def fault_clear_def fault_inject_def)

lemma do_cmd_outcome:
  assumes "\<And>n. length (g n) = n"
  shows "cmd_outcome s (do_cmd K D g cmd s)"
proof -
  have p: "cmd_outcome s (print_fmt D 256 g fmt args DG_Cmd DG_Poll s)"
    if "mp_render D fmt args = Inr t" and "lm3s_message t" and "length t < 256" for fmt args t
    by (simp add: print_fmt_lock [OF assms that(1) message_nul_free [OF that(2)] that(3)] that(2))
  have l: "length (udigits 10 (unat (n :: u32))) \<le> 10" for n by (rule length_udigits_32)
  have "cmd_outcome s (print_fmt D 256 g diag_status_fmt [PULong n, PUInt sys_xPortGetFreeHeapSize] DG_Cmd DG_Poll s)"
    "cmd_outcome s (print_fmt D 256 g diag_tasks_fmt [PUInt n] DG_Cmd DG_Poll s)"
    "cmd_outcome s (print_fmt D 256 g diag_heap_fmt [PUInt sys_xPortGetFreeHeapSize] DG_Cmd DG_Poll s)"
    "cmd_outcome s (print_fmt D 256 g diag_stats_fmt [PUInt sys_xPortGetFreeHeapSize, PUInt n] DG_Cmd DG_Poll s)" for n
    using l [of n] p [OF diag_renders(1) diag_numbers(1), of n] p [OF diag_renders(2) diag_numbers(2), of n]
      p [OF diag_renders(3) diag_constants(9)] p [OF diag_renders(4) diag_numbers(3), of n] by simp_all
  then show ?thesis by (simp add: do_cmd_def Let_def del: append_Cons append.simps)
qed

lemma poll_uart_ok:
  assumes "data_ok V s" and "poll_uart s = (c', s')"
  shows "data_ok V s' \<and> prints c' \<and> sent c' = [] \<and> quiet s s'"
  using assms by (auto simp: poll_uart_def Let_def data_ok_def quiet_def split: list.splits if_splits)

lemma diagnostics_task_ok:
  assumes "lm3s_contract K V" and "data_ok V s" and "prints c" and "\<And>n. length (g n) = n"
    and "diagnostics_task K D g c s = Some (c', s')"
  shows "data_ok V s' \<and> prints c' \<and> line_move V c s c' s'"
proof -
  note ps = print_step_moves [OF assms(1,3), of s c' s'] same_data_ok [of s s' V]
  show ?thesis
  proof (cases "\<exists>pc. c = At pc")
    case False
    then have "print_step K c s = Some (c', s')" using assms(5) by (cases c) (simp_all add: diagnostics_task_def)
    with ps assms(2) show ?thesis by blast
  next
    case True
    then obtain pc where c: "c = At pc" by blast
    show ?thesis
    proof (cases pc)
      case DG_Poll
      with c assms(2,5) poll_uart_ok [of V s c' s'] show ?thesis
        by (auto simp: diagnostics_task_def line_move_def quiet_def)
    next
      case DG_Cmd
      with c assms(5) have "do_cmd K D g (up_to_nul (cmd_buf s)) s = (c', s')" by (simp add: diagnostics_task_def)
      with do_cmd_outcome [OF assms(4), of s K D "up_to_nul (cmd_buf s)"] c ps(2) assms(2) show ?thesis
        by (auto simp: cmd_outcome_def line_move_def quiet_def)
    qed (use c assms(2,5) in \<open>auto simp: diagnostics_task_def line_move_def\<close>)
  qed
qed

subsection \<open>The line\<close>

definition boot_text :: string where
  "boot_text = lm3s_banner @ ''[MAIN] Tasks created. Starting scheduler...'' @ crlf"

text \<open>The messages sent by the holder of the mutex so far; no list if nobody holds it.\<close>

definition holders :: "('sq, 'tq, 'eg, 'sem) board \<Rightarrow> string list" where
  "holders b = sent (telemetry_at b) @ sent (health_at b) @ sent (diag_at b)"

definition line_state :: "('sq, 'tq, 'eg, 'sem) lm3s_view \<Rightarrow> string list \<Rightarrow> ('sq, 'tq, 'eg, 'sem) lm3s \<Rightarrow> bool" where
  "line_state V hs s \<longleftrightarrow> length hs \<le> 1 \<and> (free_sem V (xUartMutex s) \<longleftrightarrow> hs = [])
     \<and> (\<exists>ms. list_all lm3s_message ms \<and> tx s = boot_text @ concat ms @ concat hs)"

lemma quiet_line: "quiet s s' \<Longrightarrow> line_state V hs s \<Longrightarrow> line_state V hs s'"
  by (simp add: line_state_def quiet_def)

lemma line_move_keeps:
  assumes "line_state V (p @ sent c @ q) s" and "line_move V c s c' s'"
  shows "line_state V (p @ sent c' @ q) s'"
proof -
  obtain ms where ms: "list_all lm3s_message ms" "tx s = boot_text @ concat ms @ concat (p @ sent c @ q)"
    using assms(1) by (auto simp: line_state_def)
  have len: "length (p @ sent c @ q) \<le> 1" and free: "free_sem V (xUartMutex s) \<longleftrightarrow> p @ sent c @ q = []"
    using assms(1) by (simp_all add: line_state_def)
  consider (same) "sent c' = sent c" "tx s' = tx s" "xUartMutex s' = xUartMutex s"
    | (take) "sent c = []" "sent c' = [[]]" "tx s' = tx s" "free_sem V (xUartMutex s)" "\<not> free_sem V (xUartMutex s')"
    | (send) d x where "sent c = [d]" "sent c' = [d @ x]" "tx s' = tx s @ x" "xUartMutex s' = xUartMutex s"
    | (give) d where "sent c = [d]" "sent c' = []" "tx s' = tx s" "lm3s_message d" "free_sem V (xUartMutex s')"
    using assms(2) unfolding line_move_def by blast
  then show ?thesis
  proof cases
    case same
    with assms(1) show ?thesis by (simp add: line_state_def)
  next
    case take
    with free ms show ?thesis by (auto simp: line_state_def)
  next
    case send
    with len have "p = []" "q = []" by simp_all
    with send ms free show ?thesis by (auto simp: line_state_def)
  next
    case give
    with len have "p = []" "q = []" by simp_all
    with give ms have "list_all lm3s_message (ms @ [d]) \<and> tx s' = boot_text @ concat (ms @ [d]) @ concat []" by simp
    then have "\<exists>ms. list_all lm3s_message ms \<and> tx s' = boot_text @ concat ms @ concat []" by (rule exI)
    with give \<open>p = []\<close> \<open>q = []\<close> show ?thesis by (simp add: line_state_def)
  qed
qed

subsection \<open>The invariant of the board\<close>

definition board_ok :: "('sq, 'tq, 'eg, 'sem) lm3s_view \<Rightarrow> ('sq, 'tq, 'eg, 'sem) board \<Rightarrow> bool" where
  "board_ok V b \<longleftrightarrow> data_ok V (shared b) \<and> sensor_good (sensor_at b) \<and> processing_good (processing_at b)
     \<and> prints (telemetry_at b) \<and> prints (health_at b) \<and> prints (diag_at b) \<and> line_state V (holders b) (shared b)"

lemma lm3s_main_simps:
  "tx (shared (lm3s_main K)) = boot_text" "xUartMutex (shared (lm3s_main K)) = xSemaphoreCreateMutexStatic K"
  "holders (lm3s_main K) = []" "prints (telemetry_at (lm3s_main K))" "prints (health_at (lm3s_main K))"
  "prints (diag_at (lm3s_main K))" "sensor_good (sensor_at (lm3s_main K))" "processing_good (processing_at (lm3s_main K))"
  by (simp_all add: lm3s_main_def Let_def ipc_init_def boot_text_def holders_def sensor_good_def processing_good_def del: append_Cons append.simps)

lemma board_ok_boot:
  assumes "lm3s_contract K V"
  shows "board_ok V (lm3s_main K)"
proof -
  note c = lm3s_contractD [OF assms]
  have "sdata_ok V (xQueueCreateStatic (sensor_data_api K) 10)" "sdata_items V (xQueueCreateStatic (sensor_data_api K) 10) = []"
    "tdata_ok V (xQueueCreateStatic (telemetry_data_api K) 10)"
    using c(1,2) by (simp_all add: queue_contract_def)
  then have "data_ok V (shared (lm3s_main K))"
    by (simp add: lm3s_main_def Let_def ipc_init_def data_ok_def del: append_Cons append.simps)
  moreover have "line_state V (holders (lm3s_main K)) (shared (lm3s_main K))"
    unfolding line_state_def lm3s_main_simps using semaphore_contractD(2) [OF c(4)] by (simp add: exI [of _ "[]"])
  ultimately show ?thesis by (simp only: board_ok_def lm3s_main_simps simp_thms)
qed

lemma board_ok_step:
  assumes "lm3s_contract K V" and "lm3s_step K D b b'" and "board_ok V b"
  shows "board_ok V b'"
  using assms(2,3)
proof cases
  case (sensor pc s)
  with assms(3) sensor_task_ok [OF assms(1), of "shared b" "sensor_at b" pc s] show ?thesis
    by (auto simp: board_ok_def holders_def intro: quiet_line)
next
  case (processing pc s)
  with assms(3) processing_task_ok [OF assms(1), of "shared b" "processing_at b" pc s] show ?thesis
    by (auto simp: board_ok_def holders_def intro: quiet_line)
next
  case (telemetry g pc s)
  with assms(3) have "data_ok V s \<and> prints pc \<and> line_move V (telemetry_at b) (shared b) pc s"
    by (intro telemetry_task_ok [OF assms(1)]) (simp_all add: board_ok_def)
  with telemetry assms(3) line_move_keeps [of V "[]" "telemetry_at b" "sent (health_at b) @ sent (diag_at b)" "shared b" pc s]
  show ?thesis by (simp add: board_ok_def holders_def)
next
  case (health g e pc s)
  with assms(3) have "data_ok V s \<and> prints pc \<and> line_move V (health_at b) (shared b) pc s"
    by (intro health_task_ok [OF assms(1)]) (simp_all add: board_ok_def)
  with health assms(3) line_move_keeps [of V "sent (telemetry_at b)" "health_at b" "sent (diag_at b)" "shared b" pc s]
  show ?thesis by (simp add: board_ok_def holders_def)
next
  case (diagnostics g pc s)
  with assms(3) have "data_ok V s \<and> prints pc \<and> line_move V (diag_at b) (shared b) pc s"
    by (intro diagnostics_task_ok [OF assms(1)]) (simp_all add: board_ok_def)
  with diagnostics assms(3) line_move_keeps [of V "sent (telemetry_at b) @ sent (health_at b)" "diag_at b" "[]" "shared b" pc s]
  show ?thesis by (simp add: board_ok_def holders_def)
qed (use assms(3) in \<open>simp_all add: board_ok_def holders_def data_ok_def line_state_def ipc_prvSensorTimerCallback_def\<close>)

lemma board_ok_reach:
  assumes "lm3s_contract K V"
  shows "lm3s_reach K D b \<Longrightarrow> board_ok V b"
  by (induction rule: lm3s_reach.induct) (rule board_ok_boot [OF assms], rule board_ok_step [OF assms])

subsection \<open>Samples behind the binary semaphore\<close>

text \<open>
  The samples that the processing task is still going to take for the semaphore as it stands: one if it
  is given, one if the sensor task is about to give it, one if it was taken just now.
\<close>

definition announced :: "('sq, 'tq, 'eg, 'sem) lm3s_view \<Rightarrow> ('sq, 'tq, 'eg, 'sem) board \<Rightarrow> nat" where
  "announced V b = of_bool (free_sem V (xDataReadySem (shared b)))
     + (case sensor_at b of SN_Ready rng \<Rightarrow> 1 | SN_Give rng \<Rightarrow> 1 | _ \<Rightarrow> 0)
     + of_bool (processing_at b = PR_Receive)"

definition stranded :: "('sq, 'tq, 'eg, 'sem) lm3s_view \<Rightarrow> nat \<Rightarrow> ('sq, 'tq, 'eg, 'sem) board \<Rightarrow> bool" where
  "stranded V n b \<longleftrightarrow> n + announced V b \<le> length (sdata_items V (xSensorQueue (shared b)))"

lemma stranded_same:
  assumes "xDataReadySem (shared b') = xDataReadySem (shared b)" and "xSensorQueue (shared b') = xSensorQueue (shared b)"
    and "sensor_at b' = sensor_at b" and "processing_at b' = processing_at b"
  shows "stranded V n b' = stranded V n b"
  using assms by (simp add: stranded_def announced_def)

lemma print_step_queues:
  assumes "print_step K c s = Some (c', s')"
  shows "xDataReadySem s' = xDataReadySem s \<and> xSensorQueue s' = xSensorQueue s"
  using assms by (cases c) (auto split: if_splits)

lemma print_fmt_queues:
  assumes "print_fmt D sz g fmt args here next s = (c', s')"
  shows "xDataReadySem s' = xDataReadySem s \<and> xSensorQueue s' = xSensorQueue s"
  using assms by (auto simp: print_fmt_def split: sum.splits prod.splits)

lemma do_cmd_queues:
  assumes "do_cmd K D g cmd s = (c', s')"
  shows "xDataReadySem s' = xDataReadySem s \<and> xSensorQueue s' = xSensorQueue s"
  using assms print_fmt_queues [of D 256 g _ _ DG_Cmd DG_Poll s c' s']
  by (auto simp: do_cmd_def Let_def fault_clear_def fault_inject_def simp del: append_Cons append.simps split: if_splits)

lemma printing_tasks_queues:
  "telemetry_task K D g c s = Some (c', s') \<Longrightarrow> xDataReadySem s' = xDataReadySem s \<and> xSensorQueue s' = xSensorQueue s"
  "health_monitor_task K D g e h s = Some (h', s') \<Longrightarrow> xDataReadySem s' = xDataReadySem s \<and> xSensorQueue s' = xSensorQueue s"
  "diagnostics_task K D g d s = Some (d', s') \<Longrightarrow> xDataReadySem s' = xDataReadySem s \<and> xSensorQueue s' = xSensorQueue s"
  using print_step_queues [of K c s c' s'] print_step_queues [of K h s h' s'] print_step_queues [of K d s d' s']
    print_fmt_queues [of D _ g _ _ _ _ s c' s'] print_fmt_queues [of D _ g _ _ _ _ s h' s']
    do_cmd_queues [of K D g _ s d' s']
  by (auto simp: telemetry_task_def health_monitor_task_def diagnostics_task_def heartbeat_def system_event_def
      poll_uart_def Let_def split: ctl.splits telemetry_pc.splits health_pc.splits diagnostics_pc.splits prod.splits
        list.splits if_splits)

lemma stranded_sensor:
  assumes "lm3s_contract K V" and "sdata_ok V (xSensorQueue (shared b))" and "n \<le> 7" and "stranded V n b"
    and "sensor_task K (sensor_at b) (shared b) = Some (pc, s)"
  shows "stranded V n (b\<lparr>sensor_at := pc, shared := s\<rparr>)"
proof (cases "sensor_at b")
  case (SN_Send d rng)
  note q = queue_contract_send [OF lm3s_contractD(1) [OF assms(1)] assms(2), of d]
  obtain ok q' where e: "xQueueSend (sensor_data_api K) (xSensorQueue (shared b)) d = (ok, q')"
    by (cases "xQueueSend (sensor_data_api K) (xSensorQueue (shared b)) d")
  with q(2) have "sdata_items V q' = snd (spec_push 10 (sdata_items V (xSensorQueue (shared b))) d)"
    by (metis snd_conv)
  with e SN_Send assms(3-5) show ?thesis
    by (auto simp: sensor_task_def stranded_def announced_def spec_push_def split: if_splits)
next
  case (SN_Give rng)
  with assms(4,5) show ?thesis by (auto simp: sensor_task_def stranded_def announced_def)
qed (use assms(4,5) in \<open>auto simp: sensor_task_def stranded_def announced_def system_event_def heartbeat_def split: if_splits prod.splits\<close>)

lemma stranded_processing:
  assumes "lm3s_contract K V" and "sdata_ok V (xSensorQueue (shared b))" and "stranded V n b"
    and "processing_task K (processing_at b) (shared b) = Some (pc, s)"
  shows "stranded V n (b\<lparr>processing_at := pc, shared := s\<rparr>)"
proof (cases "processing_at b")
  case PR_Take
  note sem = semaphore_contractD(4,5) [OF lm3s_contractD(4) [OF assms(1)], of "xDataReadySem (shared b)"]
  from PR_Take assms(4) obtain m where m: "xSemaphoreTake K (xDataReadySem (shared b)) = Some m"
    "pc = PR_Receive" "s = (shared b)\<lparr>xDataReadySem := m\<rparr>" by (auto simp: processing_task_def)
  then have "free_sem V (xDataReadySem (shared b))" "\<not> free_sem V m" using sem by auto
  with m PR_Take assms(3) show ?thesis by (simp add: stranded_def announced_def)
next
  case PR_Receive
  then have "sdata_items V (xSensorQueue (shared b)) \<noteq> []"
    using assms(3) by (auto simp: stranded_def announced_def)
  with queue_contract_receive(2) [OF lm3s_contractD(1) [OF assms(1)] assms(2)] PR_Receive assms(3,4) show ?thesis
    by (cases "sdata_items V (xSensorQueue (shared b))")
      (auto simp: processing_task_def stranded_def announced_def)
qed (use assms(3,4) in \<open>auto simp: processing_task_def stranded_def announced_def system_event_def heartbeat_def
      split: if_splits sum.splits prod.splits\<close>)

lemma stranded_step:
  assumes "lm3s_contract K V" and "lm3s_step K D b b'" and "board_ok V b" and "n \<le> 7" and "stranded V n b"
  shows "stranded V n b'"
proof -
  have ok: "sdata_ok V (xSensorQueue (shared b))" using assms(3) by (simp add: board_ok_def data_ok_def)
  from assms(2) show ?thesis
  proof cases
    case (sensor pc s)
    with stranded_sensor [OF assms(1) ok assms(4,5)] show ?thesis by simp
  next
    case (processing pc s)
    with stranded_processing [OF assms(1) ok assms(5)] show ?thesis by simp
  qed (use assms(5) in \<open>auto simp: printing_tasks_queues ipc_prvSensorTimerCallback_def cong: stranded_same
       intro!: stranded_same [THEN iffD2, OF _ _ _ _ assms(5)]\<close>)
qed

lemma stranded_steps:
  assumes "lm3s_contract K V" and "(lm3s_step K D)\<^sup>*\<^sup>* b b'" and "board_ok V b" and "n \<le> 7" and "stranded V n b"
  shows "board_ok V b' \<and> stranded V n b'"
  using assms(2)
proof induction
  case base
  show ?case using assms(3,5) by blast
next
  case (step y z)
  then show ?case using board_ok_step [OF assms(1), of D y z] stranded_step [OF assms(1), of D y z n] assms(4) by blast
qed

text \<open>The sensor task alone for \<open>n\<close> steps, and one round of it over the kernel of lists.\<close>

fun sensor_run :: "('sq, 'tq, 'eg, 'sem) lm3s_rtos \<Rightarrow> nat \<Rightarrow> ('sq, 'tq, 'eg, 'sem) board \<Rightarrow> ('sq, 'tq, 'eg, 'sem) board option" where
  "sensor_run K 0 b = Some b"
| "sensor_run K (Suc n) b =
     (case sensor_task K (sensor_at b) (shared b) of None \<Rightarrow> None
      | Some (pc, s) \<Rightarrow> sensor_run K n (b\<lparr>sensor_at := pc, shared := s\<rparr>))"

lemma sensor_run_reach: "sensor_run K n b = Some b' \<Longrightarrow> lm3s_reach K D b \<Longrightarrow> lm3s_reach K D b'"
proof (induction n arbitrary: b)
  case (Suc n)
  from Suc.prems(1) obtain pc s where "sensor_task K (sensor_at b) (shared b) = Some (pc, s)"
    "sensor_run K n (b\<lparr>sensor_at := pc, shared := s\<rparr>) = Some b'"
    by (auto split: option.splits)
  with Suc.IH Suc.prems(2) lm3s_step.sensor lm3s_reach.step show ?case by metis
qed simp

definition waits :: "(SensorData_t list, TelemetryData_t list, u32, bool) board \<Rightarrow> nat \<Rightarrow> bool" where
  "waits b n \<longleftrightarrow> (\<exists>rng. sensor_at b = SN_Take rng) \<and> processing_at b = PR_Take \<and> g_active_fault (shared b) = FAULT_NONE
     \<and> length (xSensorQueue (shared b)) = n"

lemma sensor_round:
  assumes "waits b n" and "n < 10" and "xSensorKickSem (shared b)"
  shows "\<exists>b'. sensor_run list_lm3s 8 b = Some b' \<and> waits b' (Suc n) \<and> xDataReadySem (shared b')"
proof -
  obtain rng where rng: "sensor_at b = SN_Take rng" using assms(1) by (auto simp: waits_def)
  obtain d rng' where d: "sensor_data FAULT_NONE (ticks (shared b)) rng = (d, rng')" by fastforce
  have 8: "8 = Suc (Suc (Suc (Suc (Suc (Suc (Suc (Suc 0)))))))" by simp
  from rng d assms show ?thesis unfolding 8
    by (simp add: sensor_task_def waits_def list_lm3s_def list_queue_def spec_push_def system_event_def heartbeat_def)
qed

lemma timer_round:
  assumes "lm3s_reach list_lm3s D b" and "waits b n" and "n < 10"
  shows "\<exists>b'. lm3s_reach list_lm3s D b' \<and> waits b' (Suc n) \<and> xDataReadySem (shared b')"
proof -
  let ?b = "b\<lparr>shared := ipc_prvSensorTimerCallback list_lm3s (shared b)\<rparr>"
  have "lm3s_reach list_lm3s D ?b" by (rule lm3s_reach.step [OF assms(1) lm3s_step.timer])
  moreover have "waits ?b n" "xSensorKickSem (shared ?b)"
    using assms(2) by (simp_all add: waits_def ipc_prvSensorTimerCallback_def list_lm3s_def)
  ultimately show ?thesis using sensor_round [of ?b n] assms(3) sensor_run_reach [of list_lm3s 8 ?b _ D] by blast
qed

lemma waits_boot: "waits (lm3s_main list_lm3s) 0"
  by (simp add: waits_def lm3s_main_def Let_def ipc_init_def list_lm3s_def list_queue_def del: append_Cons append.simps)

lemma two_rounds: "\<exists>b. lm3s_reach list_lm3s D b \<and> stranded list_lm3s_view 1 b"
proof -
  from timer_round [OF lm3s_reach.boot waits_boot, of D] obtain b1 where "lm3s_reach list_lm3s D b1" "waits b1 1" by auto
  from timer_round [OF this] obtain b2 where b2: "lm3s_reach list_lm3s D b2" "waits b2 2" by (auto simp: numeral_2_eq_2)
  then have "stranded list_lm3s_view 1 b2" by (auto simp: waits_def stranded_def announced_def list_lm3s_view_def)
  with b2(1) show ?thesis by blast
qed

subsection \<open>Reading a command line\<close>

text \<open>The diagnostics task alone, for \<open>n\<close> steps.\<close>

fun diag_run :: "('sq, 'tq, 'eg, 'sem) lm3s_rtos \<Rightarrow> 'd dbl \<Rightarrow> (nat \<Rightarrow> string) \<Rightarrow> nat \<Rightarrow>
    diagnostics_pc ctl \<times> ('sq, 'tq, 'eg, 'sem) lm3s \<Rightarrow> (diagnostics_pc ctl \<times> ('sq, 'tq, 'eg, 'sem) lm3s) option" where
  "diag_run K D g 0 x = Some x"
| "diag_run K D g (Suc n) x =
     (case diagnostics_task K D g (fst x) (snd x) of None \<Rightarrow> None | Some y \<Rightarrow> diag_run K D g n y)"

lemma diag_run_add: "diag_run K D g (m + n) x = Option.bind (diag_run K D g m x) (diag_run K D g n)"
  by (induction m arbitrary: x) (simp_all split: option.splits)

definition line_end :: "char \<Rightarrow> bool" where
  "line_end c \<longleftrightarrow> c = CHR 0x0D \<or> c = CHR 0x0A"

lemma up_to_nul_stop: "nul_free t \<Longrightarrow> up_to_nul (t @ NUL # r) = t"
  by (induction t) simp_all

lemma diag_run_chars:
  assumes "list_all (\<lambda>c. \<not> line_end c) l" and "rx s = l @ r" and "cmd_len s \<le> 63" and "length (cmd_buf s) = 64"
  shows "\<exists>buf. diag_run K D g (length l) (At DG_Poll, s) =
      Some (At DG_Poll, s\<lparr>rx := r, cmd_buf := buf, cmd_len := min 63 (cmd_len s + length l)\<rparr>)
    \<and> length buf = 64
    \<and> take (min 63 (cmd_len s + length l)) buf = take 63 (take (cmd_len s) (cmd_buf s) @ l)"
  using assms
proof (induction l arbitrary: s)
  case Nil
  then show ?case by (intro exI [of _ "cmd_buf s"]) (simp add: min_def)
next
  case (Cons c l)
  let ?k = "cmd_len s"
  let ?t = "if ?k < 63 then s\<lparr>rx := l @ r, cmd_buf := (cmd_buf s)[?k := c], cmd_len := Suc ?k\<rparr> else s\<lparr>rx := l @ r\<rparr>"
  have "rx s = c # l @ r" "c \<noteq> CHR 0x0D" "c \<noteq> CHR 0x0A" using Cons.prems(1,2) by (simp_all add: line_end_def)
  then have step: "diagnostics_task K D g (At DG_Poll) s = Some (At DG_Poll, ?t)"
    by (simp add: diagnostics_task_def poll_uart_def Let_def)
  have "list_all (\<lambda>c. \<not> line_end c) l" "rx ?t = l @ r" "cmd_len ?t \<le> 63" "length (cmd_buf ?t) = 64"
    using Cons.prems by simp_all
  from Cons.IH [OF this] obtain buf where
    run: "diag_run K D g (length l) (At DG_Poll, ?t) =
      Some (At DG_Poll, ?t\<lparr>rx := r, cmd_buf := buf, cmd_len := min 63 (cmd_len ?t + length l)\<rparr>)"
    and buf: "length buf = 64" "take (min 63 (cmd_len ?t + length l)) buf = take 63 (take (cmd_len ?t) (cmd_buf ?t) @ l)"
    by blast
  have e1: "diag_run K D g (length (c # l)) (At DG_Poll, s) = diag_run K D g (length l) (At DG_Poll, ?t)"
    using step by simp
  have e2: "?t\<lparr>rx := r, cmd_buf := buf, cmd_len := min 63 (cmd_len ?t + length l)\<rparr> =
      s\<lparr>rx := r, cmd_buf := buf, cmd_len := min 63 (?k + length (c # l))\<rparr>"
    using Cons.prems(3) by (simp add: min_def)
  have "take (min 63 (?k + length (c # l))) buf = take 63 (take ?k (cmd_buf s) @ c # l)"
  proof (cases "?k < 63")
    case True
    with Cons.prems(4) have "take (Suc ?k) ((cmd_buf s)[?k := c]) = take ?k (cmd_buf s) @ [c]"
      by (simp add: take_Suc_conv_app_nth)
    with buf(2) True show ?thesis by simp
  next
    case False
    with Cons.prems(3,4) buf(2) show ?thesis by (simp add: min_def)
  qed
  moreover have "diag_run K D g (length (c # l)) (At DG_Poll, s) =
      Some (At DG_Poll, s\<lparr>rx := r, cmd_buf := buf, cmd_len := min 63 (?k + length (c # l))\<rparr>)"
    by (simp only: e1 run e2)
  ultimately show ?case using buf(1) by blast
qed

text \<open>A board that holds the mutex: the start-up, and then the first character of the greeting of the
  diagnostics task.\<close>

definition holding :: "(SensorData_t list, TelemetryData_t list, u32, bool) board" where
  "holding = (let b = lm3s_main list_lm3s in b\<lparr>diag_at := Put ''['' (tl diag_ready) DG_Poll,
     shared := (shared b)\<lparr>xUartMutex := False, tx := tx (shared b) @ ''[''\<rparr>\<rparr>)"

lemma holding_reached: "lm3s_reach list_lm3s cent_dbl holding"
proof -
  let ?K = list_lm3s
  let ?b0 = "lm3s_main ?K"
  let ?s = "shared ?b0"
  let ?g = "\<lambda>n. replicate n NUL"
  have diag: "lm3s_reach ?K cent_dbl (b\<lparr>diag_at := c, shared := s\<rparr>)" if "lm3s_reach ?K cent_dbl b"
    and "diagnostics_task ?K cent_dbl ?g (diag_at b) (shared b) = Some (c, s)" for b c s
    by (rule lm3s_reach.step [OF that(1) lm3s_step.diagnostics [OF that(2)]]) simp
  have "diag_at ?b0 = At DG_Start" by (simp add: lm3s_main_def Let_def del: append_Cons append.simps)
  with diag [OF lm3s_reach.boot, of "At DG_Ready" ?s]
  have "lm3s_reach ?K cent_dbl (?b0\<lparr>diag_at := At DG_Ready\<rparr>)" by (simp add: diagnostics_task_def)
  from diag [OF this, of "Lock diag_ready DG_Poll" ?s]
  have "lm3s_reach ?K cent_dbl (?b0\<lparr>diag_at := Lock diag_ready DG_Poll\<rparr>)" by (simp add: diagnostics_task_def)
  from diag [OF this, of "Put [] diag_ready DG_Poll" "?s\<lparr>xUartMutex := False\<rparr>"]
  have "lm3s_reach ?K cent_dbl (?b0\<lparr>diag_at := Put [] diag_ready DG_Poll, shared := ?s\<lparr>xUartMutex := False\<rparr>\<rparr>)"
    by (simp add: diagnostics_task_def lm3s_main_simps list_lm3s_def)
  from diag [OF this, of "Put ''['' (tl diag_ready) DG_Poll" "?s\<lparr>xUartMutex := False, tx := tx ?s @ ''[''\<rparr>"]
  have "lm3s_reach ?K cent_dbl (?b0\<lparr>diag_at := Put ''['' (tl diag_ready) DG_Poll,
      shared := ?s\<lparr>xUartMutex := False, tx := tx ?s @ ''[''\<rparr>\<rparr>)"
    by (simp add: diagnostics_task_def diag_ready_def)
  then show ?thesis by (simp only: holding_def Let_def)
qed

lemma holding_state: "tx (shared holding) = boot_text @ ''[''" "holders holding \<noteq> []"
  by (simp_all add: holding_def Let_def lm3s_main_simps holders_def)

subsection \<open>Properties\<close>

text \<open>C5: over every kernel that keeps its contract and every interleaving of the
  five tasks, the timer, the tick and the receiver, what went out on the serial line is the start-up text,
  whole messages one after the other, and the beginning of at most one more message: the mutex keeps
  the characters of two tasks apart, and the formatter never cuts a message short.\<close>

theorem lines_never_mixed:
  assumes "lm3s_contract K V" and "lm3s_reach K D b"
  shows "\<exists>ms d r. list_all lm3s_message ms \<and> lm3s_message (d @ r) \<and> tx (shared b) = boot_text @ concat ms @ d"
proof -
  note ok = board_ok_reach [OF assms]
  obtain ms where ms: "list_all lm3s_message ms" "tx (shared b) = boot_text @ concat ms @ concat (holders b)"
    "length (holders b) \<le> 1"
    using ok by (auto simp: board_ok_def line_state_def)
  have part: "\<exists>r. lm3s_message (d @ r)" if "sent c = [d]" "prints c" for c :: "'pc ctl" and d
    using that by (cases c) (auto intro: exI [of _ "[]"])
  show ?thesis
  proof (cases "holders b")
    case Nil
    with ms have "list_all lm3s_message ms \<and> lm3s_message ([] @ crlf) \<and> tx (shared b) = boot_text @ concat ms @ []" by simp
    then show ?thesis by blast
  next
    case (Cons d ds)
    with ms(3) have ds: "holders b = [d]" by simp
    then have "sent (telemetry_at b) = [d] \<or> sent (health_at b) = [d] \<or> sent (diag_at b) = [d]"
      by (auto simp: holders_def append_eq_Cons_conv)
    with ok part obtain r where "lm3s_message (d @ r)" unfolding board_ok_def by metis
    with ms ds show ?thesis by auto
  qed
qed

theorem lines_never_mixed_witness:
  "\<exists>b. lm3s_reach list_lm3s cent_dbl b \<and> tx (shared b) = boot_text @ ''[''
     \<and> (\<exists>ms d r. list_all lm3s_message ms \<and> lm3s_message (d @ r) \<and> tx (shared b) = boot_text @ concat ms @ d)"
  using lines_never_mixed [OF list_lm3s_contract holding_reached] holding_reached holding_state(1) by blast

text \<open>C6: in every reachable state of the board no task has run into undefined
  behaviour (no overflow, no division by zero, no read or write outside a buffer), the speed estimate
  is between 0 and 200.0 km/h, the command line buffer has room for its terminator, and no
  queue holds more than ten messages.\<close>

theorem lm3s_invariant:
  assumes "lm3s_contract K V" and "lm3s_reach K D b"
  shows "ub (shared b) = None \<and> speed_kmh_x10 (shared b) \<in> {0..2000}
    \<and> cmd_len (shared b) < length (cmd_buf (shared b)) \<and> length (cmd_buf (shared b)) = 64
    \<and> length (sdata_items V (xSensorQueue (shared b))) \<le> 10
    \<and> length (tdata_items V (xTelemetryQueue (shared b))) \<le> 10"
proof -
  have ok: "data_ok V (shared b)" using board_ok_reach [OF assms] by (simp add: board_ok_def)
  moreover have "sdata_ok V q \<Longrightarrow> length (sdata_items V q) \<le> 10" "tdata_ok V r \<Longrightarrow> length (tdata_items V r) \<le> 10" for q r
    using lm3s_contractD(1,2) [OF assms(1)] by (simp_all add: queue_contract_def bounded_fifo_def)
  ultimately show ?thesis by (auto simp: data_ok_def)
qed

theorem lm3s_invariant_witness:
  "\<exists>b. lm3s_reach list_lm3s cent_dbl b \<and> length (xSensorQueue (shared b)) = 1 \<and> ub (shared b) = None
    \<and> speed_kmh_x10 (shared b) \<in> {0..2000} \<and> cmd_len (shared b) < length (cmd_buf (shared b))"
proof -
  from timer_round [OF lm3s_reach.boot waits_boot, of cent_dbl] obtain b
    where b: "lm3s_reach list_lm3s cent_dbl b" "waits b 1" by auto
  with lm3s_invariant [OF list_lm3s_contract b(1)] show ?thesis by (auto simp: waits_def)
qed

text \<open>C37: The semaphore that announces a sample is binary, so a sample that is queued
  while it is still given is never fetched for it. Once \<open>n\<close> samples are in the queue beyond those
  announced, at least \<open>min n 7\<close> stay there whatever the tasks do, until the board is reset: every later
  telemetry line is that many periods late. With more than seven the queue of ten may be full, and then
  a refused sample is announced as well.\<close>

theorem samples_stranded:
  assumes "lm3s_contract K V" and "lm3s_reach K D b"
    and "n + announced V b \<le> length (sdata_items V (xSensorQueue (shared b)))" and "(lm3s_step K D)\<^sup>*\<^sup>* b b'"
  shows "min n 7 + announced V b' \<le> length (sdata_items V (xSensorQueue (shared b')))"
  using stranded_steps [OF assms(1,4) board_ok_reach [OF assms(1,2)], of "min n 7"] assms(3)
  by (simp add: stranded_def)

text \<open>Two rounds of the sensor task before the processing task runs strand one sample.\<close>

theorem samples_stranded_witness:
  "\<exists>b. lm3s_reach list_lm3s cent_dbl b \<and> 1 + announced list_lm3s_view b \<le> length (xSensorQueue (shared b))
    \<and> {b'. (lm3s_step list_lm3s cent_dbl)\<^sup>*\<^sup>* b b'} \<subseteq>
       {b'. 1 + announced list_lm3s_view b' \<le> length (xSensorQueue (shared b'))}"
proof -
  obtain b where b: "lm3s_reach list_lm3s cent_dbl b" "stranded list_lm3s_view 1 b" using two_rounds by blast
  then have "1 + announced list_lm3s_view b \<le> length (sdata_items list_lm3s_view (xSensorQueue (shared b)))"
    by (simp only: stranded_def)
  with b(1) samples_stranded [OF list_lm3s_contract b(1) this] show ?thesis
    by (auto simp: list_lm3s_view_def)
qed

text \<open>C38: a line of characters that waits in the receiver, with a carriage return or line
  feed behind it, takes the diagnostics task one poll per character; it then echoes the line end and
  goes on to the command with the line in its buffer, cut at 63 characters, with the rest of the
  input left and nothing else changed.\<close>

theorem poll_reads_line:
  assumes "rx s = l @ c # r" and "line_end c" and "l \<noteq> []" and "nul_free l" and "\<And>x. x \<in> set l \<Longrightarrow> \<not> line_end x"
    and "cmd_len s = 0" and "length (cmd_buf s) = 64"
  shows "\<exists>buf. diag_run K D g (Suc (length l)) (At DG_Poll, s) =
      Some (Lock crlf DG_Cmd, s\<lparr>rx := r, cmd_buf := buf, cmd_len := 0\<rparr>)
    \<and> up_to_nul buf = take 63 l \<and> length buf = 64"
proof -
  let ?n = "min 63 (length l)"
  have "list_all (\<lambda>c. \<not> line_end c) l" using assms(5) by (simp add: list_all_iff)
  from diag_run_chars [OF this assms(1), of K D g] assms(6,7) obtain buf where
    run: "diag_run K D g (length l) (At DG_Poll, s) = Some (At DG_Poll, s\<lparr>rx := c # r, cmd_buf := buf, cmd_len := ?n\<rparr>)"
    and buf: "length buf = 64" "take ?n buf = take 63 l"
    by auto
  let ?buf = "buf[?n := NUL]"
  have "diag_run K D g (Suc 0) (At DG_Poll, s\<lparr>rx := c # r, cmd_buf := buf, cmd_len := ?n\<rparr>) =
      Some (Lock crlf DG_Cmd, s\<lparr>rx := r, cmd_buf := ?buf, cmd_len := 0\<rparr>)"
    using assms(2,3) by (auto simp: diagnostics_task_def poll_uart_def Let_def line_end_def)
  with run have "diag_run K D g (length l + Suc 0) (At DG_Poll, s) =
      Some (Lock crlf DG_Cmd, s\<lparr>rx := r, cmd_buf := ?buf, cmd_len := 0\<rparr>)"
    by (simp only: diag_run_add bind.bind_lunit)
  moreover have "up_to_nul ?buf = take 63 l"
  proof -
    have "?buf = take ?n buf @ NUL # drop (Suc ?n) buf" using buf(1) by (simp add: upd_conv_take_nth_drop)
    with buf(2) have "?buf = take 63 l @ NUL # drop (Suc ?n) buf" by simp
    moreover have "nul_free (take 63 l)" using assms(4) by (auto simp: nul_free_def dest: in_set_takeD)
    ultimately show ?thesis by (simp add: up_to_nul_stop)
  qed
  ultimately show ?thesis using buf(1) by auto
qed

theorem poll_reads_line_witness:
  "\<exists>buf. diag_run list_lm3s cent_dbl (\<lambda>n. replicate n NUL) 5
        (At DG_Poll, (shared (lm3s_main list_lm3s))\<lparr>rx := ''heap'' @ [CHR 0x0D, CHR 0x0A]\<rparr>) =
      Some (Lock crlf DG_Cmd, (shared (lm3s_main list_lm3s))\<lparr>rx := [CHR 0x0A], cmd_buf := buf, cmd_len := 0\<rparr>)
    \<and> up_to_nul buf = ''heap''"
proof -
  let ?s = "(shared (lm3s_main list_lm3s))\<lparr>rx := ''heap'' @ [CHR 0x0D, CHR 0x0A]\<rparr>"
  have "cmd_len ?s = 0" "length (cmd_buf ?s) = 64"
    by (simp_all add: lm3s_main_def Let_def ipc_init_def del: append_Cons append.simps)
  from poll_reads_line [OF _ _ _ _ _ this, of "''heap''" "CHR 0x0D" "[CHR 0x0A]" list_lm3s cent_dbl "\<lambda>n. replicate n NUL"]
  have run: "\<exists>buf. diag_run list_lm3s cent_dbl (\<lambda>n. replicate n NUL) (Suc (length ''heap'')) (At DG_Poll, ?s) =
      Some (Lock crlf DG_Cmd, (shared (lm3s_main list_lm3s))\<lparr>rx := [CHR 0x0A], cmd_buf := buf, cmd_len := 0\<rparr>)
    \<and> up_to_nul buf = take 63 ''heap'' \<and> length buf = 64"
    by (auto simp: line_end_def simp del: diag_run.simps)
  have "Suc (length ''heap'') = 5" "take 63 ''heap'' = ''heap''" by simp_all
  from run [unfolded this] show ?thesis by blast
qed

end
