(* ===== verification/Lm3sCycle.thy ===== *)
theory Lm3sCycle
  imports Lm3sSafety
begin

unbundle bit_operations_syntax

text \<open>
  Progress on the lm3s board: a task that holds the mutex of the serial line can always finish its
  message on its own, and a kick of the timer ends in the telemetry line of its sample.
\<close>

text \<open>The buffers that the three tasks format into hold zeros here; what they hold does not matter.\<close>

abbreviation zeros :: "nat \<Rightarrow> string" where
  "zeros n \<equiv> replicate n NUL"

subsection \<open>The holder of the mutex alone\<close>

text \<open>
  One step of the task that holds the mutex of the line, and of no other: its step, with its control point
  and the shared state replaced. Without a holder there is no such step.
\<close>

definition holder_step :: "('sq, 'tq, 'eg, 'sem) lm3s_rtos \<Rightarrow> 'd dbl \<Rightarrow> ('sq, 'tq, 'eg, 'sem) board \<Rightarrow>
    ('sq, 'tq, 'eg, 'sem) board option" where
  "holder_step K D b =
     (if sent (telemetry_at b) \<noteq> []
      then map_option (\<lambda>(c, s). b\<lparr>telemetry_at := c, shared := s\<rparr>) (telemetry_task K D zeros (telemetry_at b) (shared b))
      else if sent (health_at b) \<noteq> []
      then map_option (\<lambda>(c, s). b\<lparr>health_at := c, shared := s\<rparr>)
        (health_monitor_task K D zeros False (health_at b) (shared b))
      else if sent (diag_at b) \<noteq> []
      then map_option (\<lambda>(c, s). b\<lparr>diag_at := c, shared := s\<rparr>) (diagnostics_task K D zeros (diag_at b) (shared b))
      else None)"

fun holder_run :: "('sq, 'tq, 'eg, 'sem) lm3s_rtos \<Rightarrow> 'd dbl \<Rightarrow> nat \<Rightarrow> ('sq, 'tq, 'eg, 'sem) board \<Rightarrow>
    ('sq, 'tq, 'eg, 'sem) board option" where
  "holder_run K D 0 b = Some b"
| "holder_run K D (Suc n) b = (case holder_step K D b of None \<Rightarrow> None | Some b' \<Rightarrow> holder_run K D n b')"

text \<open>A run of the board that, where the task at \<open>c\<close> is the only holder, is a run of that holder alone.\<close>

definition alone :: "('sq, 'tq, 'eg, 'sem) lm3s_rtos \<Rightarrow> 'd dbl \<Rightarrow> 'pc ctl \<Rightarrow> nat \<Rightarrow> ('sq, 'tq, 'eg, 'sem) board \<Rightarrow>
    ('sq, 'tq, 'eg, 'sem) board \<Rightarrow> bool" where
  "alone K D c n b b' \<longleftrightarrow> (lm3s_step K D ^^ n) b b' \<and> (holders b = sent c \<longrightarrow> holder_run K D n b = Some b')"

subsection \<open>The interface of a task that prints\<close>

text \<open>
  What the three printing tasks have in common: where the board keeps the task's control point, that a
  step of the task is a step of the board, that between its own control points it prints, and that as
  the sole holder of the mutex it is the one that \<open>holder_step\<close> runs.
\<close>

locale board_printer =
  fixes K :: "('sq, 'tq, 'eg, 'sem) lm3s_rtos" and D :: "'d dbl"
    and task_step :: "'pc ctl \<Rightarrow> ('sq, 'tq, 'eg, 'sem) lm3s \<Rightarrow> ('pc ctl \<times> ('sq, 'tq, 'eg, 'sem) lm3s) option"
    and at_point :: "('sq, 'tq, 'eg, 'sem) board \<Rightarrow> 'pc ctl"
    and put :: "'pc ctl \<Rightarrow> ('sq, 'tq, 'eg, 'sem) lm3s \<Rightarrow> ('sq, 'tq, 'eg, 'sem) board \<Rightarrow> ('sq, 'tq, 'eg, 'sem) board"
  assumes board_step: "task_step (at_point b) (shared b) = Some (c, s) \<Longrightarrow> lm3s_step K D b (put c s b)"
    and at_put: "at_point (put c s b) = c" and shared_put: "shared (put c s b) = s"
    and put_put: "put c s (put c' s' b) = put c s b"
    and printing: "\<nexists>pc. c = At pc \<Longrightarrow> task_step c s = print_step K c s"
    and sole: "holders b = sent (at_point b) \<Longrightarrow> sent (at_point b) \<noteq> [] \<Longrightarrow>
      holder_step K D b = map_option (\<lambda>(c, s). put c s b) (task_step (at_point b) (shared b))"
    and sole_put: "holders b = sent (at_point b) \<Longrightarrow> holders (put c s b) = sent c"
begin

lemma alone_0: "alone K D c 0 b b"
  by (simp add: alone_def)

lemma alone_Suc:
  assumes "sent (at_point b) \<noteq> []" and "print_step K (at_point b) (shared b) = Some (c, s)" and "alone K D (at_point (put c s b)) n (put c s b) b'"
  shows "alone K D (at_point b) (Suc n) b b'"
proof -
  have p: "\<nexists>pc. at_point b = At pc" using assms(1) by auto
  then have t: "task_step (at_point b) (shared b) = Some (c, s)" using assms(2) by (simp add: printing)
  have "(lm3s_step K D ^^ Suc n) b b'"
    by (rule relpowp_Suc_I2 [OF board_step [OF t] conjunct1 [OF assms(3) [unfolded alone_def]]])
  moreover have "holder_run K D (Suc n) b = Some b'" if "holders b = sent (at_point b)"
    using that assms(1,3) sole [OF that] sole_put [OF that] t by (simp add: alone_def at_put)
  ultimately show ?thesis by (simp add: alone_def)
qed

lemma gives:
  assumes "at_point b = Unlock d pc"
  shows "alone K D (at_point b) 1 b (put (At pc) ((shared b)\<lparr>xUartMutex := xSemaphoreGive K (xUartMutex (shared b))\<rparr>) b)"
  unfolding One_nat_def by (rule alone_Suc [OF _ _ alone_0]) (simp_all add: assms)

lemma finishes:
  assumes "at_point b = Put d t pc" and "nul_free t"
  shows "alone K D (at_point b) (length t + 2) b (put (At pc)
    ((shared b)\<lparr>tx := tx (shared b) @ t, xUartMutex := xSemaphoreGive K (xUartMutex (shared b))\<rparr>) b)"
  using assms
proof (induction t arbitrary: b d)
  case Nil
  have "alone K D (at_point b) (Suc 1) b (put (At pc) ((shared b)\<lparr>xUartMutex := xSemaphoreGive K (xUartMutex (shared b))\<rparr>) b)"
    using gives [of "put (Unlock d pc) (shared b) b" d pc] Nil
    by (intro alone_Suc [of b "Unlock d pc" "shared b"]) (simp_all add: at_put shared_put put_put)
  then show ?case by (simp add: numeral_2_eq_2)
next
  case (Cons c t)
  let ?s = "(shared b)\<lparr>tx := tx (shared b) @ [c]\<rparr>"
  let ?b = "put (Put (d @ [c]) t pc) ?s b"
  have c: "c \<noteq> NUL" "nul_free t" using Cons.prems(2) by simp_all
  have "alone K D (at_point ?b) (length t + 2) ?b (put (At pc)
      (?s\<lparr>tx := tx ?s @ t, xUartMutex := xSemaphoreGive K (xUartMutex ?s)\<rparr>) ?b)"
    using Cons.IH [of ?b "d @ [c]"] c by (simp add: at_put shared_put)
  then have "alone K D (at_point b) (Suc (length t + 2)) b (put (At pc)
      (?s\<lparr>tx := tx ?s @ t, xUartMutex := xSemaphoreGive K (xUartMutex ?s)\<rparr>) ?b)"
    by (rule alone_Suc [rotated 2]) (simp_all add: Cons.prems c)
  then show ?case by (simp add: put_put)
qed

lemma prints_out:
  assumes "at_point b = Lock t pc" and "nul_free t" and "xSemaphoreTake K (xUartMutex (shared b)) = Some m"
  shows "(lm3s_step K D)\<^sup>*\<^sup>* b (put (At pc)
    ((shared b)\<lparr>tx := tx (shared b) @ t, xUartMutex := xSemaphoreGive K m\<rparr>) b)"
proof -
  let ?b = "put (Put [] t pc) ((shared b)\<lparr>xUartMutex := m\<rparr>) b"
  have "lm3s_step K D b ?b" by (rule board_step) (simp add: assms printing)
  moreover have "alone K D (at_point ?b) (length t + 2) ?b (put (At pc)
      ((shared b)\<lparr>tx := tx (shared b) @ t, xUartMutex := xSemaphoreGive K m\<rparr>) b)"
    using finishes [of ?b "[]" t pc] assms(2) by (simp add: at_put shared_put put_put)
  then have "(lm3s_step K D)\<^sup>*\<^sup>* ?b (put (At pc) ((shared b)\<lparr>tx := tx (shared b) @ t, xUartMutex := xSemaphoreGive K m\<rparr>) b)"
    unfolding alone_def by (elim conjE relpowp_imp_rtranclp)
  ultimately show ?thesis by (rule converse_rtranclp_into_rtranclp)
qed

lemma holder_finishes:
  assumes "sent (at_point b) = [d]" and "prints (at_point b)"
  shows "\<exists>t pc n. lm3s_message (d @ t) \<and> n \<le> length t + 2 \<and> alone K D (at_point b) n b
    (put (At pc) ((shared b)\<lparr>tx := tx (shared b) @ t, xUartMutex := xSemaphoreGive K (xUartMutex (shared b))\<rparr>) b)"
proof (cases "at_point b")
  case (Put e t pc)
  with assms have m: "e = d" "lm3s_message (d @ t)" by simp_all
  then have "nul_free t" using message_nul_free [of "d @ t"] by simp
  from finishes [OF Put this] m show ?thesis by blast
next
  case (Unlock e pc)
  have "alone K D (at_point b) 1 b (put (At pc) ((shared b)\<lparr>tx := tx (shared b) @ [], xUartMutex := xSemaphoreGive K (xUartMutex (shared b))\<rparr>) b)"
    using gives [OF Unlock] by simp
  moreover have "lm3s_message (d @ [])" using assms Unlock by simp
  ultimately show ?thesis by (intro exI [of _ "[]"] exI [of _ pc] exI [of _ 1]) simp
qed (use assms(1) in simp_all)

end

lemma sole_holder:
  "holders b = sent (telemetry_at b) \<longleftrightarrow> sent (health_at b) = [] \<and> sent (diag_at b) = []"
  "holders b = sent (health_at b) \<longleftrightarrow> sent (telemetry_at b) = [] \<and> sent (diag_at b) = []"
  "holders b = sent (diag_at b) \<longleftrightarrow> sent (telemetry_at b) = [] \<and> sent (health_at b) = []"
proof -
  have "xs @ ys @ zs = ys \<longleftrightarrow> xs = [] \<and> zs = []" for xs ys zs :: "string list"
  proof
    assume "xs @ ys @ zs = ys"
    then have "length (xs @ ys @ zs) = length ys" by (rule arg_cong)
    then show "xs = [] \<and> zs = []" by simp
  qed simp
  then show "holders b = sent (telemetry_at b) \<longleftrightarrow> sent (health_at b) = [] \<and> sent (diag_at b) = []"
    "holders b = sent (health_at b) \<longleftrightarrow> sent (telemetry_at b) = [] \<and> sent (diag_at b) = []"
    "holders b = sent (diag_at b) \<longleftrightarrow> sent (telemetry_at b) = [] \<and> sent (health_at b) = []"
    by (simp_all add: holders_def)
qed

interpretation telemetry_line: board_printer K D "telemetry_task K D zeros" telemetry_at
  "\<lambda>c s b. b\<lparr>telemetry_at := c, shared := s\<rparr>" for K :: "('sq, 'tq, 'eg, 'sem) lm3s_rtos" and D :: "'d dbl"
proof (unfold_locales, goal_cases)
  case (1 b c s)
  then show ?case by (rule lm3s_step.telemetry) simp
next
  case (5 c s)
  then show ?case by (cases c) (simp_all add: telemetry_task_def)
next
  case (6 b)
  then show ?case by (simp add: sole_holder holder_step_def)
next
  case (7 b c s)
  then show ?case by (simp only: sole_holder) (simp add: holders_def)
qed simp_all

interpretation health_line: board_printer K D "health_monitor_task K D zeros False" health_at
  "\<lambda>c s b. b\<lparr>health_at := c, shared := s\<rparr>" for K :: "('sq, 'tq, 'eg, 'sem) lm3s_rtos" and D :: "'d dbl"
proof (unfold_locales, goal_cases)
  case (1 b c s)
  then show ?case by (rule lm3s_step.health) simp
next
  case (5 c s)
  then show ?case by (cases c) (simp_all add: health_monitor_task_def)
next
  case (6 b)
  then show ?case by (simp add: sole_holder holder_step_def)
next
  case (7 b c s)
  then show ?case by (simp only: sole_holder) (simp add: holders_def)
qed simp_all

interpretation diag_line: board_printer K D "diagnostics_task K D zeros" diag_at
  "\<lambda>c s b. b\<lparr>diag_at := c, shared := s\<rparr>" for K :: "('sq, 'tq, 'eg, 'sem) lm3s_rtos" and D :: "'d dbl"
proof (unfold_locales, goal_cases)
  case (1 b c s)
  then show ?case by (rule lm3s_step.diagnostics) simp
next
  case (5 c s)
  then show ?case by (cases c) (simp_all add: diagnostics_task_def)
next
  case (6 b)
  then show ?case by (simp add: sole_holder holder_step_def)
next
  case (7 b c s)
  then show ?case by (simp only: sole_holder) (simp add: holders_def)
qed simp_all

subsection \<open>The holder of the mutex\<close>

lemma length_diag: "diag_text t \<Longrightarrow> length t \<le> 199"
proof -
  have l: "length (udigits 10 (unat (n :: u32))) \<le> 10" for n by (rule length_udigits_32)
  have u: "length (''[DIAG] Uptime='' @ udigits 10 (unat (n :: u32)) @ '' ms  FreeHeap=0'' @ crlf) \<le> 199"
    "length (''[DIAG] Tasks running: '' @ udigits 10 (unat (n :: u32)) @ crlf) \<le> 199"
    "length (''[DIAG] Heap=0 Tasks='' @ udigits 10 (unat (n :: u32)) @ crlf) \<le> 199" for n
    using l [of n] by simp_all
  have c: "length t \<le> 199" if "t \<in> {crlf, diag_help, diag_ready, diag_unknown, ''[DIAG] Fault cleared'' @ crlf,
       ''[DIAG] Fault: QUEUE_OVERFLOW'' @ crlf, ''[DIAG] Fault: SENSOR_FAILURE'' @ crlf,
       ''[DIAG] Fault: TASK_DELAY (process stall)'' @ crlf, ''[DIAG] FreeHeap=0'' @ crlf}" for t
    using that by (auto simp: diag_help_def diag_ready_def diag_unknown_def)
  assume "diag_text t"
  from this [unfolded diag_text_def] show ?thesis by (elim disjE exE) (erule c, simp_all only: u)
qed

lemma length_message: "lm3s_message t \<Longrightarrow> length t \<le> 199"
proof -
  have "length (health_text a b c) \<le> 199" "length (wdog_text w bits) \<le> 199" for a b c w bits
    using length_health(1) [of a b c] length_health(2) [of w bits] by simp_all
  then show "lm3s_message t \<Longrightarrow> length t \<le> 199"
    unfolding lm3s_message_def by (elim disjE exE) (simp_all only: length_telem length_diag)
qed

text \<open>The text still to come of the message on the line is whatever completes it.\<close>

lemma holder_cases:
  assumes "length (holders b) \<le> 1" and "holders b \<noteq> []"
  obtains (telemetry) d where "sent (telemetry_at b) = [d]" "holders b = [d]"
    | (health) d where "sent (health_at b) = [d]" "holders b = [d]"
    | (diag) d where "sent (diag_at b) = [d]" "holders b = [d]"
proof -
  obtain d where d: "holders b = [d]" using assms by (cases "holders b") auto
  then have "sent (telemetry_at b) = [d] \<or> sent (health_at b) = [d] \<or> sent (diag_at b) = [d]"
    by (auto simp: holders_def append_eq_Cons_conv)
  with d that show thesis by blast
qed

lemma holder_done:
  assumes "lm3s_contract K V" and "board_ok V b" and "holders b = [d]"
  shows "\<exists>t n b'. lm3s_message (d @ t) \<and> n \<le> length t + 2 \<and> (lm3s_step K D ^^ n) b b' \<and> holder_run K D n b = Some b'
    \<and> tx (shared b') = tx (shared b) @ t \<and> free_sem V (xUartMutex (shared b'))"
proof -
  note free = semaphore_contractD(3) [OF lm3s_contractD(4) [OF assms(1)]]
  have p: "prints (telemetry_at b)" "prints (health_at b)" "prints (diag_at b)" using assms(2) by (simp_all add: board_ok_def)
  have "length (holders b) \<le> 1" "holders b \<noteq> []" using assms(3) by simp_all
  then show ?thesis
  proof (cases rule: holder_cases)
    case (telemetry e)
    then have "sent (telemetry_at b) = [d]" using assms(3) by simp
    from telemetry_line.holder_finishes [OF this p(1)] this assms(3) free show ?thesis by (fastforce simp: alone_def)
  next
    case (health e)
    then have "sent (health_at b) = [d]" using assms(3) by simp
    from health_line.holder_finishes [OF this p(2)] this assms(3) free show ?thesis by (fastforce simp: alone_def)
  next
    case (diag e)
    then have "sent (diag_at b) = [d]" using assms(3) by simp
    from diag_line.holder_finishes [OF this p(3)] this assms(3) free show ?thesis by (fastforce simp: alone_def)
  qed
qed

subsection \<open>From the kick to the line\<close>

fun processing_run :: "('sq, 'tq, 'eg, 'sem) lm3s_rtos \<Rightarrow> nat \<Rightarrow> ('sq, 'tq, 'eg, 'sem) board \<Rightarrow> ('sq, 'tq, 'eg, 'sem) board option" where
  "processing_run K 0 b = Some b"
| "processing_run K (Suc n) b =
     (case processing_task K (processing_at b) (shared b) of None \<Rightarrow> None
      | Some (pc, s) \<Rightarrow> processing_run K n (b\<lparr>processing_at := pc, shared := s\<rparr>))"

lemma sensor_run_steps: "sensor_run K n b = Some b' \<Longrightarrow> (lm3s_step K D)\<^sup>*\<^sup>* b b'"
proof (induction n arbitrary: b)
  case (Suc n)
  from Suc.prems obtain pc s where r: "sensor_task K (sensor_at b) (shared b) = Some (pc, s)"
    "sensor_run K n (b\<lparr>sensor_at := pc, shared := s\<rparr>) = Some b'" by (auto split: option.splits)
  show ?case by (rule converse_rtranclp_into_rtranclp [OF lm3s_step.sensor [OF r(1)] Suc.IH [OF r(2)]])
qed simp

lemma processing_run_steps: "processing_run K n b = Some b' \<Longrightarrow> (lm3s_step K D)\<^sup>*\<^sup>* b b'"
proof (induction n arbitrary: b)
  case (Suc n)
  from Suc.prems obtain pc s where r: "processing_task K (processing_at b) (shared b) = Some (pc, s)"
    "processing_run K n (b\<lparr>processing_at := pc, shared := s\<rparr>) = Some b'" by (auto split: option.splits)
  show ?case by (rule converse_rtranclp_into_rtranclp [OF lm3s_step.processing [OF r(1)] Suc.IH [OF r(2)]])
qed simp

type_synonym list_board = "(SensorData_t list, TelemetryData_t list, u32, bool) board"
type_synonym list_state = "(SensorData_t list, TelemetryData_t list, u32, bool) lm3s"

text \<open>The objects of the pipeline: the two queues, the two semaphores and the mutex, the fault switch.\<close>

definition pipe :: "list_state \<Rightarrow> SensorData_t list \<times> TelemetryData_t list \<times> bool \<times> bool \<times> bool \<times> FaultType_t" where
  "pipe s = (xSensorQueue s, xTelemetryQueue s, xSensorKickSem s, xDataReadySem s, xUartMutex s, g_active_fault s)"

lemma sensor_part:
  assumes "sensor_at b = SN_Take rng" and "pipe (shared b) = ([], ts, True, False, u, FAULT_NONE)"
    and "sensor_data FAULT_NONE (ticks (shared b)) rng = (d, rng')"
  shows "\<exists>s. sensor_run list_lm3s 8 b = Some (b\<lparr>sensor_at := SN_Take rng', shared := s\<rparr>)
    \<and> pipe s = ([d], ts, False, True, u, FAULT_NONE) \<and> tx s = tx (shared b) \<and> speed_kmh_x10 s = speed_kmh_x10 (shared b)"
proof -
  have 8: "8 = Suc (Suc (Suc (Suc (Suc (Suc (Suc (Suc 0)))))))" by simp
  let ?s = "(shared b)\<lparr>xSensorKickSem := False, xSensorQueue := [d],
    xSystemEventGroup := xSystemEventGroup (shared b) OR EVT_SENSOR_READY, xDataReadySem := True,
    xHeartbeatEvents := xHeartbeatEvents (shared b) OR EVT_SENSOR\<rparr>"
  from assms have "sensor_run list_lm3s 8 b = Some (b\<lparr>sensor_at := SN_Take rng', shared := ?s\<rparr>)" unfolding 8
    by (simp add: sensor_task_def pipe_def list_lm3s_def list_queue_def spec_push_def system_event_def heartbeat_def)
  then show ?thesis using assms(2) by (intro exI [of _ ?s]) (simp add: pipe_def)
qed

lemma processing_part:
  assumes "processing_at b = PR_Take" and "pipe (shared b) = ([d], [], k, True, u, FAULT_NONE)"
    and "process_data FAULT_NONE (speed_kmh_x10 (shared b)) d = Inr (v, t)"
  shows "\<exists>n s. processing_run list_lm3s n b = Some (b\<lparr>processing_at := PR_Take, shared := s\<rparr>)
    \<and> pipe s = ([], [t], k, False, u, FAULT_NONE) \<and> tx s = tx (shared b) \<and> speed_kmh_x10 s = v"
proof -
  let ?s = "(shared b)\<lparr>xDataReadySem := False, xSensorQueue := [], speed_kmh_x10 := v, xTelemetryQueue := [t],
    xHeartbeatEvents := xHeartbeatEvents (shared b) OR EVT_PROCESSOR\<rparr>"
  let ?f = "?s\<lparr>xSystemEventGroup := xSystemEventGroup (shared b) OR EVT_FAULT_DETECTED\<rparr>"
  note defs = processing_task_def pipe_def list_lm3s_def list_queue_def spec_push_def heartbeat_def system_event_def
  show ?thesis
  proof (cases "td_valid t")
    case True
    with assms have "processing_run list_lm3s (Suc (Suc (Suc (Suc (Suc 0))))) b = Some (b\<lparr>processing_at := PR_Take, shared := ?s\<rparr>)"
      by (simp add: defs)
    moreover have "pipe ?s = ([], [t], k, False, u, FAULT_NONE) \<and> tx ?s = tx (shared b) \<and> speed_kmh_x10 ?s = v"
      using assms(2) by (simp add: pipe_def)
    ultimately show ?thesis by blast
  next
    case False
    with assms have "processing_run list_lm3s (Suc (Suc (Suc (Suc (Suc (Suc 0)))))) b = Some (b\<lparr>processing_at := PR_Take, shared := ?f\<rparr>)"
      by (simp add: defs)
    moreover have "pipe ?f = ([], [t], k, False, u, FAULT_NONE) \<and> tx ?f = tx (shared b) \<and> speed_kmh_x10 ?f = v"
      using assms(2) by (simp add: pipe_def)
    ultimately show ?thesis by blast
  qed
qed

lemma telemetry_part:
  assumes "telemetry_at b = At TL_Receive" and "pipe (shared b) = (q, [t], k, r, True, f)"
  shows "\<exists>s. (lm3s_step list_lm3s D)\<^sup>*\<^sup>* b (b\<lparr>telemetry_at := At TL_Receive, shared := s\<rparr>)
    \<and> pipe s = (q, [], k, r, True, f) \<and> tx s = tx (shared b) @ telem_text t \<and> speed_kmh_x10 s = speed_kmh_x10 (shared b)"
proof -
  let ?K = list_lm3s
  let ?s1 = "(shared b)\<lparr>xTelemetryQueue := []\<rparr>"
  let ?b1 = "b\<lparr>telemetry_at := At (TL_Format t), shared := ?s1\<rparr>"
  let ?b2 = "b\<lparr>telemetry_at := Lock (telem_text t) TL_Beat, shared := ?s1\<rparr>"
  let ?s3 = "?s1\<lparr>tx := tx (shared b) @ telem_text t, xUartMutex := True\<rparr>"
  let ?b3 = "b\<lparr>telemetry_at := At TL_Beat, shared := ?s3\<rparr>"
  let ?s4 = "heartbeat ?K EVT_TELEMETRY ?s3"
  have st: "lm3s_step ?K D x (x\<lparr>telemetry_at := c, shared := s\<rparr>)"
    if "telemetry_task ?K D zeros (telemetry_at x) (shared x) = Some (c, s)" for x c s
    using that by (rule lm3s_step.telemetry) simp
  have "lm3s_step ?K D b ?b1"
    by (rule st) (use assms in \<open>simp add: telemetry_task_def list_lm3s_def list_queue_def pipe_def\<close>)
  moreover have "lm3s_step ?K D ?b1 ?b2"
  proof -
    have "print_fmt D 200 zeros telem_fmt (telem_args t) (TL_Format t) TL_Beat ?s1 = (Lock (telem_text t) TL_Beat, ?s1)"
      by (rule print_fmt_lock [OF _ telem_render nul_free_telem]) (use length_telem [of t] in simp_all)
    with st [of ?b1 "Lock (telem_text t) TL_Beat" ?s1] show ?thesis by (simp add: telemetry_task_def)
  qed
  moreover have "(lm3s_step ?K D)\<^sup>*\<^sup>* ?b2 ?b3"
    using telemetry_line.prints_out [of ?b2 "telem_text t" TL_Beat ?K False D] assms(2)
    by (simp add: nul_free_telem list_lm3s_def pipe_def)
  moreover have "lm3s_step ?K D ?b3 (b\<lparr>telemetry_at := At TL_Receive, shared := ?s4\<rparr>)"
    using st [of ?b3 "At TL_Receive" ?s4] by (simp add: telemetry_task_def)
  ultimately have "(lm3s_step ?K D)\<^sup>*\<^sup>* b (b\<lparr>telemetry_at := At TL_Receive, shared := ?s4\<rparr>)"
    by (meson converse_rtranclp_into_rtranclp rtranclp.rtrancl_into_rtrancl)
  moreover have "pipe ?s4 = (q, [], k, r, True, f) \<and> tx ?s4 = tx (shared b) @ telem_text t
      \<and> speed_kmh_x10 ?s4 = speed_kmh_x10 (shared b)"
    using assms(2) by (simp add: heartbeat_def pipe_def)
  ultimately show ?thesis by blast
qed

subsection \<open>Properties\<close>

text \<open>C7: From every reachable state at most 201 steps of the task that holds the mutex of the serial line,
  with no step of any other task, the timer or the receiver between them, lead to a state in which the
  mutex is free and the line shows whole messages only: no task ever waits for the line for ever because of
  what its holder waits for.\<close>

theorem line_released:
  assumes "lm3s_contract K V" and "lm3s_reach K D b"
  shows "\<exists>n b' ms t. n \<le> 201 \<and> holder_run K D n b = Some b' \<and> (lm3s_step K D ^^ n) b b'
    \<and> free_sem V (xUartMutex (shared b')) \<and> holders b' = []
    \<and> list_all lm3s_message ms \<and> tx (shared b') = boot_text @ concat ms \<and> tx (shared b') = tx (shared b) @ t"
proof -
  note ok = board_ok_reach [OF assms]
  obtain ms where ms: "length (holders b) \<le> 1" "list_all lm3s_message ms"
    "tx (shared b) = boot_text @ concat ms @ concat (holders b)" "free_sem V (xUartMutex (shared b)) \<longleftrightarrow> holders b = []"
    using ok by (auto simp: board_ok_def line_state_def)
  show ?thesis
  proof (cases "holders b")
    case Nil
    with ms show ?thesis by (intro exI [of _ 0] exI [of _ b] exI [of _ ms] exI [of _ "[]"]) simp
  next
    case (Cons d ds)
    with ms(1) have d: "holders b = [d]" by simp
    from holder_done [OF assms(1) ok d, of D] obtain t n b' where
      t: "lm3s_message (d @ t)" "n \<le> length t + 2" "(lm3s_step K D ^^ n) b b'" "tx (shared b') = tx (shared b) @ t"
        "free_sem V (xUartMutex (shared b'))" "holder_run K D n b = Some b'" by blast
    have "(lm3s_step K D)\<^sup>*\<^sup>* b b'" using t(3) by (rule relpowp_imp_rtranclp)
    then have "board_ok V b'" using ok by induction (auto intro: board_ok_step [OF assms(1)])
    with t(5) have "holders b' = []" by (simp add: board_ok_def line_state_def)
    moreover have "n \<le> 201" using t(2) length_message [OF t(1)] by simp
    moreover have "list_all lm3s_message (ms @ [d @ t])" "tx (shared b') = boot_text @ concat (ms @ [d @ t])"
      using ms(2,3) t(1,4) d by simp_all
    ultimately show ?thesis using t(3-6) by blast
  qed
qed

theorem line_released_witness:
  "\<exists>n b' ms. 0 < n \<and> n \<le> 201 \<and> holder_run list_lm3s cent_dbl n holding = Some b' \<and> xUartMutex (shared b')
    \<and> list_all lm3s_message ms \<and> tx (shared b') = boot_text @ concat ms"
proof -
  obtain n b' ms where r: "n \<le> 201" "holder_run list_lm3s cent_dbl n holding = Some b'" "xUartMutex (shared b')"
    "holders b' = []" "list_all lm3s_message ms" "tx (shared b') = boot_text @ concat ms"
    using line_released [OF list_lm3s_contract holding_reached] by (auto simp: list_lm3s_view_def)
  then have "0 < n" using holding_state(2) by (cases n) auto
  with r show ?thesis by blast
qed

text \<open>C8: where the three tasks of the pipeline wait with nothing between them, no fault is
  injected and the line is free, a kick of the sensor task can be followed by exactly the telemetry line
  of the sample that the sensor task makes at this tick, processed with the speed estimate so far, and
  leaves the pipeline waiting with the new speed estimate; sample and line always exist.\<close>

theorem kick_to_line:
  assumes "lm3s_reach list_lm3s D b" and "pipe (shared b) = ([], [], True, False, True, FAULT_NONE)"
    and "sensor_at b = SN_Take rng" and "processing_at b = PR_Take" and "telemetry_at b = At TL_Receive"
  shows "\<exists>d rng' v telem b'. sensor_data FAULT_NONE (ticks (shared b)) rng = (d, rng')
    \<and> process_data FAULT_NONE (speed_kmh_x10 (shared b)) d = Inr (v, telem)
    \<and> (lm3s_step list_lm3s D)\<^sup>*\<^sup>* b b' \<and> tx (shared b') = tx (shared b) @ telem_text telem
    \<and> speed_kmh_x10 (shared b') = v \<and> pipe (shared b') = ([], [], False, False, True, FAULT_NONE)
    \<and> sensor_at b' = SN_Take rng' \<and> processing_at b' = PR_Take \<and> telemetry_at b' = At TL_Receive"
proof -
  obtain d rng' where d: "sensor_data FAULT_NONE (ticks (shared b)) rng = (d, rng')" by fastforce
  then have "plausible d \<or> sentinel d"
    using good_sensor_data [of FAULT_NONE "ticks (shared b)" rng] by (simp add: good_def)
  moreover have "0 \<le> speed_kmh_x10 (shared b)" "speed_kmh_x10 (shared b) \<le> 2000"
    using board_ok_reach [OF list_lm3s_contract assms(1)] by (simp_all add: board_ok_def data_ok_def)
  ultimately obtain v t where p: "process_data FAULT_NONE (speed_kmh_x10 (shared b)) d = Inr (v, t)"
    using process_data_bounds_lemma [of d "speed_kmh_x10 (shared b)" FAULT_NONE] by blast
  from sensor_part [OF assms(3,2) d] obtain s1 where
    1: "sensor_run list_lm3s 8 b = Some (b\<lparr>sensor_at := SN_Take rng', shared := s1\<rparr>)"
      "pipe s1 = ([d], [], False, True, True, FAULT_NONE)" "tx s1 = tx (shared b)" "speed_kmh_x10 s1 = speed_kmh_x10 (shared b)"
    by blast
  let ?b1 = "b\<lparr>sensor_at := SN_Take rng', shared := s1\<rparr>"
  from processing_part [of ?b1 d False True v t] assms(4) 1 p obtain n s2 where
    2: "processing_run list_lm3s n ?b1 = Some (?b1\<lparr>processing_at := PR_Take, shared := s2\<rparr>)"
      "pipe s2 = ([], [t], False, False, True, FAULT_NONE)" "tx s2 = tx (shared b)" "speed_kmh_x10 s2 = v"
    by auto
  let ?b2 = "?b1\<lparr>processing_at := PR_Take, shared := s2\<rparr>"
  from telemetry_part [of ?b2 "[]" t False False FAULT_NONE D] assms(5) 2 obtain s3 where
    3: "(lm3s_step list_lm3s D)\<^sup>*\<^sup>* ?b2 (?b2\<lparr>telemetry_at := At TL_Receive, shared := s3\<rparr>)"
      "pipe s3 = ([], [], False, False, True, FAULT_NONE)" "tx s3 = tx (shared b) @ telem_text t" "speed_kmh_x10 s3 = v"
    by auto
  have "(lm3s_step list_lm3s D)\<^sup>*\<^sup>* b (?b2\<lparr>telemetry_at := At TL_Receive, shared := s3\<rparr>)"
    using rtranclp_trans [OF rtranclp_trans [OF sensor_run_steps [OF 1(1)] processing_run_steps [OF 2(1)]] 3(1)] .
  moreover have "shared (?b2\<lparr>telemetry_at := At TL_Receive, shared := s3\<rparr>) = s3"
    "sensor_at (?b2\<lparr>telemetry_at := At TL_Receive, shared := s3\<rparr>) = SN_Take rng'"
    "processing_at (?b2\<lparr>telemetry_at := At TL_Receive, shared := s3\<rparr>) = PR_Take"
    "telemetry_at (?b2\<lparr>telemetry_at := At TL_Receive, shared := s3\<rparr>) = At TL_Receive" by simp_all
  ultimately show ?thesis using d p 3(2-4) by metis
qed

theorem kick_to_line_witness:
  "\<exists>b telem. lm3s_reach list_lm3s cent_dbl b \<and> tx (shared b) = boot_text @ telem_text telem"
proof -
  let ?b = "(lm3s_main list_lm3s)\<lparr>shared := ipc_prvSensorTimerCallback list_lm3s (shared (lm3s_main list_lm3s))\<rparr>"
  have r: "lm3s_reach list_lm3s cent_dbl ?b" by (rule lm3s_reach.step [OF lm3s_reach.boot lm3s_step.timer])
  have p: "pipe (shared ?b) = ([], [], True, False, True, FAULT_NONE)" "sensor_at ?b = SN_Take 0xDEADBEEF"
    "processing_at ?b = PR_Take" "telemetry_at ?b = At TL_Receive"
    by (simp_all add: pipe_def ipc_prvSensorTimerCallback_def lm3s_main_def Let_def ipc_init_def list_lm3s_def list_queue_def
        del: append_Cons append.simps)
  have x: "tx (shared ?b) = boot_text" by (simp add: ipc_prvSensorTimerCallback_def lm3s_main_simps)
  have "lm3s_reach list_lm3s cent_dbl b'" if "(lm3s_step list_lm3s cent_dbl)\<^sup>*\<^sup>* ?b b'" for b'
    using that by (induction rule: rtranclp_induct) (rule r, erule (1) lm3s_reach.step)
  with kick_to_line [OF r p] x show ?thesis by metis
qed

end
