(* ===== verification/Startup.thy ===== *)
theory Startup
  imports LibcShim Sink
begin

text \<open>
  The start-up of the lm3s board, \<open>src/startup/startup_lm3s.c\<close>: the vector table and the two loops that
  \<open>Reset_Handler\<close> runs before \<open>main\<close>. A pointer is an address; the symbols of the linker script are
  the fields of a record. A word is its four bytes in the order of their addresses.
\<close>

subsection \<open>The reset handler\<close>

record linker_symbols =
  etext :: nat
  sdata :: nat
  edata :: nat
  sbss :: nat
  ebss :: nat

type_synonym word_bytes = "u8 \<times> u8 \<times> u8 \<times> u8"

definition load_word :: "mem \<Rightarrow> nat \<Rightarrow> word_bytes" where
  "load_word m a = (m a, m (a + 1), m (a + 2), m (a + 3))"

definition store_word :: "mem \<Rightarrow> nat \<Rightarrow> word_bytes \<Rightarrow> mem" where
  "store_word m a w = (case w of (b0, b1, b2, b3) \<Rightarrow> m(a := b0, a + 1 := b1, a + 2 := b2, a + 3 := b3))"

function data_loop :: "mem \<Rightarrow> nat \<Rightarrow> nat \<Rightarrow> nat \<Rightarrow> mem" where
  "data_loop m src dst stop =
     (if dst < stop then data_loop (store_word m dst (load_word m src)) (src + 4) (dst + 4) stop else m)"
  by pat_completeness auto
termination
  by (relation "measure (\<lambda>(m, src, dst, stop). stop - dst)") auto

declare data_loop.simps [simp del]

function bss_loop :: "mem \<Rightarrow> nat \<Rightarrow> nat \<Rightarrow> mem" where
  "bss_loop m dst stop = (if dst < stop then bss_loop (store_word m dst (0, 0, 0, 0)) (dst + 4) stop else m)"
  by pat_completeness auto
termination
  by (relation "measure (\<lambda>(m, dst, stop). stop - dst)") auto

declare bss_loop.simps [simp del]

text \<open>The memory that \<open>main\<close> starts with; behind \<open>main\<close> there is an endless loop.\<close>

definition Reset_Handler :: "linker_symbols \<Rightarrow> mem \<Rightarrow> mem" where
  "Reset_Handler l m = bss_loop (data_loop m (etext l) (sdata l) (edata l)) (sbss l) (ebss l)"

subsection \<open>The vector table\<close>

datatype vector = Initial_SP | Handler string | Unused

definition irq_handler :: "nat \<Rightarrow> string" where
  "irq_handler n = ''IRQ'' @ udigits 10 n @ ''_Handler''"

text \<open>The handlers that the file declares weak, with \<open>Default_Handler\<close> behind each.\<close>

definition weak_handlers :: "string list" where
  "weak_handlers = [''NMI_Handler'', ''HardFault_Handler'', ''MemManage_Handler'', ''BusFault_Handler'',
     ''UsageFault_Handler'', ''SVC_Handler'', ''DebugMon_Handler'', ''PendSV_Handler'', ''SysTick_Handler'']
     @ map irq_handler [0..<32]"

definition vector_table :: "vector list" where
  "vector_table = [Initial_SP, Handler ''Reset_Handler'', Handler ''NMI_Handler'', Handler ''HardFault_Handler'',
     Handler ''MemManage_Handler'', Handler ''BusFault_Handler'', Handler ''UsageFault_Handler'',
     Unused, Unused, Unused, Unused, Handler ''SVC_Handler'', Handler ''DebugMon_Handler'', Unused,
     Handler ''PendSV_Handler'', Handler ''SysTick_Handler''] @ map (\<lambda>n. Handler (irq_handler n)) [0..<32]"

text \<open>The linker's choice for a weak symbol: the definition in another object if there is one.\<close>

definition linked :: "string list \<Rightarrow> vector \<Rightarrow> vector" where
  "linked strong v = (case v of
      Handler h \<Rightarrow> Handler (if h \<in> set weak_handlers \<and> h \<notin> set strong then ''Default_Handler'' else h)
    | _ \<Rightarrow> v)"

text \<open>The names that \<open>src/FreeRTOSConfig.h\<close> gives to the handlers of the kernel's port.\<close>

definition port_handlers :: "string list" where
  "port_handlers = [''SVC_Handler'', ''PendSV_Handler'', ''SysTick_Handler'']"

lemma irq_vectors: "map (linked port_handlers) (map (\<lambda>n. Handler (irq_handler n)) [0..<32]) =
    replicate 32 (Handler ''Default_Handler'')"
proof -
  have "linked port_handlers (Handler (irq_handler n)) = Handler ''Default_Handler''" if "n < 32" for n
    using that by (simp add: linked_def weak_handlers_def port_handlers_def) (simp add: irq_handler_def)
  then have "map (linked port_handlers) (map (\<lambda>n. Handler (irq_handler n)) [0..<32]) =
      map (\<lambda>n. Handler ''Default_Handler'') [0..<32]" by simp
  also have "\<dots> = replicate 32 (Handler ''Default_Handler'')" by (simp add: map_replicate_const)
  finally show ?thesis .
qed

text \<open>With that kernel its three handlers are installed, and every other exception ends in the default loop.\<close>

lemma installed_vectors: "map (linked port_handlers) vector_table =
    [Initial_SP, Handler ''Reset_Handler''] @ replicate 5 (Handler ''Default_Handler'') @ replicate 4 Unused
    @ [Handler ''SVC_Handler'', Handler ''Default_Handler'', Unused, Handler ''PendSV_Handler'',
       Handler ''SysTick_Handler''] @ replicate 32 (Handler ''Default_Handler'')"
  unfolding vector_table_def map_append irq_vectors
  by (simp add: linked_def weak_handlers_def port_handlers_def irq_handler_def image_iff numeral_eq_Suc del: upt.simps)

subsection \<open>What the loops leave\<close>

text \<open>A loop over words rounds the length of its section up to whole words.\<close>

definition words_of :: "nat \<Rightarrow> nat" where
  "words_of n = (n + 3) div 4 * 4"

lemma words_of_step: "d < e \<Longrightarrow> words_of (e - d) = 4 + words_of (e - (d + 4))"
  by (cases "e < d + 4") (auto simp: words_of_def le_div_geq div_if)

lemma words_of_0 [simp]: "words_of 0 = 0"
  by (simp add: words_of_def)

lemma store_word_apply: "store_word m d w a =
    (case w of (b0, b1, b2, b3) \<Rightarrow> if a = d then b0 else if a = d + 1 then b1 else if a = d + 2 then b2
      else if a = d + 3 then b3 else m a)"
  by (simp add: store_word_def split: prod.split)

lemma data_loop_spec:
  assumes "d \<le> s \<or> s + words_of (e - d) \<le> d"
  shows "data_loop m s d e a = (if d \<le> a \<and> a < d + words_of (e - d) then m (s + (a - d)) else m a)"
  using assms
proof (induction m s d e rule: data_loop.induct)
  case (1 m s d e)
  show ?case
  proof (cases "d < e")
    case True
    let ?m = "store_word m d (load_word m s)" and ?n = "words_of (e - (d + 4))"
    note n = words_of_step [OF True]
    have "data_loop m s d e a = data_loop ?m (s + 4) (d + 4) e a"
      using True by (simp add: data_loop.simps [of m s d e])
    also have "\<dots> = (if d + 4 \<le> a \<and> a < d + 4 + ?n then ?m (s + 4 + (a - (d + 4))) else ?m a)"
      by (rule "1.IH" [OF True]) (use "1.prems" n in auto)
    also have "\<dots> = (if d \<le> a \<and> a < d + words_of (e - d) then m (s + (a - d)) else m a)"
      using "1.prems" unfolding n by (auto simp: store_word_apply load_word_def)
    finally show ?thesis .
  next
    case False
    then show ?thesis by (auto simp: data_loop.simps [of m s d e])
  qed
qed

lemma bss_loop_spec: "bss_loop m d e a = (if d \<le> a \<and> a < d + words_of (e - d) then 0 else m a)"
proof (induction m d e rule: bss_loop.induct)
  case (1 m d e)
  show ?case
  proof (cases "d < e")
    case True
    let ?m = "store_word m d (0, 0, 0, 0)"
    have "bss_loop m d e a = bss_loop ?m (d + 4) e a" using True by (simp add: bss_loop.simps [of m d e])
    also have "\<dots> = (if d + 4 \<le> a \<and> a < d + 4 + words_of (e - (d + 4)) then 0 else ?m a)"
      by (rule "1.IH" [OF True])
    also have "\<dots> = (if d \<le> a \<and> a < d + words_of (e - d) then 0 else m a)"
      unfolding words_of_step [OF True] by (auto simp: store_word_apply)
    finally show ?thesis .
  next
    case False
    then show ?thesis by (auto simp: bss_loop.simps [of m d e])
  qed
qed

text \<open>On whole words the loop is a copy routine as the two libraries have them.\<close>

interpretation data_copy: byte_copy "\<lambda>m d s n. data_loop m s d (d + n)" "\<lambda>d s n. 4 dvd n \<and> (d \<le> s \<or> s + n \<le> d)"
proof
  have "words_of n = n" if "4 dvd n" for n using that by (auto simp: words_of_def)
  then show "data_loop m s d (d + n) a = (if d \<le> a \<and> a < d + n then m (s + (a - d)) else m a)"
    if "4 dvd n \<and> (d \<le> s \<or> s + n \<le> d)" for m d s n a
    using that data_loop_spec [of d s "d + n" m a] by simp
qed

subsection \<open>Properties\<close>

text \<open>C40: \<open>main\<close> starts with the initial values of the data section copied from behind the
  program text and with zeros in the bss section, both rounded up to whole words, and with everything
  else as it was, where the image is not overwritten while it is copied; the zeros come last, so they
  win where the rounded data section reaches into the bss section.\<close>

theorem reset_memory:
  assumes "sdata l \<le> etext l \<or> etext l + words_of (edata l - sdata l) \<le> sdata l"
  shows "Reset_Handler l m a =
    (if a \<in> {sbss l..<sbss l + words_of (ebss l - sbss l)} then 0
     else if a \<in> {sdata l..<sdata l + words_of (edata l - sdata l)} then m (etext l + (a - sdata l))
     else m a)"
  using assms by (simp add: Reset_Handler_def bss_loop_spec data_loop_spec)

text \<open>Five bytes of data are copied as eight, of which the bss section takes three back.\<close>

theorem reset_memory_witness:
  "map (Reset_Handler \<lparr>etext = 0, sdata = 100, edata = 105, sbss = 105, ebss = 108\<rparr> of_nat) [99, 100, 104, 105, 107, 109]
    = [99, 0, 4, 0, 0, 109]"
  using reset_memory [of "\<lparr>etext = 0, sdata = 100, edata = 105, sbss = 105, ebss = 108\<rparr>" of_nat]
  by (simp add: words_of_def)

end
