(* ===== verification/Semihost.thy ===== *)
theory Semihost
  imports Console
begin

text \<open>
  The calls to the debugger's host, \<open>firmware/src/semihost.c\<close>, and how the console uses them. The host is a
  parameter: its answer to the last of the calls made so far, a return value and the bytes it put
  into the caller's buffer. A call is its reason code with the argument the code points at; the
  parameter blocks are the structs that the functions build on the stack.
\<close>

subsection \<open>The calls\<close>

datatype semihost_arg =
    Text string
  | Open_block string i32 i32
  | Buffer_block i32 nat i32
  | Write_block i32 string i32
  | Handle_arg i32
  | Exit_block u32 u32
  | Code u32

type_synonym calls = "(u32 \<times> semihost_arg) list"
type_synonym host = "calls \<Rightarrow> i32 \<times> string"

definition semihost_call :: "host \<Rightarrow> u32 \<Rightarrow> semihost_arg \<Rightarrow> calls \<Rightarrow> (i32 \<times> string) \<times> calls" where
  "semihost_call host reason arg tr = (let tr = tr @ [(reason, arg)] in (host tr, tr))"

definition semihost_write0 :: "host \<Rightarrow> string \<Rightarrow> calls \<Rightarrow> calls" where
  "semihost_write0 host text tr = snd (semihost_call host 0x04 (Text text) tr)"

text \<open>The length is counted in an \<open>int\<close>.\<close>

fun open_length :: "string \<Rightarrow> int \<Rightarrow> c_ub + int" where
  "open_length path len =
     (if peek path \<noteq> NUL
      then if len = 2 ^ 31 - 1 then Inl SignedOverflow else open_length (tl path) (len + 1)
      else Inr len)"

declare open_length.simps [simp del]

definition semihost_open :: "host \<Rightarrow> string \<Rightarrow> i32 \<Rightarrow> calls \<Rightarrow> c_ub + (i32 \<times> calls)" where
  "semihost_open host path mode tr =
     map_sum id (\<lambda>len. let ((r, b), tr) = semihost_call host 0x01 (Open_block path mode (word_of_int len)) tr in (r, tr))
       (open_length path 0)"

text \<open>The buffer is named by its address; what the host reads into it is the second result.\<close>

definition semihost_read :: "host \<Rightarrow> i32 \<Rightarrow> nat \<Rightarrow> u32 \<Rightarrow> calls \<Rightarrow> (i32 \<times> string) \<times> calls" where
  "semihost_read host handle buffer len tr = semihost_call host 0x06 (Buffer_block handle buffer (ucast len)) tr"

definition semihost_write :: "host \<Rightarrow> i32 \<Rightarrow> string \<Rightarrow> u32 \<Rightarrow> calls \<Rightarrow> i32 \<times> calls" where
  "semihost_write host handle buffer len tr =
     (let ((r, b), tr) = semihost_call host 0x05 (Write_block handle buffer (ucast len)) tr in (r, tr))"

definition semihost_close :: "host \<Rightarrow> i32 \<Rightarrow> calls \<Rightarrow> i32 \<times> calls" where
  "semihost_close host handle tr = (let ((r, b), tr) = semihost_call host 0x02 (Handle_arg handle) tr in (r, tr))"

text \<open>The calls made when the endless loop of \<open>semihost_exit\<close> begins.\<close>

definition semihost_exit :: "host \<Rightarrow> i32 \<Rightarrow> calls \<Rightarrow> calls" where
  "semihost_exit host status tr =
     (let tr = snd (semihost_call host 0x20 (Exit_block 0x20026 (ucast status)) tr)
      in snd (semihost_call host 0x18 (Code 0x20026) tr))"

definition fw_exit :: "host \<Rightarrow> i32 \<Rightarrow> calls \<Rightarrow> calls" where
  "fw_exit host status tr = semihost_exit host status tr"

subsection \<open>The console on the host\<close>

text \<open>What the operations of the console become; the mutex is not a call to the host.\<close>

fun perform_op :: "host \<Rightarrow> console_op \<Rightarrow> calls \<Rightarrow> calls" where
  "perform_op host (Write0 t) tr = semihost_write0 host t tr"
| "perform_op host (WriteFd fd t n) tr = snd (semihost_write host (word_of_int fd) t (of_nat n) tr)"
| "perform_op host (CloseFd fd) tr = snd (semihost_close host (word_of_int fd) tr)"
| "perform_op host TakeMutex tr = tr"
| "perform_op host GiveMutex tr = tr"

definition perform :: "host \<Rightarrow> console_op list \<Rightarrow> calls \<Rightarrow> calls" where
  "perform host ops tr = foldl (\<lambda>tr op. perform_op host op tr) tr ops"

text \<open>\<open>console_init\<close>: the mutex exists from here on, and the handle of the input.\<close>

definition console_init :: "host \<Rightarrow> calls \<Rightarrow> c_ub + (bool \<times> i32 \<times> calls)" where
  "console_init host tr = map_sum id (\<lambda>(handle, tr). (True, handle, tr)) (semihost_open host '':tt'' 0 tr)"

subsection \<open>What the calls carry\<close>

lemma open_length_spec:
  assumes "nul_free path" and "0 \<le> len" and "len \<le> 2 ^ 31 - 1"
  shows "open_length path len =
    (if len + int (length path) \<le> 2 ^ 31 - 1 then Inr (len + int (length path)) else Inl SignedOverflow)"
  using assms
proof (induction path arbitrary: len)
  case Nil
  then show ?case by (simp add: open_length.simps [of "[]"])
next
  case (Cons c path)
  show ?case
  proof (cases "len = 2 ^ 31 - 1")
    case True
    with Cons.prems(1) show ?thesis by (simp add: open_length.simps [of "c # path"])
  next
    case False
    with Cons.prems have "open_length (c # path) len = open_length path (len + 1)"
      by (simp add: open_length.simps [of "c # path"])
    also have "\<dots> = (if len + 1 + int (length path) \<le> 2 ^ 31 - 1 then Inr (len + 1 + int (length path)) else Inl SignedOverflow)"
      by (rule Cons.IH) (use Cons.prems False in auto)
    finally show ?thesis by (simp add: add.assoc)
  qed
qed

lemma sint_i32_small: "0 \<le> v \<Longrightarrow> v < 2 ^ 31 \<Longrightarrow> sint (word_of_int v :: i32) = v"
  by (simp add: signed_of_int signed_take_bit_int_eq_self)

lemma sint_i32_nat: "n < 2 ^ 31 \<Longrightarrow> sint (of_nat n :: i32) = int n"
  using sint_i32_small [of "int n"] by simp

lemma perform_simps:
  "perform host [] tr = tr" "perform host (op # ops) tr = perform host ops (perform_op host op tr)"
  "perform host (ops @ ops') tr = perform host ops' (perform host ops tr)"
  by (simp_all add: perform_def)

lemma performed_ops: "perform host (console_ops m fd t) tr =
    tr @ (0x04, Text t) # (if m \<and> 0 \<le> fd then [(0x05, Write_block (word_of_int fd) t (of_nat (length t)))] else [])"
  by (simp add: console_ops_def perform_simps semihost_write0_def semihost_write_def semihost_call_def Let_def
      split: prod.split)

subsection \<open>Properties\<close>

text \<open>\<open>semihost_open\<close> makes exactly one call, with the reason for opening, and the
  length in its block is that of the path as \<open>strlen\<close> of the firmware's libc gives it; it never overflows
  for a path that fits an \<open>int\<close>.\<close>

theorem semihost_open_block:
  assumes "nul_free path" and "length path < 2 ^ 31"
  shows "\<exists>len. semihost_open host path mode tr =
      Inr (fst (host (tr @ [(0x01, Open_block path mode len)])), tr @ [(0x01, Open_block path mode len)])
    \<and> sint len = int (strlen (Some path))"
proof -
  have l: "int (length path) < 2 ^ 31" using assms(2) by simp
  then have "sint (word_of_int (int (length path)) :: i32) = int (length path)" by (intro sint_i32_small) simp_all
  moreover have "open_length path 0 = Inr (int (length path))"
    using open_length_spec [OF assms(1), of 0] l by simp
  ultimately show ?thesis
    by (intro exI [of _ "word_of_int (int (length path))"])
      (simp add: semihost_open_def semihost_call_def Let_def strlen_def strlen_loop_spec [OF assms(1)] split: prod.split)
qed

theorem semihost_open_block_witness:
  "\<exists>len. semihost_open (\<lambda>_. (7, [])) ''firmware_commands.txt'' 4 [] =
      Inr (7, [(0x01, Open_block ''firmware_commands.txt'' 4 len)]) \<and> sint len = 21"
  using semihost_open_block [of "''firmware_commands.txt''" "\<lambda>_. (7, [])" 4 "[]"]
  by (simp add: strlen_def strlen_loop_spec)



end
