(* ===== verification/Hooks.thy ===== *)
theory Hooks
  imports Semihost Uart
begin

text \<open>
  What the kernel calls back: the hooks of the firmware, \<open>firmware/src/hooks.c\<close>, and those that the lm3s
  board has in \<open>src/main.c\<close>. A hook that does not return is the list of what it does up to its endless
  loop. A static object is its name; a stack is its name and its depth.
\<close>

datatype hook_op = Disable_interrupts | Console "c_ub + console_op list" | Wait_for_interrupt | Spin

subsection \<open>The firmware\<close>

definition assert_fmt :: string where
  "assert_fmt = ''ASSERT FAILED: %s:%d''"

definition overflow_fmt :: string where
  "overflow_fmt = ''Stack overflow in %s''"

definition vAssertCalled :: "bool \<Rightarrow> int \<Rightarrow> string \<Rightarrow> string \<Rightarrow> i32 \<Rightarrow> hook_op list" where
  "vAssertCalled mutex_created xLogFd garbage file line =
     [Disable_interrupts,
      Console (console_writef mutex_created xLogFd garbage assert_fmt [VStr (Some file), VInt line]), Spin]"

definition vApplicationMallocFailedHook :: "bool \<Rightarrow> int \<Rightarrow> string \<Rightarrow> hook_op list" where
  "vApplicationMallocFailedHook mutex_created xLogFd garbage =
     [Console (console_writeln mutex_created xLogFd garbage (Some ''Malloc failed'')), Disable_interrupts, Spin]"

definition vApplicationStackOverflowHook :: "bool \<Rightarrow> int \<Rightarrow> string \<Rightarrow> string \<Rightarrow> hook_op list" where
  "vApplicationStackOverflowHook mutex_created xLogFd garbage pcTaskName =
     [Console (console_writef mutex_created xLogFd garbage overflow_fmt [VStr (Some pcTaskName)]),
      Disable_interrupts, Spin]"

definition vApplicationIdleHook :: "hook_op list" where
  "vApplicationIdleHook = [Wait_for_interrupt]"

record task_memory =
  tcb :: string
  stack :: "string \<times> nat"
  stack_size :: nat

definition fw_stacks :: "(string \<times> nat) list" where
  "fw_stacks = [(''uxIdleTaskStack'', 128), (''uxTimerTaskStack'', 192)]"

definition vApplicationGetIdleTaskMemory :: task_memory where
  "vApplicationGetIdleTaskMemory = \<lparr>tcb = ''xIdleTaskTCB'', stack = fw_stacks ! 0, stack_size = 128\<rparr>"

definition vApplicationGetTimerTaskMemory :: task_memory where
  "vApplicationGetTimerTaskMemory = \<lparr>tcb = ''xTimerTaskTCB'', stack = fw_stacks ! 1, stack_size = 192\<rparr>"

subsection \<open>The lm3s board\<close>

definition lm3s_stacks :: "(string \<times> nat) list" where
  "lm3s_stacks = [(''uxIdleStack'', 128), (''uxTimerStack'', 256)]"

definition lm3s_GetIdleTaskMemory :: task_memory where
  "lm3s_GetIdleTaskMemory = \<lparr>tcb = ''xIdleTCB'', stack = lm3s_stacks ! 0, stack_size = 128\<rparr>"

definition lm3s_GetTimerTaskMemory :: task_memory where
  "lm3s_GetTimerTaskMemory = \<lparr>tcb = ''xTimerTCB'', stack = lm3s_stacks ! 1, stack_size = 256\<rparr>"

text \<open>The error hooks send a line and stop; \<open>None\<close> is a line that never becomes ready.\<close>

definition lm3s_StackOverflowHook :: "uart \<Rightarrow> uart option" where
  "lm3s_StackOverflowHook u = uart_puts (''[FATAL] Stack overflow!'' @ [CHR 0x0D, CHR 0x0A]) u"

definition lm3s_MallocFailedHook :: "uart \<Rightarrow> uart option" where
  "lm3s_MallocFailedHook u = uart_puts (''[FATAL] Malloc failed!'' @ [CHR 0x0D, CHR 0x0A]) u"

subsection \<open>What the hooks do\<close>

text \<open>The kernel gets distinct control blocks and stacks, with the depth that each stack has.\<close>

lemma hook_memory:
  "distinct (map tcb [vApplicationGetIdleTaskMemory, vApplicationGetTimerTaskMemory])"
  "distinct (map tcb [lm3s_GetIdleTaskMemory, lm3s_GetTimerTaskMemory])"
  "list_all (\<lambda>t. snd (stack t) = stack_size t) [vApplicationGetIdleTaskMemory, vApplicationGetTimerTaskMemory,
     lm3s_GetIdleTaskMemory, lm3s_GetTimerTaskMemory]"
  by (simp_all add: vApplicationGetIdleTaskMemory_def vApplicationGetTimerTaskMemory_def lm3s_GetIdleTaskMemory_def
      lm3s_GetTimerTaskMemory_def fw_stacks_def lm3s_stacks_def)

lemma assert_render:
  assumes "nul_free file" and "sint line \<noteq> - (2 ^ 31)"
  shows "render assert_fmt [VStr (Some file), VInt line] =
    Inr (''ASSERT FAILED: '' @ file @ '':'' @ signed_text 0 False (sint line))"
  using assms by (simp add: assert_fmt_def render_simps is_digit_def)

lemma overflow_render:
  "nul_free name \<Longrightarrow> render overflow_fmt [VStr (Some name)] = Inr (''Stack overflow in '' @ name)"
  by (simp add: overflow_fmt_def render_simps is_digit_def)

lemma hook_texts:
  assumes "length g = 256" and "nul_free name"
  shows "sint line \<noteq> - (2 ^ 31) \<Longrightarrow> vAssertCalled m fd g name line = [Disable_interrupts,
      Console (Inr (console_ops m fd (take 255 (''ASSERT FAILED: '' @ name @ '':'' @ signed_text 0 False (sint line))))), Spin]"
    and "vApplicationStackOverflowHook m fd g name =
      [Console (Inr (console_ops m fd (take 255 (''Stack overflow in '' @ name)))), Disable_interrupts, Spin]"
    and "vApplicationMallocFailedHook m fd g =
      [Console (Inr (console_ops m fd (''Malloc failed'' @ [CHR 0x0A]))), Disable_interrupts, Spin]"
proof -
  show "vAssertCalled m fd g name line = [Disable_interrupts,
      Console (Inr (console_ops m fd (take 255 (''ASSERT FAILED: '' @ name @ '':'' @ signed_text 0 False (sint line))))), Spin]"
    if "sint line \<noteq> - (2 ^ 31)"
    unfolding vAssertCalled_def using that assms
    by (subst console_writef_eq [OF assms(1) assert_render [OF assms(2) that]]) (simp_all add: signed_text_def)
  show "vApplicationStackOverflowHook m fd g name =
      [Console (Inr (console_ops m fd (take 255 (''Stack overflow in '' @ name)))), Disable_interrupts, Spin]"
    unfolding vApplicationStackOverflowHook_def using assms
    by (subst console_writef_eq [OF assms(1) overflow_render [OF assms(2)]]) simp_all
  show "vApplicationMallocFailedHook m fd g =
      [Console (Inr (console_ops m fd (''Malloc failed'' @ [CHR 0x0A]))), Disable_interrupts, Spin]"
    unfolding vApplicationMallocFailedHook_def by (subst console_writeln_eq [OF assms(1)]) simp_all
qed

text \<open>An error line of the lm3s board arrives whole exactly if the line becomes ready for each of its characters.\<close>

lemma lm3s_fatal_lines:
  "lm3s_StackOverflowHook u \<noteq> None \<longleftrightarrow> 25 \<le> length (filter tx_ready (fr_reads u))"
  "lm3s_MallocFailedHook u \<noteq> None \<longleftrightarrow> 24 \<le> length (filter tx_ready (fr_reads u))"
  using uart_puts_sends [of "''[FATAL] Stack overflow!'' @ [CHR 0x0D, CHR 0x0A]" u]
    uart_puts_sends [of "''[FATAL] Malloc failed!'' @ [CHR 0x0D, CHR 0x0A]" u]
  by (auto simp: lm3s_StackOverflowHook_def lm3s_MallocFailedHook_def split: if_splits)

end
