(* ===== verification/Spec2Isabelle.thy ===== *)
theory Spec2Isabelle
  imports MsgQueue FwPeriod FwOutput FwWatchdog EcuApi Lm3sCycle Startup Hooks
begin

text \<open>
  A verification library for the ECU telemetry simulator, a C program in three builds: the firmware
  for an STM32 board under an RTOS (\<open>firmware/\<close>), a host build with POSIX threads
  (\<open>src/host_main.c\<close>, \<open>src/ecu_sim.c\<close>, \<open>src/queue.c\<close>), and an older firmware for another board
  (\<open>src/main.c\<close>, \<open>src/tasks\<close>, \<open>src/printf.c\<close>, \<open>src/syscalls.c\<close>) that no build file builds any more.

  The program. A timer kicks a sensor task every 100 ms. The sensor task makes a sample from a linear
  congruential generator and a temperature sawtooth and sends it to a queue of six messages; a
  processor task derives a telemetry frame from it (engine speed, throttle, vehicle speed) and sends
  that to a second queue of six; a logger task prints it. Each of the three leaves a beat in a counter
  and a bit in an event group, which a watchdog task waits for. A diagnostics task runs a scripted
  self-test: it prints the statistics, switches fault modes (a sensor that delivers invalid samples, a
  burst of samples, a stalling processor) and resets everything. The statistics are shared under one
  mutex.

  The theories.
  \<^item> \<open>Prelude\<close>: word and list facts that the components share; C division and the slots of a byte array.
  \<^item> \<open>Fifo\<close>: the contract of a bounded FIFO as a locale, with the lists it is measured against.
  \<^item> \<open>MsgQueue\<close>: \<open>src/queue.c\<close>. The ring of bytes, the wait loop with its deadlines, creation and its
    error paths. The locale \<open>bounded_fifo\<close> is interpreted on the code's operations; the lemmas show
    that every run of operations is that of a list, when a waiting pop returns, and what is signalled.
  \<^item> \<open>LibcShim\<close>: \<open>firmware/src/libc_shim.c\<close>. Copies over a byte memory, comparison of C strings.
  \<^item> \<open>Sink\<close>, \<open>Console\<close>: \<open>firmware/src/console.c\<close>. The contract of a bounded text sink (a locale,
    interpreted on the 256-byte buffer), the formatter against a reference that gives the text of a
    format (\<open>render\<close>), the line reader. What C leaves undefined is an error value.
  \<^item> \<open>FwTypes\<close>, \<open>FwSignal\<close>: \<open>firmware/include/firmware.h\<close> and the data path of
    \<open>firmware/src/main.c\<close>: generator, processing and the logger's line, at their C widths.
  \<^item> \<open>Rtos\<close>: the kernel's calls as a record of parameters, its documented contract, and the kernel
    of lists that satisfies it.
  \<^item> \<open>FwTasks\<close>, \<open>FwDiag\<close>, \<open>FwSystem\<close>: the tasks of \<open>firmware/src/main.c\<close> as small steps, the
    diagnostics task as a list of atomic actions, \<open>main\<close>, the step relation of the whole firmware,
    and the simulation that carries every run over a kernel to a run over lists.
  \<^item> \<open>FwCounters\<close>, \<open>FwCycle\<close>, \<open>FwPipeline\<close>, \<open>FwDrain\<close>, \<open>FwPeriod\<close>, \<open>FwWatchdog\<close>: what
    holds in every reachable state: the accounts of the counters, the course of a burst and of one timer
    period in every order of the tasks' steps, order and provenance of what is logged, progress, and the
    watchdog's reports.
  \<^item> \<open>FwMessages\<close>, \<open>FwOutput\<close>: the command table, the text of every message, that no console call is
    ever undefined, and the effect of every command.
  \<^item> \<open>EcuSim\<close>, \<open>HostMain\<close>: \<open>src/ecu_sim.c\<close> and \<open>src/host_main.c\<close>. The four threads as small steps over
    the queues of \<open>MsgQueue\<close>, the interface as lists of actions, the main thread with its command table,
    and a run of the whole program (\<open>host_run\<close>) as a list of turns.
  \<^item> \<open>EcuPhase\<close>, \<open>EcuHost\<close>, \<open>EcuStop\<close>: the protocol of the interface (off, starting, on, stopping, gone), a
    concrete host for the witnesses, and termination: of the threads after a stop, of the program.
  \<^item> \<open>EcuFlow\<close>, \<open>EcuApi\<close>: the accounts of samples and frames, order and provenance of the log, creation,
    reset, the watchdog's check and the command line.
  \<^item> \<open>MiniPrintf\<close>, \<open>Uart\<close>, \<open>Syscalls\<close>: \<open>src/printf.c\<close> (the second interpretation of the bounded sink),
    \<open>src/uart.c\<close> and \<open>src/syscalls.c\<close>. The locale \<open>byte_copy\<close> of \<open>LibcShim\<close> is the contract of a copy; it is
    interpreted on \<open>memcpy\<close> of both boards and on \<open>memmove\<close>.
  \<^item> \<open>Lm3sData\<close>, \<open>Lm3sTasks\<close>, \<open>Lm3sText\<close>: \<open>src/tasks\<close>, \<open>src/ipc\<close>, \<open>src/fault\<close> and \<open>src/main.c\<close>. The integer
    square root and the derived values, the five tasks as small steps over kernel objects of
    unspecified type, and the text of the messages.
  \<^item> \<open>Lm3sSafety\<close>: what holds on that board in every reachable state: the line under its mutex, absence
    of undefined behaviour, the bounds, the samples behind the binary semaphore, the line poller.
  \<^item> \<open>Lm3sCycle\<close>: progress there. The locale \<open>board_printer\<close> is what a task that prints promises the board, with
    the run of its message proved once; it is interpreted on the three printing tasks.
  \<^item> \<open>Semihost\<close>, \<open>Hooks\<close>, \<open>Startup\<close>: \<open>firmware/src/semihost.c\<close> with what the console hands to the host, the
    hooks of \<open>firmware/src/hooks.c\<close> and \<open>src/main.c\<close>, and \<open>startup/startup_lm3s.c\<close>: the vector table and the
    section loops over a byte memory, the latter another interpretation of \<open>byte_copy\<close>.

  The state. \<open>fw\<close> holds the firmware's globals under their names, kernel objects as values of the
  kernel's own types, the tick, everything printed so far, and each task's control point with the
  locals that are live there; \<open>sys\<close> adds the diagnostics task. A step performs one kernel call, one
  critical section (lock, accesses, unlock) or one console call; a read without the lock is a step of
  its own. All interleavings are allowed, a superset of those of the priority scheduler; delays may
  end at any time. \<open>fw_reach K n s\<close> says that \<open>s\<close> is reachable with \<open>n\<close> samples made.
  \<open>EcuSim\<close> holds the object and the threads of the host build in the same way, and \<open>board\<close> the lm3s tasks,
  which print character by character under the mutex of the line.

  Bounds. The counters are 32-bit words (64-bit in the host build) and their equations hold modulo that
  width; statements on order assume fewer than \<open>2^32\<close> samples, which is thirteen years at ten samples a
  second. No definition needs fuel: loops over strings and counters terminate by a measure, the wait loop
  of a pop recurs over the wake-ups that happen, a run is a list of turns, and the loops that may run for
  ever (\<open>strcpy\<close>, the range reduction of \<open>sinf\<close>) are partial functions into \<open>option\<close>.

  What is not modelled. The kernel's source is a submodule that the repository does not carry: it is a
  parameter with a hypothesis. The assembly start-up of the STM32 board and the trap instruction itself
  have no C semantics. The host's C library, clock and floating point are parameters, and so is the
  debugger's host. Hooks that do not return are what they do up to their endless loop.

  Runs of the lm3s board are one boot session: the command \<open>reset\<close> records that the reset register was
  written, and what the tasks could still do until the reset takes effect is over-approximated by their
  going on; the restart itself is not a step. A character on that board's line is one step of its task;
  the polling of the transmit flag is in \<open>Uart\<close>. In the host build \<open>pthread_create\<close> succeeds always, as
  the code, which ignores its result, takes it to. The conversion of a \<open>double\<close> to \<open>unsigned long\<close> is a total
  parameter, so its undefined cases have the parameter's value, and addresses are unbounded numbers, so
  a pointer that would wrap does not.

  Plan: the priorities of the scheduler, which the step relations leave open, as a restriction of the
  runs, to state which of the races on the lm3s board the priorities rule out.
\<close>

end
